(* ===== verification/Prelude.thy ===== *)
theory Prelude
  imports
    Complex_Main
    "HOL-Library.Word"
    "HOL-Library.Signed_Division"
    "HOL-Library.Multiset"
    "HOL-Library.List_Lexorder"
    "HOL-Library.Char_ord"
    "HOL-Library.Product_Lexorder"
    "HOL-Library.Sublist"
begin

text \<open>
  Shared vocabulary of the development: Go's 64-bit integers with their
  wrap-around and truncating division, instants and durations in nanoseconds,
  the decimal and string helpers of \<open>strconv\<close> and \<open>strings\<close> that the sources call,
  iteration orders of Go maps, and the generic locales for invariants,
  round-trip codecs and name registries.
\<close>

named_theorems go_arith \<open>rewriting 64-bit arithmetic whose operands are in range\<close>
named_theorems go_string \<open>unfolding the string helpers of the standard library\<close>

section \<open>Machine integers\<close>

text \<open>
  A Go \<open>int64\<close>, \<open>int\<close> (on the 64-bit platforms proofload builds for) or
  \<open>time.Duration\<close> is an \<^typ>\<open>int\<close> in the range of \<open>in64\<close>; every operation that
  can leave the range is followed by \<open>i64\<close>, the two's complement wrap.
  A Go \<open>uint64\<close> is a 64-bit word.
\<close>

type_synonym u64 = "64 word"
type_synonym u8 = "8 word"

definition in64 :: "int \<Rightarrow> bool" where
  "in64 x \<longleftrightarrow> - 9223372036854775808 \<le> x \<and> x < 9223372036854775808"

definition i64 :: "int \<Rightarrow> int" where
  "i64 x = (x + 9223372036854775808) mod 18446744073709551616 - 9223372036854775808"

lemma i64_id [simp]: "in64 x \<Longrightarrow> i64 x = x"
  by (simp add: in64_def i64_def)

lemma in64_i64 [simp, intro]: "in64 (i64 x)"
  using pos_mod_bound [of 18446744073709551616 "x + 9223372036854775808"]
    pos_mod_sign [of 18446744073709551616 "x + 9223372036854775808"]
  unfolding in64_def i64_def by arith

lemma i64_i64 [simp]: "i64 (i64 x) = i64 x"
  by simp

lemma i64_add_i64: "i64 (i64 x + y) = i64 (x + y)"
proof -
  have "((x + c) mod m - c + y + c) mod m = (x + y + c) mod m" for c m :: int
    using mod_add_left_eq [of "x + c" m y] by (simp add: algebra_simps)
  thus ?thesis
    by (simp add: i64_def)
qed

lemma in64I [intro]: "- 9223372036854775808 \<le> x \<Longrightarrow> x < 9223372036854775808 \<Longrightarrow> in64 x"
  by (simp add: in64_def)

lemma in64_nonneg: "0 \<le> x \<Longrightarrow> x \<le> y \<Longrightarrow> in64 y \<Longrightarrow> in64 x"
  by (simp add: in64_def)

lemma in64_0 [simp]: "in64 0" and in64_1 [simp]: "in64 1"
  by (simp_all add: in64_def)

lemma sdiv_nonneg [go_arith]: "0 \<le> a \<Longrightarrow> 0 < b \<Longrightarrow> a sdiv b = a div b" for a b :: int
  by (cases "a = 0") (simp_all add: signed_divide_int_def)

lemma smod_nonneg [go_arith]: "0 \<le> a \<Longrightarrow> 0 < b \<Longrightarrow> a smod b = a mod b" for a b :: int
  by (cases "a = 0") (simp_all add: signed_modulo_int_def)

lemma div_le_self: "0 \<le> a \<Longrightarrow> 0 < b \<Longrightarrow> a div b \<le> a" for a b :: int
  using zdiv_mono2 [of a 1 b] by simp

lemma le_div_iff_mult: "b \<le> a div c \<longleftrightarrow> b * c \<le> a" if "0 < c" for a b c :: int
proof
  assume "b \<le> a div c"
  hence "b * c \<le> (a div c) * c"
    using that by (simp add: mult_right_mono)
  also have "\<dots> \<le> a"
    using that by (simp add: minus_mod_eq_div_mult [symmetric])
  finally show "b * c \<le> a" .
next
  assume "b * c \<le> a"
  thus "b \<le> a div c"
    using zdiv_mono1 [of "b * c" a c] that by simp
qed

lemma div_less_iff_mult: "a div c < b \<longleftrightarrow> a < b * c" if "0 < c" for a b c :: int
  using le_div_iff_mult [OF that, of b a] by linarith

section \<open>Instants and durations\<close>

text \<open>
  A \<open>time.Time\<close> is its nanosecond on one clock, a \<open>time.Duration\<close> an \<open>int64\<close> of
  nanoseconds. \<open>Time.Sub\<close> saturates at the ends of the duration range.
\<close>

type_synonym instant = int
type_synonym duration = int

definition second :: duration where
  "second = 1000000000"

definition time_sub :: "instant \<Rightarrow> instant \<Rightarrow> duration" where
  "time_sub t u = max (- 9223372036854775808) (min 9223372036854775807 (t - u))"

lemma in64_time_sub [simp]: "in64 (time_sub t u)"
  by (simp add: time_sub_def in64_def)

lemma time_sub_exact [go_arith]: "in64 (t - u) \<Longrightarrow> time_sub t u = t - u"
  by (simp add: time_sub_def in64_def)

lemma time_sub_sign [simp]:
  "0 \<le> time_sub t u \<longleftrightarrow> u \<le> t" "0 < time_sub t u \<longleftrightarrow> u < t"
  "time_sub t u \<le> 0 \<longleftrightarrow> t \<le> u" "time_sub t u < 0 \<longleftrightarrow> t < u"
  by (auto simp: time_sub_def)

section \<open>Iteration orders of Go maps\<close>

text \<open>
  Ranging over a Go map visits every key once in an unspecified order. The
  definitions that range over a map take that order as an argument, and the
  theorems hold for every order with \<open>order_of\<close>.
\<close>

definition order_of :: "('k \<Rightarrow> 'v option) \<Rightarrow> 'k list \<Rightarrow> bool" where
  "order_of m ks \<longleftrightarrow> distinct ks \<and> set ks = dom m"

lemma order_of_mset_unique: "order_of m ks \<Longrightarrow> order_of m ks' \<Longrightarrow> mset ks = mset ks'"
  unfolding order_of_def by (metis set_eq_iff_mset_eq_distinct)

lemma order_of_mem: "order_of m ks \<Longrightarrow> k \<in> set ks \<longleftrightarrow> m k \<noteq> None"
  by (auto simp: order_of_def)

section \<open>Strings\<close>

text \<open>
  A Go string is its sequence of bytes, written as an Isabelle \<^typ>\<open>string\<close>.
  Case mapping and trimming act on ASCII.
\<close>

definition to_lower_char :: "char \<Rightarrow> char" where
  "to_lower_char c = (let n = of_char c :: nat in
     if 65 \<le> n \<and> n \<le> 90 then char_of (n + 32) else c)"

definition to_lower :: "string \<Rightarrow> string" where
  "to_lower s = map to_lower_char s"

definition is_space :: "char \<Rightarrow> bool" where
  "is_space c \<longleftrightarrow> (let n = of_char c :: nat in n = 32 \<or> (9 \<le> n \<and> n \<le> 13))"

definition trim_space :: "string \<Rightarrow> string" where
  "trim_space s = rev (dropWhile is_space (rev (dropWhile is_space s)))"

fun join :: "string \<Rightarrow> string list \<Rightarrow> string" where
  "join sep [] = []"
| "join sep [x] = x"
| "join sep (x # y # ys) = x @ sep @ join sep (y # ys)"

fun split_on :: "char \<Rightarrow> string \<Rightarrow> string list" where
  "split_on c [] = [[]]"
| "split_on c (x # xs) =
     (if x = c then [] # split_on c xs
      else (case split_on c xs of [] \<Rightarrow> [[x]] | w # ws \<Rightarrow> (x # w) # ws))"

fun cut_last :: "char \<Rightarrow> string \<Rightarrow> (string \<times> string) option" where
  "cut_last c [] = None"
| "cut_last c (x # xs) =
     (case cut_last c xs of
        Some (a, b) \<Rightarrow> Some (x # a, b)
      | None \<Rightarrow> if x = c then Some ([], xs) else None)"

lemma split_on_ne [simp]: "split_on c s \<noteq> []"
  by (induction s) (auto split: list.splits)

lemma cut_last_None [simp]: "cut_last c s = None \<longleftrightarrow> c \<notin> set s"
  by (induction s) (auto split: option.splits)

lemma cut_last_Some: "cut_last c s = Some (a, b) \<Longrightarrow> s = a @ c # b \<and> c \<notin> set b"
  by (induction s arbitrary: a) (auto split: option.splits if_splits)

lemma cut_last_append: "c \<notin> set b \<Longrightarrow> cut_last c (a @ c # b) = Some (a, b)"
proof (induction a)
  case Nil
  hence "cut_last c b = None"
    by simp
  thus ?case
    by (simp del: cut_last_None)
qed simp

section \<open>Decimal numbers\<close>

text \<open>
  \<open>strconv.FormatInt(i, 10)\<close> (also \<open>%d\<close> and \<open>strconv.Itoa\<close>) and
  \<open>strconv.ParseInt(s, 10, 64)\<close> (also \<open>strconv.Atoi\<close>), \<^const>\<open>None\<close> for an error.
\<close>

definition digit :: "nat \<Rightarrow> char" where
  "digit d = char_of (48 + d)"

definition digit_val :: "char \<Rightarrow> nat option" where
  "digit_val c = (let n = of_char c :: nat in
     if 48 \<le> n \<and> n \<le> 57 then Some (n - 48) else None)"

fun fmt_nat :: "nat \<Rightarrow> string" where
  "fmt_nat n = (if n < 10 then [digit n] else fmt_nat (n div 10) @ [digit (n mod 10)])"

declare fmt_nat.simps [simp del]

definition fmt_int :: "int \<Rightarrow> string" where
  "fmt_int i = (if i < 0 then CHR ''-'' # fmt_nat (nat (- i)) else fmt_nat (nat i))"

fun parse_digits :: "nat \<Rightarrow> string \<Rightarrow> nat option" where
  "parse_digits acc [] = Some acc"
| "parse_digits acc (c # cs) =
     (case digit_val c of None \<Rightarrow> None | Some d \<Rightarrow> parse_digits (10 * acc + d) cs)"

definition parse_nat :: "string \<Rightarrow> nat option" where
  "parse_nat s = (if s = [] then None else parse_digits 0 s)"

definition parse_int :: "string \<Rightarrow> int option" where
  "parse_int s =
     (let (neg, ds) = (case s of
          c # cs \<Rightarrow> if c = CHR ''-'' then (True, cs) else if c = CHR ''+'' then (False, cs) else (False, s)
        | [] \<Rightarrow> (False, s))
      in case parse_nat ds of
           None \<Rightarrow> None
         | Some n \<Rightarrow> let i = (if neg then - int n else int n) in if in64 i then Some i else None)"

lemma digit_val_digit [simp]: "d < 10 \<Longrightarrow> digit_val (digit d) = Some d"
  by (simp add: digit_val_def digit_def)

lemma parse_digits_append:
  "parse_digits acc (xs @ ys) =
     (case parse_digits acc xs of None \<Rightarrow> None | Some a \<Rightarrow> parse_digits a ys)"
  by (induction xs arbitrary: acc) (auto split: option.splits)

lemma fmt_nat_ne [simp]: "fmt_nat n \<noteq> []"
  by (subst fmt_nat.simps) simp

lemma parse_digits_fmt_nat: "parse_digits 0 (fmt_nat n) = Some n"
proof (induction n rule: fmt_nat.induct)
  case (1 n)
  show ?case
    by (subst fmt_nat.simps) (use 1 in \<open>auto simp: parse_digits_append\<close>)
qed

lemma parse_nat_fmt_nat [simp]: "parse_nat (fmt_nat n) = Some n"
  by (simp add: parse_nat_def parse_digits_fmt_nat)

lemma fmt_nat_inj [simp]: "fmt_nat m = fmt_nat n \<longleftrightarrow> m = n"
  by (metis option.inject parse_nat_fmt_nat)

lemma digit_val_fmt_nat: "c \<in> set (fmt_nat n) \<Longrightarrow> digit_val c \<noteq> None"
proof (induction n rule: fmt_nat.induct)
  case (1 n)
  show ?case
  proof (cases "n < 10")
    case True
    thus ?thesis
      using 1 fmt_nat.simps [of n] by simp
  next
    case False
    thus ?thesis
      using 1 fmt_nat.simps [of n] by auto
  qed
qed

lemma not_digit [simp]: "digit_val (CHR ''-'') = None" "digit_val (CHR ''+'') = None"
  by (simp_all add: digit_val_def)

lemma fmt_nat_no_sign [simp]: "CHR ''-'' \<notin> set (fmt_nat n)" "CHR ''+'' \<notin> set (fmt_nat n)"
  using digit_val_fmt_nat not_digit by blast+

lemma parse_int_fmt_int [simp]: "in64 i \<Longrightarrow> parse_int (fmt_int i) = Some i"
proof (cases "fmt_nat (nat i)")
  case (Cons c cs)
  hence "c \<noteq> CHR ''-''" "c \<noteq> CHR ''+''"
    using fmt_nat_no_sign [of "nat i"] by auto
  thus "in64 i \<Longrightarrow> ?thesis"
    using Cons parse_nat_fmt_nat [of "nat i"] by (auto simp: parse_int_def fmt_int_def)
qed simp

section \<open>Printed durations\<close>

text \<open>
  \<open>time.Duration.String\<close>: the fraction is printed with its trailing zeros removed,
  below one second in the largest unit with a non-zero whole part, else as hours,
  minutes and seconds without leading zero units.
\<close>

fun pad_nat :: "nat \<Rightarrow> nat \<Rightarrow> string" where
  "pad_nat 0 n = []"
| "pad_nat (Suc k) n = pad_nat k (n div 10) @ [digit (n mod 10)]"

definition frac_string :: "nat \<Rightarrow> nat \<Rightarrow> string" where
  "frac_string v prec =
     (let ds = rev (dropWhile (\<lambda>c. c = digit 0) (rev (pad_nat prec (v mod 10 ^ prec))))
      in if ds = [] then [] else CHR ''.'' # ds)"

definition duration_String :: "duration \<Rightarrow> string" where
  "duration_String d =
     (let u = nat \<bar>d\<bar>;
          body = (if u = 0 then ''0s''
            else if u < 1000 then fmt_nat u @ ''ns''
            else if u < 1000000 then fmt_nat (u div 1000) @ frac_string u 3 @ [CHR 0xC2, CHR 0xB5, CHR ''s'']
            else if u < 1000000000 then fmt_nat (u div 1000000) @ frac_string u 6 @ ''ms''
            else let v = u div 1000000000;
                     sec = fmt_nat (v mod 60) @ frac_string u 9 @ ''s''
                 in if v < 60 then sec
                    else if v < 3600 then fmt_nat (v div 60) @ ''m'' @ sec
                    else fmt_nat (v div 3600) @ ''h'' @ fmt_nat (v div 60 mod 60) @ ''m'' @ sec)
      in if d < 0 then CHR ''-'' # body else body)"

section \<open>Binary search\<close>

text \<open>
  \<open>sort.Search\<close>: the loop over \<open>i\<close> and \<open>j\<close> with \<open>h\<close> their midpoint. For a predicate
  that is false up to some index and true from it on, it returns that index.
\<close>

function search_loop :: "(nat \<Rightarrow> bool) \<Rightarrow> nat \<Rightarrow> nat \<Rightarrow> nat" where
  "search_loop f i j =
     (if i < j then (let h = (i + j) div 2 in
        if \<not> f h then search_loop f (h + 1) j else search_loop f i h) else i)"
  by pat_completeness auto
termination
  by (relation "measure (\<lambda>(f, i, j). j - i)") auto

declare search_loop.simps [simp del]

definition sort_Search :: "nat \<Rightarrow> (nat \<Rightarrow> bool) \<Rightarrow> nat" where
  "sort_Search n f = search_loop f 0 n"

definition mono_below :: "nat \<Rightarrow> (nat \<Rightarrow> bool) \<Rightarrow> bool" where
  "mono_below n f \<longleftrightarrow> (\<forall>a b. a \<le> b \<longrightarrow> b < n \<longrightarrow> f a \<longrightarrow> f b)"

lemma mono_belowD: "mono_below n f \<Longrightarrow> a \<le> b \<Longrightarrow> b < n \<Longrightarrow> f a \<Longrightarrow> f b"
  by (auto simp: mono_below_def)

lemma search_loop_least:
  assumes "mono_below n f" "i \<le> j" "\<forall>k<i. \<not> f k" "j < n \<longrightarrow> f j" "j \<le> n"
  shows "search_loop f i j \<le> n \<and> (\<forall>k. k < search_loop f i j \<longrightarrow> \<not> f k) \<and>
    (search_loop f i j < n \<longrightarrow> f (search_loop f i j))"
  using assms
proof (induction f i j rule: search_loop.induct)
  case (1 f i j)
  show ?case
  proof (cases "i < j")
    case False
    thus ?thesis
      using "1.prems" search_loop.simps [of f i j] by simp
  next
    case True
    let ?h = "(i + j) div 2"
    have h: "i \<le> ?h" "?h < j"
      using True by auto
    show ?thesis
    proof (cases "f ?h")
      case True
      have "search_loop f i j = search_loop f i ?h"
        using True \<open>i < j\<close> by (subst search_loop.simps) simp
      thus ?thesis
        using "1.IH"(2) [OF \<open>i < j\<close> refl] True "1.prems" h by simp
    next
      case False
      have "\<not> f k" if "k < ?h + 1" for k
        using mono_belowD [OF "1.prems"(1), of k ?h] that False h "1.prems"(5) by linarith
      moreover have "search_loop f i j = search_loop f (?h + 1) j"
        using False \<open>i < j\<close> by (subst search_loop.simps) simp
      moreover have "?h + 1 \<le> j"
        using h by simp
      ultimately show ?thesis
        using "1.IH"(1) [OF \<open>i < j\<close> refl False "1.prems"(1) _ _ "1.prems"(4,5)] by metis
    qed
  qed
qed

lemma sort_Search_least:
  assumes "mono_below n f"
  shows "sort_Search n f \<le> n" "k < sort_Search n f \<Longrightarrow> \<not> f k"
    "sort_Search n f < n \<Longrightarrow> f (sort_Search n f)"
  using search_loop_least [OF assms, where i = 0 and j = n] by (auto simp: sort_Search_def)

text \<open>The verbs \<open>%q\<close> on a string of ASCII characters and \<open>%v\<close> on a slice of strings.\<close>

definition hex_digit :: "nat \<Rightarrow> char" where
  "hex_digit d = (if d < 10 then char_of (48 + d) else char_of (87 + d))"

definition quote_char :: "char \<Rightarrow> string" where
  "quote_char c =
     (let n = of_char c :: nat
      in if n = 0x22 \<or> n = 0x5C then [CHR 0x5C, c]
         else if n = 7 then [CHR 0x5C, CHR ''a''] else if n = 8 then [CHR 0x5C, CHR ''b'']
         else if n = 12 then [CHR 0x5C, CHR ''f''] else if n = 10 then [CHR 0x5C, CHR ''n'']
         else if n = 13 then [CHR 0x5C, CHR ''r''] else if n = 9 then [CHR 0x5C, CHR ''t'']
         else if n = 11 then [CHR 0x5C, CHR ''v'']
         else if n < 32 \<or> n = 127 then [CHR 0x5C, CHR ''x'', hex_digit (n div 16), hex_digit (n mod 16)]
         else [c])"

definition fmt_q :: "string \<Rightarrow> string" where
  "fmt_q s = CHR 0x22 # concat (map quote_char s) @ [CHR 0x22]"

definition fmt_strs :: "string list \<Rightarrow> string" where
  "fmt_strs xs = ''['' @ join '' '' xs @ '']''"

section \<open>Sums over a list of components\<close>

lemma sum_list_map_update:
  fixes f :: "'a \<Rightarrow> 'b :: comm_monoid_add"
  shows "i < length xs \<Longrightarrow> sum_list (map f (xs[i := y])) + f (xs ! i) = sum_list (map f xs) + f y"
proof (induction xs arbitrary: i)
  case (Cons x xs)
  thus ?case
    by (cases i) (simp_all add: ac_simps)
qed simp

section \<open>Bytes and floats\<close>

text \<open>Conversions between strings and byte slices, and of a float to an integer type (truncation).\<close>

definition bytes_of :: "string \<Rightarrow> u8 list" where
  "bytes_of s = map of_char s"

definition string_of :: "u8 list \<Rightarrow> string" where
  "string_of bs = map (\<lambda>b. char_of (unat b)) bs"

lemma unat_of_char: "unat (of_char c :: u8) = of_char c"
proof -
  have "unat (of_nat (of_char c) :: u8) = of_char c"
    using nat_of_char_less_256 [of c] by (simp only: unat_of_nat) simp
  thus ?thesis
    by (simp only: of_nat_of_char)
qed

lemma string_of_bytes_of [simp]: "string_of (bytes_of s) = s"
  by (simp add: string_of_def bytes_of_def o_def unat_of_char)

definition rat_trunc :: "rat \<Rightarrow> int" where
  "rat_trunc x = (if x < 0 then \<lceil>x\<rceil> else \<lfloor>x\<rfloor>)"

section \<open>Generic interfaces\<close>

text \<open>
  An invariant of a step relation holds in every state the relation reaches;
  a codec returns every valid value it encoded.
\<close>

locale invariant_system =
  fixes step :: "'s \<Rightarrow> 's \<Rightarrow> bool" and inv :: "'s \<Rightarrow> bool"
  assumes inv_step: "inv s \<Longrightarrow> step s t \<Longrightarrow> inv t"
begin

lemma inv_reachable: "step\<^sup>*\<^sup>* s t \<Longrightarrow> inv s \<Longrightarrow> inv t"
  by (induction rule: rtranclp_induct) (auto intro: inv_step)

end

locale codec =
  fixes enc :: "'a \<Rightarrow> 'b" and dec :: "'b \<Rightarrow> 'a option" and valid :: "'a \<Rightarrow> bool"
  assumes dec_enc: "valid x \<Longrightarrow> dec (enc x) = Some x"
begin

lemma enc_inj_on: "inj_on enc {x. valid x}"
  by (rule inj_onI) (metis dec_enc mem_Collect_eq option.inject)

lemma enc_eq_iff: "valid x \<Longrightarrow> valid y \<Longrightarrow> enc x = enc y \<longleftrightarrow> x = y"
  by (metis dec_enc option.inject)

lemma dec_map_enc: "\<forall>x\<in>set xs. valid x \<Longrightarrow> map dec (map enc xs) = map Some xs"
  by (auto simp: dec_enc)

end

interpretation decimal: codec fmt_int parse_int in64
  by unfold_locales simp

end
