(* ===== verification/Domain.thy ===== *)
theory Domain
  imports Prelude
begin

text \<open>
  The data of \<open>core/domain\<close> and of the driver port (\<open>core/driver\<close>). Go's string
  enumerations stay strings, because every value of the string type is possible
  where the code compares them; structs are records with the source's field
  names behind a prefix. A \<open>float64\<close> is the rational it denotes. The dynamic
  values of \<open>map[string]any\<close> and of \<open>OpResult.Observed\<close> are \<open>any\<close>, one constructor
  per dynamic type the sources distinguish (\<open>ABytesNil\<close> is a nil \<open>[]byte\<close>).
\<close>

section \<open>Dynamic values\<close>

datatype any =
    ANil
  | ABool bool
  | AInt int
  | AInt64 int
  | AFloat rat
  | AStr string
  | ABytes "u8 list"
  | ABytesNil
  | AInt64s "int list"
  | AUint64s "u64 list"
  | AInts "int list"
  | AByteSlices "u8 list list"
  | AList "any list"
  | AMap "(string \<times> any) list"
  | ADur duration
  | AStrs "string list"

type_synonym params = "string \<Rightarrow> any option"
type_synonym err = string

section \<open>Workload\<close>

type_synonym OpType = string
type_synonym KeyDistribution = string
type_synonym RunMode = string
type_synonym VerifyModel = string

definition DistUniform :: KeyDistribution where "DistUniform = ''uniform''"

definition DistZipfian :: KeyDistribution where "DistZipfian = ''zipfian''"

definition DistLatest :: KeyDistribution where "DistLatest = ''latest''"

definition DistSequential :: KeyDistribution where "DistSequential = ''sequential''"

lemmas dist_defs [simp] = DistUniform_def DistZipfian_def DistLatest_def DistSequential_def

record OpSpec =
  os_Type :: OpType
  os_Weight :: int

record Workload =
  w_Name :: string
  w_Mode :: RunMode
  w_Operations :: "OpSpec list"
  w_KeySpace :: int
  w_KeyDist :: KeyDistribution
  w_ValueSize :: int
  w_VerifyModel :: VerifyModel
  w_Params :: params

record Operation =
  op_Type :: OpType
  op_Key :: int
  op_Value :: "u8 list"
  op_Seq :: int
  op_Args :: params

record OpResult =
  r_Type :: OpType
  r_Rows :: int
  r_Observed :: any
  r_Err :: "err option"

section \<open>Verification data\<close>

definition VerifyNone :: VerifyModel where "VerifyNone = ''''"

definition VerifyReconciliation :: VerifyModel where "VerifyReconciliation = ''reconciliation''"

definition VerifyRegister :: VerifyModel where "VerifyRegister = ''register''"

definition VerifyListAppend :: VerifyModel where "VerifyListAppend = ''list-append''"

definition VerifyKafkaLog :: VerifyModel where "VerifyKafkaLog = ''kafka-log''"

lemmas verify_model_defs [simp] =
  VerifyNone_def VerifyReconciliation_def VerifyRegister_def VerifyListAppend_def VerifyKafkaLog_def

datatype Verdict = VerdictPass | VerdictFail | VerdictUnknown

record Anomaly =
  an_Kind :: string
  an_Detail :: string
  an_Witness :: "string list"

record VerifyReport =
  vr_Model :: VerifyModel
  vr_Verdict :: Verdict
  vr_Anomalies :: "Anomaly list"
  vr_Checked :: int
  vr_Lost :: int
  vr_Duplicated :: int
  vr_OrderingViol :: int
  vr_ConvergedIn :: duration
  vr_MaxStaleness :: duration
  vr_Extra :: params

definition new_report :: "VerifyModel \<Rightarrow> Verdict \<Rightarrow> VerifyReport" where
  "new_report m v = \<lparr>vr_Model = m, vr_Verdict = v, vr_Anomalies = [], vr_Checked = 0, vr_Lost = 0,
     vr_Duplicated = 0, vr_OrderingViol = 0, vr_ConvergedIn = 0, vr_MaxStaleness = 0, vr_Extra = Map.empty\<rparr>"

record Fault =
  f_Type :: string
  f_Target :: string
  f_Params :: params

record FaultSpec =
  fs_Fault :: Fault
  fs_At :: duration
  fs_Duration :: duration
  fs_Repeat :: duration

section \<open>Run manifest\<close>

definition ModePerformance :: RunMode where "ModePerformance = ''performance''"

definition ModeCorrectness :: RunMode where "ModeCorrectness = ''correctness''"

lemmas mode_defs [simp] = ModePerformance_def ModeCorrectness_def

type_synonym TestType = string

definition TestBenchmark :: TestType where "TestBenchmark = ''benchmark''"

definition TestLoad :: TestType where "TestLoad = ''load''"

definition TestStress :: TestType where "TestStress = ''stress''"

definition TestACID :: TestType where "TestACID = ''acid''"

definition TestCombined :: TestType where "TestCombined = ''combined''"

lemmas test_type_defs [simp] = TestBenchmark_def TestLoad_def TestStress_def TestACID_def TestCombined_def

type_synonym RateMode = string

definition RateFixed :: RateMode where "RateFixed = ''fixed''"

definition RateMax :: RateMode where "RateMax = ''max''"

lemmas rate_mode_defs [simp] = RateFixed_def RateMax_def

record RateSpec =
  rs_Mode :: RateMode
  rs_OpsPerSec :: int

section \<open>Cluster topology\<close>

type_synonym NodeRole = string

definition RolePrimary :: NodeRole where "RolePrimary = ''primary''"

definition RoleReplica :: NodeRole where "RoleReplica = ''replica''"

definition RoleSeed :: NodeRole where "RoleSeed = ''seed''"

definition RoleBroker :: NodeRole where "RoleBroker = ''broker''"

definition RoleGeneric :: NodeRole where "RoleGeneric = ''node''"

lemmas role_defs [simp] = RolePrimary_def RoleReplica_def RoleSeed_def RoleBroker_def RoleGeneric_def

type_synonym ControlMethod = string

definition ControlK8s :: ControlMethod where "ControlK8s = ''k8s''"

definition ControlDocker :: ControlMethod where "ControlDocker = ''docker''"

definition ControlSSH :: ControlMethod where "ControlSSH = ''ssh''"

definition ControlNone :: ControlMethod where "ControlNone = ''none''"

lemmas control_defs [simp] = ControlK8s_def ControlDocker_def ControlSSH_def ControlNone_def

record ControlEndpoint =
  ce_Method :: ControlMethod
  ce_Ref :: string
  ce_Namespace :: string
  ce_Extra :: "string \<Rightarrow> string option"

record Node =
  n_ID :: string
  n_Role :: NodeRole
  n_Client :: string
  n_Control :: ControlEndpoint

record ClusterSpec =
  cs_Nodes :: "Node list"
  cs_ReplicationFactor :: int
  cs_Consistency :: "string list"

record ResourceSpec =
  res_CPU :: string
  res_Memory :: string

record Topology =
  t_Name :: string
  t_Backend :: string
  t_Target :: string
  t_Image :: string
  t_Version :: string
  t_Nodes :: int
  t_ReplicationFactor :: int
  t_Resources :: ResourceSpec
  t_Bundle :: string
  t_Extra :: params

record ClientInfo =
  ci_Hostname :: string
  ci_OS :: string
  ci_Arch :: string
  ci_CPUs :: int

record Manifest =
  m_RunID :: string
  m_Target :: string
  m_TargetVersion :: string
  m_Workload :: string
  m_TestType :: TestType
  m_Mode :: RunMode
  m_Rate :: RateSpec
  m_Duration :: duration
  m_Warmup :: duration
  m_Connections :: int
  m_Seed :: int
  m_Trials :: int
  m_Consistency :: string
  m_Cluster :: ClusterSpec
  m_Faults :: "FaultSpec list"
  m_EngineVersion :: string
  m_GitSHA :: string
  m_Client :: ClientInfo
  m_Labels :: "string \<Rightarrow> string option"
  m_CreatedAt :: instant

section \<open>Metrics data\<close>

record Percentiles =
  pc_Count :: int
  pc_Mean :: rat
  pc_P50 :: rat
  pc_P90 :: rat
  pc_P95 :: rat
  pc_P99 :: rat
  pc_P999 :: rat
  pc_P9999 :: rat
  pc_Max :: rat

record LatencySnapshot =
  ls_T :: instant
  ls_OpType :: OpType
  ls_Throughput :: rat
  ls_InFlight :: int
  ls_Errors :: int
  ls_Pct :: Percentiles

record RunResult =
  rr_RunID :: string
  rr_Phase :: string
  rr_Total :: int
  rr_Errors :: int
  rr_Duration :: duration
  rr_Throughput :: rat
  rr_Overall :: Percentiles
  rr_ByOp :: "OpType \<Rightarrow> Percentiles option"
  rr_ClientBound :: bool

section \<open>Driver configuration\<close>

record Config =
  cfg_Endpoints :: "string list"
  cfg_Consistency :: string
  cfg_Cluster :: ClusterSpec
  cfg_Params :: params

end
