(* ===== verification/Params.thy ===== *)
theory Params
  imports Domain
begin

text \<open>
  Reading a target's parameters. Every driver package under \<open>targets/\<close> has the same
  helpers for the free-form \<open>params\<close> of a configuration, for endpoints without a
  port and for the node handles of a cluster; they are defined here once.
\<close>

section \<open>Definitions\<close>

definition paramString :: "params \<Rightarrow> string \<Rightarrow> string" where
  "paramString ps key = (case ps key of Some (AStr s) \<Rightarrow> s | _ \<Rightarrow> '''')"

definition paramInt :: "params \<Rightarrow> string \<Rightarrow> int \<Rightarrow> int" where
  "paramInt ps key d = (case ps key of
      Some (AInt n) \<Rightarrow> n | Some (AInt64 n) \<Rightarrow> n | Some (AFloat x) \<Rightarrow> i64 (rat_trunc x) | _ \<Rightarrow> d)"

fun firstNonEmpty :: "string list \<Rightarrow> string" where
  "firstNonEmpty [] = ''''"
| "firstNonEmpty (v # vs) = (if v \<noteq> '''' then v else firstNonEmpty vs)"

definition asInt :: "any \<Rightarrow> int" where
  "asInt v = (case v of AInt n \<Rightarrow> n | AInt64 n \<Rightarrow> n | AFloat x \<Rightarrow> i64 (rat_trunc x) | _ \<Rightarrow> 0)"

definition defaultScanLimit :: int where
  "defaultScanLimit = 100"

fun scan_limit_loop :: "params \<Rightarrow> string list \<Rightarrow> int" where
  "scan_limit_loop ps [] = defaultScanLimit"
| "scan_limit_loop ps (key # ks) = (case ps key of
      Some v \<Rightarrow> (if asInt v > 0 then asInt v else scan_limit_loop ps ks)
    | None \<Rightarrow> scan_limit_loop ps ks)"

definition scanLimitFromWorkload :: "Workload \<Rightarrow> int" where
  "scanLimitFromWorkload w = scan_limit_loop (w_Params w) [''scan_limit'', ''limit'']"

definition splitHostPort :: "string \<Rightarrow> string \<Rightarrow> string \<times> string" where
  "splitHostPort defaultPort endpoint =
     (if endpoint = '''' then (''localhost'', defaultPort)
      else case cut_last (CHR '':'') endpoint of
        Some (host, port) \<Rightarrow> if last endpoint \<noteq> CHR '']'' then (host, port) else (endpoint, defaultPort)
      | None \<Rightarrow> (endpoint, defaultPort))"

definition firstEndpoint :: "string \<Rightarrow> string list \<Rightarrow> string" where
  "firstEndpoint defaultPort endpoints = (case endpoints of [] \<Rightarrow> ''localhost:'' @ defaultPort | e # _ \<Rightarrow> e)"

definition cluster_Nodes :: "Config \<Rightarrow> Node list" where
  "cluster_Nodes cfg = filter (\<lambda>n. n_Client n \<noteq> '''') (cs_Nodes (cfg_Cluster cfg))"

text \<open>A configuration with only a consistency level (\<open>driver.Config{Consistency: ...}\<close>).\<close>

definition level_Config :: "string \<Rightarrow> Config" where
  "level_Config consistency = \<lparr>cfg_Endpoints = [], cfg_Consistency = consistency,
     cfg_Cluster = \<lparr>cs_Nodes = [], cs_ReplicationFactor = 0, cs_Consistency = []\<rparr>, cfg_Params = Map.empty\<rparr>"

section \<open>Lemmas\<close>

lemma scan_limit_pos: "0 < scanLimitFromWorkload w"
proof -
  have "0 < scan_limit_loop ps ks" for ps ks
    by (induction ps ks rule: scan_limit_loop.induct) (auto simp: defaultScanLimit_def split: option.splits)
  thus ?thesis
    unfolding scanLimitFromWorkload_def .
qed

text \<open>The address of an endpoint is a fixed point of the split: what is dialled names its port.\<close>

lemma splitHostPort_address:
  assumes "splitHostPort d e = (h, p)" "CHR '':'' \<notin> set d" "d \<noteq> ''''" "last d \<noteq> CHR '']''"
  shows "splitHostPort d (h @ '':'' @ p) = (h, p)"
proof -
  have "CHR '':'' \<notin> set p \<and> (p = '''' \<or> last p \<noteq> CHR '']'')"
    using assms by (auto simp: splitHostPort_def dest!: cut_last_Some split: if_splits option.splits)
  thus ?thesis
    by (auto simp: splitHostPort_def cut_last_append)
qed

lemma splitHostPort_host:
  assumes "CHR '':'' \<notin> set p" "p \<noteq> ''''" "last p \<noteq> CHR '']''"
  shows "splitHostPort d (h @ '':'' @ p) = (h, p)"
  using assms by (simp add: splitHostPort_def cut_last_append)

end
