(* ===== verification/Kafka.thy ===== *)
theory Kafka
  imports Params
begin

text \<open>
  The Kafka target (\<open>targets/kafka/kafkadriver\<close>): parameter and acks resolution
  (\<open>params.go\<close>, \<open>config.go\<close>), the client options and topic creation (\<open>driver.go\<close>), the
  record codec (\<open>record.go\<close>), produce and consume (\<open>conn.go\<close>), the cluster view
  (\<open>cluster.go\<close>) and the kafka-log verification, which drains the topic and
  counts lost, duplicated and reordered messages (\<open>verify.go\<close>). The broker
  client is an argument.
\<close>

unbundle bit_operations_syntax

section \<open>Definitions\<close>

subsection \<open>Parameters and configuration\<close>

definition kafka_paramBool :: "params \<Rightarrow> string \<Rightarrow> bool \<Rightarrow> bool" where
  "kafka_paramBool ps key d = (case ps key of Some (ABool b) \<Rightarrow> b | _ \<Rightarrow> d)"

datatype ackMode = ackAll | ackLeader | ackNone

definition consistencyLevels :: "string list" where
  "consistencyLevels = [''acks=0'', ''acks=1'', ''acks=all'']"

definition parseAcks :: "string \<Rightarrow> err + ackMode" where
  "parseAcks consistency =
     (let c = to_lower (trim_space consistency)
      in if c \<in> {'''', ''acks=all'', ''all'', ''-1''} then Inr ackAll
         else if c \<in> {''acks=1'', ''1'', ''leader''} then Inr ackLeader
         else if c \<in> {''acks=0'', ''0'', ''none''} then Inr ackNone
         else Inl (''kafkadriver: unsupported consistency '' @ fmt_q consistency @ '' (want one of '' @ fmt_strs consistencyLevels @ '')''))"

record topicConfig =
  tc_Name :: string
  tc_Partitions :: int
  tc_Replication :: int

record resolvedConfig =
  rc_brokers :: "string list"
  rc_topic :: topicConfig
  rc_acks :: ackMode
  rc_idempotent :: bool
  rc_txnID :: string
  rc_group :: string
  rc_batchSize :: int

definition topicConfigFrom :: "Config \<Rightarrow> topicConfig" where
  "topicConfigFrom cfg =
     (let repl = (if cs_ReplicationFactor (cfg_Cluster cfg) > 0 then cs_ReplicationFactor (cfg_Cluster cfg) else 3)
      in \<lparr>tc_Name = firstNonEmpty [paramString (cfg_Params cfg) ''topic'', ''proofload''],
          tc_Partitions = signed_take_bit 31 (paramInt (cfg_Params cfg) ''partitions'' 3),
          tc_Replication = signed_take_bit 15 (paramInt (cfg_Params cfg) ''replication_factor'' repl)\<rparr>)"

definition batchSizeFrom :: "Config \<Rightarrow> int" where
  "batchSizeFrom cfg = (let n = paramInt (cfg_Params cfg) ''batch_size'' 1 in if n < 1 then 1 else n)"

definition brokersFrom :: "Config \<Rightarrow> string list" where
  "brokersFrom cfg =
     (if length (cfg_Endpoints cfg) > 0 then cfg_Endpoints cfg
      else let out = filter (\<lambda>c. c \<noteq> '''') (map n_Client (cs_Nodes (cfg_Cluster cfg)))
           in if out = [] then [''localhost:9092''] else out)"

definition kafka_resolve :: "Config \<Rightarrow> err + resolvedConfig" where
  "kafka_resolve cfg = (case parseAcks (cfg_Consistency cfg) of
      Inl e \<Rightarrow> Inl e
    | Inr acks \<Rightarrow>
        (let ps = cfg_Params cfg;
             rc = \<lparr>rc_brokers = brokersFrom cfg, rc_topic = topicConfigFrom cfg, rc_acks = acks, rc_idempotent = False,
                   rc_txnID = firstNonEmpty [paramString ps ''transactional_id'', paramString ps ''txn_id''],
                   rc_group = firstNonEmpty [paramString ps ''group'', paramString ps ''consumer_group''],
                   rc_batchSize = batchSizeFrom cfg\<rparr>
         in Inr (if rc_txnID rc \<noteq> '''' then rc\<lparr>rc_acks := ackAll, rc_idempotent := True\<rparr>
                 else rc\<lparr>rc_idempotent := (rc_acks rc = ackAll \<and> kafka_paramBool ps ''idempotent'' True)\<rparr>)))"

text \<open>The options of the broker client that the driver uses.\<close>

datatype kgo_opt =
    SeedBrokers "string list"
  | RequiredAcks ackMode
  | DisableIdempotentWrite
  | TransactionalID string
  | ConsumerGroup string
  | ConsumeTopics string

definition clientOpts :: "resolvedConfig \<Rightarrow> kgo_opt list" where
  "clientOpts rc =
     [SeedBrokers (rc_brokers rc)] @
     (case rc_acks rc of
        ackAll \<Rightarrow> RequiredAcks ackAll # (if \<not> rc_idempotent rc then [DisableIdempotentWrite] else [])
      | ackLeader \<Rightarrow> [RequiredAcks ackLeader, DisableIdempotentWrite]
      | ackNone \<Rightarrow> [RequiredAcks ackNone, DisableIdempotentWrite]) @
     (if rc_txnID rc \<noteq> '''' then [TransactionalID (rc_txnID rc)] else []) @
     (if rc_group rc \<noteq> '''' then [ConsumerGroup (rc_group rc), ConsumeTopics (tc_Name (rc_topic rc))] else [])"

text \<open>The reply to the topic creation request: an error, a reply of another type (its type's name),
  or the topics with their error codes. \<open>errFor\<close> is the client library's text of a code and \<open>exists\<close>
  the code of a topic that already exists.\<close>

datatype topics_reply = RequestError err | OtherReply string | TopicsReply "(string \<times> int) list"

fun topic_errors :: "(int \<Rightarrow> err) \<Rightarrow> int \<Rightarrow> (string \<times> int) list \<Rightarrow> err option" where
  "topic_errors errFor exists [] = None"
| "topic_errors errFor exists ((topic, code) # ts) =
     (if code = 0 then topic_errors errFor exists ts
      else if code = exists then topic_errors errFor exists ts
      else Some (''kafkadriver: create topic '' @ fmt_q topic @ '': '' @ errFor code))"

definition ensureTopic :: "(int \<Rightarrow> err) \<Rightarrow> int \<Rightarrow> (topicConfig \<Rightarrow> topics_reply) \<Rightarrow> topicConfig \<Rightarrow> err option" where
  "ensureTopic errFor exists request tc = (case request tc of
      RequestError e \<Rightarrow> Some (''kafkadriver: create topic '' @ fmt_q (tc_Name tc) @ '': '' @ e)
    | OtherReply t \<Rightarrow> Some (''kafkadriver: unexpected CreateTopics response '' @ t)
    | TopicsReply ts \<Rightarrow> topic_errors errFor exists ts)"

subsection \<open>Records\<close>

definition seqHeaderKey :: string where "seqHeaderKey = ''pl-seq''"

record KRecord =
  kr_Topic :: string
  kr_Key :: "u8 list"
  kr_Value :: "u8 list"
  kr_Headers :: "(string \<times> u8 list) list"
  kr_Partition :: int
  kr_Offset :: int

definition keyBytes :: "int \<Rightarrow> u8 list" where
  "keyBytes key = bytes_of (fmt_int key)"

definition keyFromBytes :: "u8 list \<Rightarrow> int option" where
  "keyFromBytes b = parse_int (string_of b)"

definition PutUint64_BE :: "u64 \<Rightarrow> u8 list" where
  "PutUint64_BE v = [ucast (drop_bit 56 v), ucast (drop_bit 48 v), ucast (drop_bit 40 v), ucast (drop_bit 32 v),
     ucast (drop_bit 24 v), ucast (drop_bit 16 v), ucast (drop_bit 8 v), ucast v]"

definition Uint64_BE :: "u8 list \<Rightarrow> u64" where
  "Uint64_BE b = ucast (b ! 7) OR push_bit 8 (ucast (b ! 6)) OR push_bit 16 (ucast (b ! 5)) OR push_bit 24 (ucast (b ! 4)) OR
     push_bit 32 (ucast (b ! 3)) OR push_bit 40 (ucast (b ! 2)) OR push_bit 48 (ucast (b ! 1)) OR push_bit 56 (ucast (b ! 0))"

definition encodeSeq :: "int \<Rightarrow> u8 list" where
  "encodeSeq s = PutUint64_BE (word_of_int s)"

definition decodeSeq :: "u8 list \<Rightarrow> int option" where
  "decodeSeq b = (if length b \<noteq> 8 then None else Some (sint (Uint64_BE b)))"

fun seqFromHeaders :: "(string \<times> u8 list) list \<Rightarrow> int option" where
  "seqFromHeaders [] = None"
| "seqFromHeaders ((k, v) # hs) = (if k = seqHeaderKey then decodeSeq v else seqFromHeaders hs)"

definition recordFrom :: "string \<Rightarrow> Operation \<Rightarrow> KRecord" where
  "recordFrom topic op =
     \<lparr>kr_Topic = topic, kr_Key = keyBytes (op_Key op), kr_Value = op_Value op,
      kr_Headers = [(seqHeaderKey, encodeSeq (op_Seq op))], kr_Partition = 0, kr_Offset = 0\<rparr>"

definition batch_key :: "Operation \<Rightarrow> int \<Rightarrow> int \<Rightarrow> int" where
  "batch_key op i batch = i64 (i64 (op_Key op * batch) + i)"

definition batchRecordAt :: "string \<Rightarrow> Operation \<Rightarrow> int \<Rightarrow> int \<Rightarrow> KRecord" where
  "batchRecordAt topic op i batch =
     \<lparr>kr_Topic = topic, kr_Key = keyBytes (batch_key op i batch), kr_Value = op_Value op,
      kr_Headers = [(seqHeaderKey, encodeSeq (op_Seq op))], kr_Partition = 0, kr_Offset = 0\<rparr>"

definition isProduce :: "OpType \<Rightarrow> bool" where "isProduce t \<longleftrightarrow> t = ''produce'' \<or> t = ''w''"

definition isConsume :: "OpType \<Rightarrow> bool" where "isConsume t \<longleftrightarrow> t = ''consume'' \<or> t = ''r''"

definition isProduceBatch :: "OpType \<Rightarrow> bool" where "isProduceBatch t \<longleftrightarrow> t = ''produce_batch'' \<or> t = ''wb''"

subsection \<open>Producing and consuming\<close>

record kafkaConn =
  kc_topic :: string
  kc_transactional :: bool
  kc_grouped :: bool
  kc_batchSize :: int

definition kafka_conn :: "resolvedConfig \<Rightarrow> kafkaConn" where
  "kafka_conn rc = \<lparr>kc_topic = tc_Name (rc_topic rc), kc_transactional = (rc_txnID rc \<noteq> ''''),
     kc_grouped = (rc_group rc \<noteq> ''''), kc_batchSize = rc_batchSize rc\<rparr>"

text \<open>The calls on the broker client in a world \<open>'w\<close>: the start and end of a transaction (true to
  commit), a synchronous produce with its first error, the poll of one record, and the addition of a
  topic to consume.\<close>

record 'w kafka_client =
  kl_Begin :: "'w \<Rightarrow> err option \<times> 'w"
  kl_ProduceSync :: "KRecord list \<Rightarrow> 'w \<Rightarrow> err option \<times> 'w"
  kl_End :: "bool \<Rightarrow> 'w \<Rightarrow> err option \<times> 'w"
  kl_PollRecord :: "'w \<Rightarrow> (err + KRecord list) \<times> 'w"
  kl_AddConsumeTopics :: "string \<Rightarrow> 'w \<Rightarrow> 'w"

definition produce_records :: "kafkaConn \<Rightarrow> Operation \<Rightarrow> KRecord list" where
  "produce_records c op =
     (let n = (if kc_batchSize c < 1 then 1 else kc_batchSize c)
      in if n = 1 then [recordFrom (kc_topic c) op]
         else map (\<lambda>i. batchRecordAt (kc_topic c) op (int i) n) [0..<nat n])"

definition produce :: "'w kafka_client \<Rightarrow> kafkaConn \<Rightarrow> Operation \<Rightarrow> 'w \<Rightarrow> OpResult \<times> 'w" where
  "produce cl c op w =
     (let res = \<lparr>r_Type = op_Type op, r_Rows = 0, r_Observed = ANil, r_Err = None\<rparr>;
          recs = produce_records c op;
          (be, w1) = (if kc_transactional c then kl_Begin cl w else (None, w))
      in case be of
           Some e \<Rightarrow> (res\<lparr>r_Err := Some (''kafkadriver: begin txn: '' @ e)\<rparr>, w1)
         | None \<Rightarrow>
             (case kl_ProduceSync cl recs w1 of
                (Some e, w2) \<Rightarrow> (res\<lparr>r_Err := Some e\<rparr>, if kc_transactional c then snd (kl_End cl False w2) else w2)
              | (None, w2) \<Rightarrow>
                  (let (ce, w3) = (if kc_transactional c then kl_End cl True w2 else (None, w2))
                   in case ce of
                        Some e \<Rightarrow> (res\<lparr>r_Err := Some (''kafkadriver: commit txn: '' @ e)\<rparr>, w3)
                      | None \<Rightarrow> (res\<lparr>r_Rows := int (length recs)\<rparr>, w3))))"

definition consume :: "'w kafka_client \<Rightarrow> Operation \<Rightarrow> 'w \<Rightarrow> OpResult \<times> 'w" where
  "consume cl op w =
     (let res = \<lparr>r_Type = op_Type op, r_Rows = 0, r_Observed = ANil, r_Err = None\<rparr>
      in case kl_PollRecord cl w of
           (Inl e, w1) \<Rightarrow> (res\<lparr>r_Err := Some e\<rparr>, w1)
         | (Inr [], w1) \<Rightarrow> (res, w1)
         | (Inr (r # _), w1) \<Rightarrow> (res\<lparr>r_Observed := ABytes (kr_Value r), r_Rows := 1\<rparr>, w1))"

definition kafka_Execute :: "'w kafka_client \<Rightarrow> kafkaConn \<Rightarrow> Operation \<Rightarrow> 'w \<Rightarrow> OpResult \<times> 'w" where
  "kafka_Execute cl c op w =
     (if isProduce (op_Type op) \<or> isProduceBatch (op_Type op) then produce cl c op w
      else if isConsume (op_Type op) then consume cl op w
      else (\<lparr>r_Type = op_Type op, r_Rows = 0, r_Observed = ANil,
             r_Err = Some (''kafkadriver: unsupported op type '' @ fmt_q (op_Type op))\<rparr>, w))"

definition workloadConsumes :: "Workload \<Rightarrow> bool" where
  "workloadConsumes wl \<longleftrightarrow> list_ex (\<lambda>op. isConsume (os_Type op)) (w_Operations wl)"

definition kafka_Prepare :: "'w kafka_client \<Rightarrow> kafkaConn \<Rightarrow> Workload \<Rightarrow> 'w \<Rightarrow> 'w" where
  "kafka_Prepare cl c wl w =
     (if \<not> kc_grouped c \<and> workloadConsumes wl then kl_AddConsumeTopics cl (kc_topic c) w else w)"

text \<open>Opening and closing of broker clients, and the topic creation request of a client.\<close>

record ('c, 'w) kgo_api =
  kg_NewClient :: "kgo_opt list \<Rightarrow> 'w \<Rightarrow> (err + 'c) \<times> 'w"
  kg_Close :: "'c \<Rightarrow> 'w \<Rightarrow> 'w"
  kg_CreateTopics :: "'c \<Rightarrow> topicConfig \<Rightarrow> 'w \<Rightarrow> topics_reply \<times> 'w"

definition kafka_Schema :: "(int \<Rightarrow> err) \<Rightarrow> int \<Rightarrow> ('c, 'w) kgo_api \<Rightarrow> Config \<Rightarrow> 'w \<Rightarrow> err option \<times> 'w" where
  "kafka_Schema errFor exists api cfg w = (case kafka_resolve cfg of
      Inl e \<Rightarrow> (Some e, w)
    | Inr rc \<Rightarrow> (case kg_NewClient api [SeedBrokers (rc_brokers rc)] w of
          (Inl e, w1) \<Rightarrow> (Some (''kafkadriver: admin client: '' @ e), w1)
        | (Inr cl, w1) \<Rightarrow>
            (let (reply, w2) = kg_CreateTopics api cl (rc_topic rc) w1
             in (ensureTopic errFor exists (\<lambda>_. reply) (rc_topic rc), kg_Close api cl w2))))"

definition kafka_Connect :: "('c, 'w) kgo_api \<Rightarrow> Config \<Rightarrow> 'w \<Rightarrow> (err + 'c \<times> kafkaConn) \<times> 'w" where
  "kafka_Connect api cfg w = (case kafka_resolve cfg of
      Inl e \<Rightarrow> (Inl e, w)
    | Inr rc \<Rightarrow> (case kg_NewClient api (clientOpts rc) w of
          (Inl e, w1) \<Rightarrow> (Inl (''kafkadriver: connect: '' @ e), w1)
        | (Inr cl, w1) \<Rightarrow> (Inr (cl, kafka_conn rc), w1)))"

definition kafka_Close :: "('c, 'w) kgo_api \<Rightarrow> 'c option \<Rightarrow> 'w \<Rightarrow> err option \<times> 'w" where
  "kafka_Close api cl w = (case cl of None \<Rightarrow> (None, w) | Some c \<Rightarrow> (None, kg_Close api c w))"

definition kafka_ReadKeyFrom :: "Node \<Rightarrow> int \<Rightarrow> 'w \<Rightarrow> (err + OpResult) \<times> 'w" where
  "kafka_ReadKeyFrom node key w =
     (Inl ''kafkadriver: ReadKeyFrom unsupported: Kafka is an append-only log with no per-key point read from a specific node; use the kafka-log verify model for correctness'', w)"

definition kgo_tracks :: "('c, 'w) kgo_api \<Rightarrow> ('w \<Rightarrow> 'c multiset) \<Rightarrow> bool" where
  "kgo_tracks api live \<longleftrightarrow>
     (\<forall>os w. live (snd (kg_NewClient api os w)) = (case fst (kg_NewClient api os w) of Inr c \<Rightarrow> add_mset c (live w) | Inl _ \<Rightarrow> live w)) \<and>
     (\<forall>c w. live (kg_Close api c w) = live w - {#c#}) \<and>
     (\<forall>c tc w. live (snd (kg_CreateTopics api c tc w)) = live w)"

definition kafka_Nodes :: "Config \<Rightarrow> Node list" where
  "kafka_Nodes cfg = filter (\<lambda>n. n_Client n \<noteq> '''') (cs_Nodes (cfg_Cluster cfg))"

subsection \<open>Draining the topic\<close>

record logRecord =
  lr_Partition :: int
  lr_Offset :: int
  lr_Key :: int
  lr_Seq :: int

definition log_record :: "KRecord \<Rightarrow> logRecord option" where
  "log_record r = (case (keyFromBytes (kr_Key r), seqFromHeaders (kr_Headers r)) of
      (Some key, Some s) \<Rightarrow> Some \<lparr>lr_Partition = kr_Partition r, lr_Offset = kr_Offset r, lr_Key = key, lr_Seq = s\<rparr>
    | _ \<Rightarrow> None)"

text \<open>One poll: the context's error after it and, asked again, on a failed fetch; the first fetch
  error; the records.\<close>

record poll =
  pl_ctxErr :: "err option"
  pl_fetchErr :: "err option"
  pl_ctxErr2 :: "err option"
  pl_records :: "KRecord list"

text \<open>\<open>None\<close> when the given polls do not end the loop.\<close>

fun drainTopic :: "poll list \<Rightarrow> logRecord list \<Rightarrow> (logRecord list \<times> err option) option" where
  "drainTopic [] out = None"
| "drainTopic (p # ps) out =
     (case pl_ctxErr p of
        Some e \<Rightarrow> Some (out, Some e)
      | None \<Rightarrow>
          (case pl_fetchErr p of
             Some e \<Rightarrow> Some (out, if pl_ctxErr2 p = None then None else Some e)
           | None \<Rightarrow>
               if pl_records p = [] then Some (out, None)
               else drainTopic ps (out @ List.map_filter log_record (pl_records p))))"

subsection \<open>The analysis\<close>

definition maxWitness :: nat where "maxWitness = 10"

definition capped :: "string \<Rightarrow> string list \<Rightarrow> string list" where
  "capped line ws = (if length ws < maxWitness then ws @ [line] else ws)"

record scan =
  sc_seqs :: "int \<Rightarrow> int list option"
  sc_last :: "int \<Rightarrow> int option"
  sc_ordering :: int
  sc_witness :: "string list"

definition order_step :: "logRecord \<Rightarrow> scan \<Rightarrow> scan" where
  "order_step r s =
     (let s1 = (case sc_last s (lr_Key r) of
                  Some prev \<Rightarrow>
                    if lr_Seq r < prev then
                      s\<lparr>sc_ordering := i64 (sc_ordering s + 1),
                        sc_witness := capped (''key='' @ fmt_int (lr_Key r) @ '' p='' @ fmt_int (lr_Partition r) @ '' off='' @
                          fmt_int (lr_Offset r) @ '' seq='' @ fmt_int (lr_Seq r) @ ''<prev='' @ fmt_int prev) (sc_witness s)\<rparr>
                    else s
                | None \<Rightarrow> s)
      in s1\<lparr>sc_last := (sc_last s1)(lr_Key r \<mapsto> lr_Seq r),
            sc_seqs := (sc_seqs s1)(lr_Key r \<mapsto> (case sc_seqs s1 (lr_Key r) of Some xs \<Rightarrow> xs | None \<Rightarrow> []) @ [lr_Seq r])\<rparr>)"

definition scan_log :: "logRecord list \<Rightarrow> scan" where
  "scan_log recs = fold order_step (sort_key (\<lambda>r. (lr_Partition r, lr_Offset r)) recs)
     \<lparr>sc_seqs = Map.empty, sc_last = Map.empty, sc_ordering = 0, sc_witness = []\<rparr>"

definition range_step :: "int \<Rightarrow> int set \<times> int \<times> int \<Rightarrow> int set \<times> int \<times> int" where
  "range_step s st = (case st of (uniq, mn, mx) \<Rightarrow> (insert s uniq, if s < mn then s else mn, if s > mx then s else mx))"

record tally =
  ta_lost :: int
  ta_dup :: int
  ta_lossW :: "string list"
  ta_dupW :: "string list"

definition key_step :: "(int \<Rightarrow> int list option) \<Rightarrow> int \<Rightarrow> tally \<Rightarrow> tally" where
  "key_step seqsByKey key t =
     (let seqs = (case seqsByKey key of Some xs \<Rightarrow> xs | None \<Rightarrow> []);
          (uniq, mn, mx) = fold range_step seqs ({}, hd seqs, hd seqs);
          keyLost = i64 (i64 (mx - mn + 1) - int (card uniq));
          keyDup = int (length seqs) - int (card uniq);
          t1 = (if keyLost > 0
                then t\<lparr>ta_lost := i64 (ta_lost t + keyLost),
                       ta_lossW := capped (''key='' @ fmt_int key @ '' gaps='' @ fmt_int keyLost @ '' range=['' @ fmt_int mn @ '','' @
                         fmt_int mx @ '']'') (ta_lossW t)\<rparr>
                else t)
      in if keyDup > 0
         then t1\<lparr>ta_dup := i64 (ta_dup t1 + keyDup),
                 ta_dupW := capped (''key='' @ fmt_int key @ '' dups='' @ fmt_int keyDup) (ta_dupW t1)\<rparr>
         else t1)"

definition buildAnomalies :: "int \<Rightarrow> int \<Rightarrow> int \<Rightarrow> string list \<Rightarrow> string list \<Rightarrow> string list \<Rightarrow> Anomaly list" where
  "buildAnomalies lost dup reord lossW dupW orderW =
     (if lost > 0 then [\<lparr>an_Kind = ''message-loss'', an_Detail = fmt_int lost @ '' lost'', an_Witness = lossW\<rparr>] else []) @
     (if dup > 0 then [\<lparr>an_Kind = ''duplication'', an_Detail = fmt_int dup @ '' duplicated'', an_Witness = dupW\<rparr>] else []) @
     (if reord > 0 then [\<lparr>an_Kind = ''ordering'', an_Detail = fmt_int reord @ '' ordering violations'', an_Witness = orderW\<rparr>] else [])"

text \<open>\<open>ks\<close> is the order in which the map of sequences by key is ranged over.\<close>

definition analyzeLog :: "int list \<Rightarrow> logRecord list \<Rightarrow> VerifyReport" where
  "analyzeLog ks recs =
     (let rep = (new_report VerifyKafkaLog VerdictUnknown)\<lparr>vr_Checked := int (length recs)\<rparr>
      in if recs = [] then rep
         else let s = scan_log recs;
                  t = fold (key_step (sc_seqs s)) ks \<lparr>ta_lost = 0, ta_dup = 0, ta_lossW = [], ta_dupW = []\<rparr>
              in rep\<lparr>vr_Lost := ta_lost t, vr_Duplicated := ta_dup t, vr_OrderingViol := sc_ordering s,
                     vr_Anomalies := buildAnomalies (ta_lost t) (ta_dup t) (sc_ordering s) (ta_lossW t) (ta_dupW t) (sc_witness s),
                     vr_Verdict := (if ta_lost t = 0 \<and> ta_dup t = 0 \<and> sc_ordering s = 0 then VerdictPass else VerdictFail)\<rparr>)"

definition kafka_Verify :: "Config \<Rightarrow> err option \<Rightarrow> poll list \<Rightarrow> int list \<Rightarrow> (VerifyReport \<times> err option) option" where
  "kafka_Verify cfg clientErr polls ks =
     (let zero = new_report VerifyKafkaLog VerdictUnknown
      in case kafka_resolve cfg of
           Inl e \<Rightarrow> Some (zero, Some e)
         | Inr rc \<Rightarrow>
             (case clientErr of
                Some e \<Rightarrow> Some (zero, Some (''kafkadriver: verify client: '' @ e))
              | None \<Rightarrow>
                  (case drainTopic polls [] of
                     None \<Rightarrow> None
                   | Some (recs, Some e) \<Rightarrow> Some (zero, Some e)
                   | Some (recs, None) \<Rightarrow> Some (analyzeLog ks recs, None))))"

section \<open>The record codec\<close>

lemma kafka_live:
  assumes "kgo_tracks api live"
  shows "kafka_Connect api cfg w = (Inr c, w') \<Longrightarrow> live w' = add_mset (fst c) (live w)"
    and "kafka_Connect api cfg w = (Inl e, w') \<Longrightarrow> live w' = live w"
    and "kafka_Schema errFor exists api cfg w = (r, w') \<Longrightarrow> live w' = live w"
proof -
  have n: "live (snd (kg_NewClient api os w)) = (case fst (kg_NewClient api os w) of Inr c \<Rightarrow> add_mset c (live w) | Inl _ \<Rightarrow> live w)" for os w
    using assms by (simp add: kgo_tracks_def)
  have q: "live (kg_Close api c w) = live w - {#c#}" "live (snd (kg_CreateTopics api c tc w)) = live w" for c tc w
    using assms by (simp_all add: kgo_tracks_def)
  show "kafka_Connect api cfg w = (Inr c, w') \<Longrightarrow> live w' = add_mset (fst c) (live w)"
    and "kafka_Connect api cfg w = (Inl e, w') \<Longrightarrow> live w' = live w"
    using n [of "clientOpts (projr (kafka_resolve cfg))" w] by (auto simp: kafka_Connect_def split: sum.splits prod.splits)
  show "kafka_Schema errFor exists api cfg w = (r, w') \<Longrightarrow> live w' = live w"
    using n [of "[SeedBrokers (rc_brokers (projr (kafka_resolve cfg)))]" w] q
    by (auto simp: kafka_Schema_def case_prod_beta split: sum.splits prod.splits)
qed

lemma bit_byte: "bit (ucast (drop_bit k (v :: u64)) :: u8) m \<longleftrightarrow> m < 8 \<and> bit v (k + m)"
  by (auto simp: bit_ucast_iff bit_drop_bit_eq dest: bit_imp_le_length)

lemma bit_shifted: "bit (push_bit k (ucast (b :: u8) :: u64)) n \<longleftrightarrow> n < 64 \<and> k \<le> n \<and> bit b (n - k)"
  by (auto simp: bit_push_bit_iff bit_ucast_iff dest: bit_imp_le_length)

lemma Uint64_PutUint64: "Uint64_BE (PutUint64_BE v) = v"
proof (rule bit_word_eqI)
  fix n
  assume n: "n < LENGTH(64)"
  have z: "ucast v = (ucast (drop_bit 0 v) :: u8)" and p: "(ucast b :: u64) = push_bit 0 (ucast b)" for b :: u8
    by simp_all
  define K :: "nat set" where "K = {0, 8, 16, 24, 32, 40, 48, 56}"
  have "bit (Uint64_BE (PutUint64_BE v)) n \<longleftrightarrow> (\<exists>k\<in>K. k \<le> n \<and> n - k < 8 \<and> bit v (k + (n - k)))"
    unfolding Uint64_BE_def PutUint64_BE_def K_def z using n
    by (subst (1) p) (auto simp: bit_or_iff bit_shifted bit_byte simp del: drop_bit_0 push_bit_0_id)
  also have "\<dots> \<longleftrightarrow> (\<exists>k\<in>K. k \<le> n \<and> n - k < 8) \<and> bit v n"
    using le_add_diff_inverse [of _ n] by metis
  also have "\<dots> \<longleftrightarrow> bit v n"
  proof -
    have "8 * (n div 8) \<in> K"
    proof -
      have "n div 8 < 8"
        using n by (simp add: div_less_iff_less_mult)
      hence "n div 8 \<in> {0, 1, 2, 3, 4, 5, 6, 7}"
        by auto
      thus ?thesis
        unfolding K_def by auto
    qed
    moreover have "8 * (n div 8) \<le> n" "n - 8 * (n div 8) < 8"
      by (simp_all add: minus_mult_div_eq_mod)
    ultimately show ?thesis
      by blast
  qed
  finally show "bit (Uint64_BE (PutUint64_BE v)) n \<longleftrightarrow> bit v n" .
qed

lemma in64_sint: "in64 s \<Longrightarrow> sint (word_of_int s :: u64) = s"
  by (simp add: in64_def signed_of_int signed_take_bit_int_eq_self)

lemma decodeSeq_encodeSeq [simp]: "in64 s \<Longrightarrow> decodeSeq (encodeSeq s) = Some s"
  by (simp add: decodeSeq_def encodeSeq_def Uint64_PutUint64 in64_sint) (simp add: PutUint64_BE_def)

interpretation seq_header: codec encodeSeq decodeSeq in64
  by unfold_locales simp

interpretation record_key: codec keyBytes keyFromBytes in64
  by unfold_locales (simp add: keyBytes_def keyFromBytes_def)

lemma log_record_recordFrom:
  "in64 (op_Key op) \<Longrightarrow> in64 (op_Seq op) \<Longrightarrow>
   log_record ((recordFrom topic op)\<lparr>kr_Partition := p, kr_Offset := off\<rparr>) =
     Some \<lparr>lr_Partition = p, lr_Offset = off, lr_Key = op_Key op, lr_Seq = op_Seq op\<rparr>"
  by (simp add: log_record_def recordFrom_def record_key.dec_enc seq_header.dec_enc)

lemma batch_key_inj:
  assumes "batch_key op i n = batch_key op' j n" "0 \<le> i" "i < n" "0 \<le> j" "j < n"
    "in64 (op_Key op * n)" "in64 (op_Key op * n + i)" "in64 (op_Key op' * n)" "in64 (op_Key op' * n + j)"
  shows "op_Key op = op_Key op' \<and> i = j"
proof -
  have e: "op_Key op * n + i = op_Key op' * n + j"
    using assms by (simp add: batch_key_def)
  have "op_Key op = (op_Key op * n + i) div n" "op_Key op' = (op_Key op' * n + j) div n"
    using assms(2-5) by simp_all
  hence "op_Key op = op_Key op'"
    using e by simp
  thus ?thesis
    using e by simp
qed

section \<open>The analysis\<close>

text \<open>The sequence numbers of a key in a list of records, the number of steps down in such a list,
  the numbers missing between its extremes and its repetitions.\<close>

definition key_seqs :: "int \<Rightarrow> logRecord list \<Rightarrow> int list" where
  "key_seqs k rs = map lr_Seq (filter (\<lambda>r. lr_Key r = k) rs)"

fun descents :: "int list \<Rightarrow> nat" where
  "descents (x # y # ys) = (if y < x then 1 else 0) + descents (y # ys)"
| "descents _ = 0"

definition missing :: "int list \<Rightarrow> nat" where
  "missing xs = card ({Min (set xs)..Max (set xs)} - set xs)"

definition repeated :: "int list \<Rightarrow> nat" where
  "repeated xs = length xs - card (set xs)"

definition log_order :: "logRecord list \<Rightarrow> logRecord list" where
  "log_order recs = sort_key (\<lambda>r. (lr_Partition r, lr_Offset r)) recs"

definition log_keys :: "logRecord list \<Rightarrow> int set" where
  "log_keys recs = lr_Key ` set recs"

definition log_fits :: "logRecord list \<Rightarrow> bool" where
  "log_fits recs \<longleftrightarrow> in64 (int (length recs)) \<and>
     in64 (\<Sum>k\<in>log_keys recs. Max (set (key_seqs k recs)) - Min (set (key_seqs k recs)) + 1)"

lemma descents_snoc: "descents (xs @ [y]) = descents xs + (if xs \<noteq> [] \<and> y < last xs then 1 else 0)"
  by (induction xs rule: descents.induct) auto

lemma key_seqs_snoc [simp]: "key_seqs k (rs @ [r]) = key_seqs k rs @ (if lr_Key r = k then [lr_Seq r] else [])"
  by (simp add: key_seqs_def)

lemma key_seqs_empty_iff: "key_seqs k rs = [] \<longleftrightarrow> k \<notin> log_keys rs"
  by (auto simp: key_seqs_def log_keys_def filter_empty_conv)

lemma descents_le: "descents xs \<le> length xs"
  by (induction xs rule: descents.induct) auto

lemma order_step_parts:
  "sc_last (order_step r s) = (sc_last s)(lr_Key r \<mapsto> lr_Seq r)"
  "sc_seqs (order_step r s) = (sc_seqs s)(lr_Key r \<mapsto> (case sc_seqs s (lr_Key r) of Some xs \<Rightarrow> xs | None \<Rightarrow> []) @ [lr_Seq r])"
  "sc_ordering (order_step r s) = (if \<exists>prev. sc_last s (lr_Key r) = Some prev \<and> lr_Seq r < prev then i64 (sc_ordering s + 1) else sc_ordering s)"
  by (simp_all add: order_step_def Let_def split: option.split)

definition scan_init :: scan where
  "scan_init = \<lparr>sc_seqs = Map.empty, sc_last = Map.empty, sc_ordering = 0, sc_witness = []\<rparr>"

lemma scan_maps:
  "sc_seqs (fold order_step rs scan_init) k = (if key_seqs k rs = [] then None else Some (key_seqs k rs)) \<and>
   sc_last (fold order_step rs scan_init) k = (if key_seqs k rs = [] then None else Some (last (key_seqs k rs)))"
proof (induction rs rule: rev_induct)
  case (snoc r rs)
  thus ?case
    by (auto simp: order_step_parts)
qed (simp add: scan_init_def key_seqs_def)

lemma sum_bump:
  fixes f :: "'a \<Rightarrow> nat"
  assumes "finite K" "k0 \<in> K" "\<And>k. k \<noteq> k0 \<Longrightarrow> g k = f k" "g k0 = f k0 + d"
  shows "sum g K = sum f K + d"
proof -
  have "sum g K = g k0 + sum g (K - {k0})" "sum f K = f k0 + sum f (K - {k0})"
    using assms(1,2) by (simp_all add: sum.remove)
  moreover have "sum g (K - {k0}) = sum f (K - {k0})"
    using assms(3) by (intro sum.cong) auto
  ultimately show ?thesis
    using assms(4) by simp
qed

lemma scan_ordering:
  assumes "finite K" "log_keys rs \<subseteq> K" "in64 (int (length rs))"
  shows "sc_ordering (fold order_step rs scan_init) = int (\<Sum>k\<in>K. descents (key_seqs k rs)) \<and>
    (\<Sum>k\<in>K. descents (key_seqs k rs)) \<le> length rs"
  using assms(2,3)
proof (induction rs rule: rev_induct)
  case (snoc r rs)
  let ?s = "fold order_step rs scan_init" and ?k = "lr_Key r"
  let ?d = "if key_seqs ?k rs \<noteq> [] \<and> lr_Seq r < last (key_seqs ?k rs) then 1 else 0 :: nat"
  have IH: "sc_ordering ?s = int (\<Sum>k\<in>K. descents (key_seqs k rs))" "(\<Sum>k\<in>K. descents (key_seqs k rs)) \<le> length rs"
    using snoc in64_nonneg [of "int (length rs)" "int (length (rs @ [r]))"] by (auto simp: log_keys_def)
  have sum: "(\<Sum>k\<in>K. descents (key_seqs k (rs @ [r]))) = (\<Sum>k\<in>K. descents (key_seqs k rs)) + ?d"
    using assms(1) snoc.prems(1) by (intro sum_bump [of _ ?k]) (auto simp: log_keys_def descents_snoc)
  have "0 \<le> sc_ordering ?s" "sc_ordering ?s \<le> int (length rs)"
    unfolding IH(1) using IH(2) by (simp_all only: of_nat_0_le_iff of_nat_le_iff)
  hence "in64 (sc_ordering ?s + 1)"
    by (intro in64_nonneg [OF _ _ snoc.prems(2)]) simp_all
  moreover have "(\<exists>prev. sc_last ?s ?k = Some prev \<and> lr_Seq r < prev) \<longleftrightarrow>
      key_seqs ?k rs \<noteq> [] \<and> lr_Seq r < last (key_seqs ?k rs)"
    using scan_maps [of rs ?k] by simp
  ultimately have "sc_ordering (order_step r ?s) = sc_ordering ?s + int ?d"
    by (simp add: order_step_parts(3))
  thus ?case
    using IH sum by simp
qed (simp add: scan_init_def key_seqs_def)

lemma fold_range_step:
  "finite U \<Longrightarrow> fold range_step xs (U, a, b) = (U \<union> set xs, Min (insert a (set xs)), Max (insert b (set xs)))"
proof (induction xs arbitrary: U a b)
  case (Cons x xs)
  have "Min (insert (if x < a then x else a) (set xs)) = Min (insert a (set (x # xs)))"
    by (cases "xs = []") (auto simp: min_def)
  moreover have "Max (insert (if x > b then x else b) (set xs)) = Max (insert b (set (x # xs)))"
    by (cases "xs = []") (auto simp: max_def)
  ultimately show ?case
    using Cons by (simp add: range_step_def)
qed simp

lemma missing_val:
  assumes "xs \<noteq> []"
  shows "int (missing xs) = Max (set xs) - Min (set xs) + 1 - int (card (set xs))"
proof -
  have "set xs \<subseteq> {Min (set xs)..Max (set xs)}"
    by auto
  moreover have "Min (set xs) \<le> Max (set xs)"
    using assms by simp
  moreover from calculation have "card (set xs) \<le> card {Min (set xs)..Max (set xs)}"
    by (intro card_mono) auto
  ultimately show ?thesis
    by (simp add: missing_def card_Diff_subset of_nat_diff)
qed

lemma repeated_val: "int (repeated xs) = int (length xs) - int (card (set xs))"
  using card_length [of xs] by (simp add: repeated_def)

lemma key_step_val:
  assumes "m k = Some xs" "xs \<noteq> []" "in64 (Max (set xs) - Min (set xs) + 1)"
    "in64 (ta_lost t + int (missing xs))" "in64 (ta_dup t + int (repeated xs))"
  shows "ta_lost (key_step m k t) = ta_lost t + int (missing xs)" "ta_dup (key_step m k t) = ta_dup t + int (repeated xs)"
proof -
  have f: "fold range_step xs ({}, hd xs, hd xs) = (set xs, Min (set xs), Max (set xs))"
    using assms(2) fold_range_step [of "{}" xs "hd xs" "hd xs"] by (simp add: insert_absorb)
  have "0 \<le> int (missing xs)" "int (missing xs) \<le> Max (set xs) - Min (set xs) + 1"
    using missing_val [OF assms(2)] by simp_all
  hence "in64 (Max (set xs) - Min (set xs) + 1 - int (card (set xs)))"
    using missing_val [OF assms(2)] assms(3) by (metis in64_nonneg)
  hence l: "i64 (i64 (Max (set xs) - Min (set xs) + 1) - int (card (set xs))) = int (missing xs)"
    using missing_val [OF assms(2)] assms(3) by simp
  have d: "\<not> card (set xs) < length xs \<Longrightarrow> repeated xs = 0"
    by (simp add: repeated_def)
  show "ta_lost (key_step m k t) = ta_lost t + int (missing xs)" "ta_dup (key_step m k t) = ta_dup t + int (repeated xs)"
    using assms(1,4,5) d by (auto simp: key_step_def f l Let_def repeated_val [symmetric])
qed

lemma tally_fold:
  assumes "\<And>k. k \<in> set ks \<Longrightarrow> m k = Some (f k) \<and> f k \<noteq> []" "0 \<le> ta_lost t" "0 \<le> ta_dup t"
    "in64 (ta_lost t + (\<Sum>k\<leftarrow>ks. Max (set (f k)) - Min (set (f k)) + 1))" "in64 (ta_dup t + (\<Sum>k\<leftarrow>ks. int (length (f k))))"
  shows "ta_lost (fold (key_step m) ks t) = ta_lost t + (\<Sum>k\<leftarrow>ks. int (missing (f k))) \<and>
    ta_dup (fold (key_step m) ks t) = ta_dup t + (\<Sum>k\<leftarrow>ks. int (repeated (f k)))"
  using assms
proof (induction ks arbitrary: t)
  case (Cons k ks)
  let ?xs = "f k" and ?t = "key_step m k t"
  let ?span = "\<lambda>k. Max (set (f k)) - Min (set (f k)) + 1"
  have k: "m k = Some ?xs" "?xs \<noteq> []"
    using Cons.prems(1) by simp_all
  have span: "int (missing (f j)) \<le> ?span j" "1 \<le> ?span j" if "j \<in> set (k # ks)" for j
    using Cons.prems(1) [OF that] missing_val [of "f j"] by (auto simp: card_gt_0_iff)
  hence rest: "0 \<le> (\<Sum>k\<leftarrow>ks. ?span k)"
    by (intro sum_list_nonneg) force
  have rest2: "0 \<le> (\<Sum>k\<leftarrow>ks. int (length (f k)))"
    by (intro sum_list_nonneg) auto
  have rep: "int (repeated ?xs) \<le> int (length ?xs)"
    by (simp add: repeated_def)
  note s = span [of k, simplified]
  have b: "in64 (?span k)" "in64 (ta_lost t + int (missing ?xs))"
    using Cons.prems(2) rest s by (auto intro!: in64_nonneg [OF _ _ Cons.prems(4)])
  have c: "in64 (ta_dup t + int (repeated ?xs))"
    using Cons.prems(3) rest2 rep by (auto intro!: in64_nonneg [OF _ _ Cons.prems(5)])
  note v = key_step_val [of m k, OF k b c]
  have "ta_lost (fold (key_step m) ks ?t) = ta_lost ?t + (\<Sum>k\<leftarrow>ks. int (missing (f k))) \<and>
      ta_dup (fold (key_step m) ks ?t) = ta_dup ?t + (\<Sum>k\<leftarrow>ks. int (repeated (f k)))"
  proof (rule Cons.IH)
    show "in64 (ta_lost ?t + (\<Sum>k\<leftarrow>ks. ?span k))"
      using Cons.prems(2,4) s rest unfolding v by (intro in64_nonneg [OF _ _ Cons.prems(4)]) auto
    show "in64 (ta_dup ?t + (\<Sum>k\<leftarrow>ks. int (length (f k))))"
      using Cons.prems(3,5) rep rest2 unfolding v by (intro in64_nonneg [OF _ _ Cons.prems(5)]) auto
  qed (use Cons.prems v in auto)
  thus ?case
    using v by simp
qed simp

lemma sum_key_lengths: "finite K \<Longrightarrow> log_keys rs \<subseteq> K \<Longrightarrow> (\<Sum>k\<in>K. length (key_seqs k rs)) = length rs"
proof (induction rs rule: rev_induct)
  case (snoc r rs)
  have "(\<Sum>k\<in>K. length (key_seqs k (rs @ [r]))) = (\<Sum>k\<in>K. length (key_seqs k rs)) + 1"
    using snoc.prems by (intro sum_bump [of _ "lr_Key r"]) (auto simp: log_keys_def)
  thus ?case
    using snoc by (auto simp: log_keys_def)
qed (simp add: key_seqs_def)

lemma descents_sorted: "descents xs = 0 \<longleftrightarrow> sorted xs"
  by (induction xs rule: descents.induct) (simp_all del: sorted_wrt.simps add: sorted0 sorted1 sorted2 not_less)

lemma contiguous_iff:
  assumes "xs \<noteq> []"
  shows "missing xs = 0 \<and> repeated xs = 0 \<and> descents xs = 0 \<longleftrightarrow> xs = [hd xs..hd xs + int (length xs) - 1]"
proof
  assume a: "missing xs = 0 \<and> repeated xs = 0 \<and> descents xs = 0"
  have sorted: "sorted xs" and dist: "distinct xs"
    using a card_length [of xs] by (simp_all add: descents_sorted repeated_def card_distinct)
  have "set xs = {Min (set xs)..Max (set xs)}"
    using a by (auto simp: missing_def)
  hence xs: "xs = [Min (set xs)..Max (set xs)]"
    using sorted dist by (intro sorted_distinct_set_unique) simp_all
  have le: "Min (set xs) \<le> Max (set xs)"
    using assms by simp
  have "length xs = nat (Max (set xs) - Min (set xs) + 1)"
    by (subst xs) simp
  moreover have "hd xs = Min (set xs)"
    by (subst xs) (use le in \<open>simp add: upto_rec1\<close>)
  ultimately have "Max (set xs) = hd xs + int (length xs) - 1" "hd xs = Min (set xs)"
    using le by simp_all
  thus "xs = [hd xs..hd xs + int (length xs) - 1]"
    using xs by simp
next
  assume xs: "xs = [hd xs..hd xs + int (length xs) - 1]"
  have "sorted xs" "distinct xs"
    by (subst xs, simp)+
  moreover have set: "set xs = {hd xs..hd xs + int (length xs) - 1}"
    by (subst xs) simp
  have "Min (set xs) = hd xs" "Max (set xs) = hd xs + int (length xs) - 1"
    unfolding set using assms by (auto intro: Min_eqI Max_eqI simp: Suc_le_eq)
  hence "missing xs = 0"
    using set by (simp add: missing_def)
  ultimately show "missing xs = 0 \<and> repeated xs = 0 \<and> descents xs = 0"
    by (simp add: descents_sorted repeated_def distinct_card)
qed

lemma set_key_seqs: "set (key_seqs k rs) = lr_Seq ` {r \<in> set rs. lr_Key r = k}"
  by (simp add: key_seqs_def)

lemma log_order_simps [simp]: "set (log_order recs) = set recs" "length (log_order recs) = length recs"
  "log_keys (log_order recs) = log_keys recs" "mset (log_order recs) = mset recs"
  by (simp_all add: log_order_def log_keys_def)

lemma scan_log_seqs: "sc_seqs (scan_log recs) k = (if k \<in> log_keys recs then Some (key_seqs k (log_order recs)) else None)"
  using scan_maps [of "log_order recs" k] by (simp add: scan_log_def log_order_def scan_init_def key_seqs_empty_iff [unfolded log_order_def])
    (simp add: key_seqs_empty_iff log_keys_def)

lemma finite_log_keys [simp]: "finite (log_keys recs)"
  by (simp add: log_keys_def)

lemma scan_log_order:
  "order_of (sc_seqs (scan_log recs)) ks \<longleftrightarrow> distinct ks \<and> set ks = log_keys recs"
  by (auto simp: order_of_def scan_log_seqs dom_def)

lemma scan_log_ordering:
  assumes "log_fits recs"
  shows "sc_ordering (scan_log recs) = (\<Sum>k\<in>log_keys recs. int (descents (key_seqs k (log_order recs))))"
  using scan_ordering [of "log_keys recs" "log_order recs"] assms
  by (simp add: log_fits_def scan_log_def scan_init_def) (simp add: log_order_def)

lemma analyzeLog_tally:
  assumes "recs \<noteq> []" "log_fits recs" "distinct ks" "set ks = log_keys recs"
  shows "vr_Lost (analyzeLog ks recs) = (\<Sum>k\<in>log_keys recs. int (missing (key_seqs k (log_order recs))))"
    "vr_Duplicated (analyzeLog ks recs) = (\<Sum>k\<in>log_keys recs. int (repeated (key_seqs k (log_order recs))))"
    "vr_OrderingViol (analyzeLog ks recs) = (\<Sum>k\<in>log_keys recs. int (descents (key_seqs k (log_order recs))))"
proof -
  let ?f = "\<lambda>k. key_seqs k (log_order recs)" and ?m = "sc_seqs (scan_log recs)"
  let ?t = "fold (key_step ?m) ks \<lparr>ta_lost = 0, ta_dup = 0, ta_lossW = [], ta_dupW = []\<rparr>"
  have f: "?m k = Some (?f k) \<and> ?f k \<noteq> []" if "k \<in> set ks" for k
    using that assms(4) by (simp add: scan_log_seqs key_seqs_empty_iff)
  have sets: "set (?f k) = set (key_seqs k recs)" for k
    by (simp add: set_key_seqs)
  have spans: "(\<Sum>k\<leftarrow>ks. Max (set (?f k)) - Min (set (?f k)) + 1) =
      (\<Sum>k\<in>log_keys recs. Max (set (key_seqs k recs)) - Min (set (key_seqs k recs)) + 1)"
    using assms(3,4) by (simp only: sets sum_list_distinct_conv_sum_set)
  have "(\<Sum>k\<leftarrow>ks. int (length (?f k))) = int (\<Sum>k\<in>log_keys recs. length (?f k))"
    using assms(3,4) by (simp add: sum_list_distinct_conv_sum_set)
  also have "\<dots> = int (length recs)"
    using sum_key_lengths [of "log_keys recs" "log_order recs"] by (simp only: log_order_simps finite_log_keys order_refl)
  finally have lens: "(\<Sum>k\<leftarrow>ks. int (length (?f k))) = int (length recs)" .
  have t: "ta_lost ?t = 0 + (\<Sum>k\<leftarrow>ks. int (missing (?f k))) \<and> ta_dup ?t = 0 + (\<Sum>k\<leftarrow>ks. int (repeated (?f k)))"
    using tally_fold [of ks ?m ?f "\<lparr>ta_lost = 0, ta_dup = 0, ta_lossW = [], ta_dupW = []\<rparr>", OF f] assms(2)
    by (simp add: spans lens log_fits_def)
  show "vr_Lost (analyzeLog ks recs) = (\<Sum>k\<in>log_keys recs. int (missing (?f k)))"
    "vr_Duplicated (analyzeLog ks recs) = (\<Sum>k\<in>log_keys recs. int (repeated (?f k)))"
    using t assms(1,3,4) by (simp_all add: analyzeLog_def Let_def sum_list_distinct_conv_sum_set)
  show "vr_OrderingViol (analyzeLog ks recs) = (\<Sum>k\<in>log_keys recs. int (descents (?f k)))"
    using scan_log_ordering [OF assms(2)] assms(1) by (simp add: analyzeLog_def Let_def)
qed

lemma analyzeLog_verdict_counts:
  "recs \<noteq> [] \<Longrightarrow> vr_Verdict (analyzeLog ks recs) = (if vr_Lost (analyzeLog ks recs) = 0 \<and>
     vr_Duplicated (analyzeLog ks recs) = 0 \<and> vr_OrderingViol (analyzeLog ks recs) = 0 then VerdictPass else VerdictFail)"
  by (simp add: analyzeLog_def Let_def)

lemma analyzeLog_pass:
  assumes "recs \<noteq> []" "log_fits recs" "distinct ks" "set ks = log_keys recs"
  shows "vr_Verdict (analyzeLog ks recs) = VerdictPass \<longleftrightarrow>
    (\<forall>k\<in>log_keys recs. \<exists>a. key_seqs k (log_order recs) = [a..a + int (length (key_seqs k (log_order recs))) - 1])"
proof -
  let ?f = "\<lambda>k. key_seqs k (log_order recs)"
  have zero: "(\<Sum>k\<in>log_keys recs. int (g k)) = 0 \<longleftrightarrow> (\<forall>k\<in>log_keys recs. g k = (0 :: nat))" for g
    by (simp add: sum_nonneg_eq_0_iff)
  have "vr_Verdict (analyzeLog ks recs) = VerdictPass \<longleftrightarrow>
      (\<forall>k\<in>log_keys recs. missing (?f k) = 0 \<and> repeated (?f k) = 0 \<and> descents (?f k) = 0)"
    unfolding analyzeLog_verdict_counts [OF assms(1)] analyzeLog_tally [OF assms] zero by auto
  also have "\<dots> \<longleftrightarrow> (\<forall>k\<in>log_keys recs. ?f k = [hd (?f k)..hd (?f k) + int (length (?f k)) - 1])"
  proof (intro ball_cong refl contiguous_iff)
    fix k
    assume "k \<in> log_keys recs"
    thus "?f k \<noteq> []"
      by (simp add: key_seqs_empty_iff)
  qed
  also have "\<dots> \<longleftrightarrow> (\<forall>k\<in>log_keys recs. \<exists>a. ?f k = [a..a + int (length (?f k)) - 1])"
  proof (intro ball_cong refl iffI)
    fix k
    assume k: "k \<in> log_keys recs" and "\<exists>a. ?f k = [a..a + int (length (?f k)) - 1]"
    then obtain a where a: "?f k = [a..a + int (length (?f k)) - 1]"
      by blast
    moreover have "?f k \<noteq> []"
      using k by (simp add: key_seqs_empty_iff)
    ultimately have "hd (?f k) = a"
      by (metis list.sel(1) upto_empty upto_rec1 not_le)
    thus "?f k = [hd (?f k)..hd (?f k) + int (length (?f k)) - 1]"
      using a by simp
  qed blast
  finally show ?thesis .
qed

section \<open>A log without faults\<close>

text \<open>
  What a broker promises for a topic: a record goes to the partition chosen from its key and
  gets the next offset there. \<open>stored\<close> is the same on decoded records.
\<close>

definition broker_append :: "(u8 list \<Rightarrow> int) \<Rightarrow> KRecord \<Rightarrow> KRecord list \<Rightarrow> KRecord list" where
  "broker_append part r lg =
     lg @ [r\<lparr>kr_Partition := part (kr_Key r), kr_Offset := int (length (filter (\<lambda>x. kr_Partition x = part (kr_Key r)) lg))\<rparr>]"

definition broker_log :: "(u8 list \<Rightarrow> int) \<Rightarrow> KRecord list \<Rightarrow> KRecord list" where
  "broker_log part recs = fold (broker_append part) recs []"

definition store_step :: "(int \<Rightarrow> int) \<Rightarrow> int \<times> int \<Rightarrow> logRecord list \<Rightarrow> logRecord list" where
  "store_step part p lg =
     lg @ [\<lparr>lr_Partition = part (fst p), lr_Offset = int (length (filter (\<lambda>x. lr_Partition x = part (fst p)) lg)),
             lr_Key = fst p, lr_Seq = snd p\<rparr>]"

definition stored :: "(int \<Rightarrow> int) \<Rightarrow> (int \<times> int) list \<Rightarrow> logRecord list" where
  "stored part ps = fold (store_step part) ps []"

abbreviation place :: "logRecord \<Rightarrow> int \<times> int" where
  "place r \<equiv> (lr_Partition r, lr_Offset r)"

lemma stored_snoc: "stored part (ps @ [p]) = store_step part p (stored part ps)"
  by (simp add: stored_def)

lemma stored_Nil [simp]: "stored part [] = []"
  by (simp add: stored_def)

lemma stored_facts:
  "map (\<lambda>r. (lr_Key r, lr_Seq r)) (stored part ps) = ps"
  "\<forall>r\<in>set (stored part ps). lr_Partition r = part (lr_Key r)"
  "\<forall>r\<in>set (stored part ps). lr_Offset r < int (length (filter (\<lambda>x. lr_Partition x = lr_Partition r) (stored part ps)))"
  "sorted_wrt (\<lambda>r r'. lr_Partition r = lr_Partition r' \<longrightarrow> lr_Offset r < lr_Offset r') (stored part ps)"
proof -
  let ?L = "stored part"
  show "map (\<lambda>r. (lr_Key r, lr_Seq r)) (?L ps) = ps"
    by (induction ps rule: rev_induct) (simp_all add: stored_snoc store_step_def)
  show "\<forall>r\<in>set (?L ps). lr_Partition r = part (lr_Key r)"
    by (induction ps rule: rev_induct) (simp_all add: stored_snoc store_step_def)
  show off: "\<forall>r\<in>set (?L ps). lr_Offset r < int (length (filter (\<lambda>x. lr_Partition x = lr_Partition r) (?L ps)))"
    for ps
  proof (induction ps rule: rev_induct)
    case (snoc p ps)
    thus ?case
      by (auto simp: stored_snoc store_step_def)
  qed (simp add: stored_def)
  show "sorted_wrt (\<lambda>r r'. lr_Partition r = lr_Partition r' \<longrightarrow> lr_Offset r < lr_Offset r') (?L ps)"
  proof (induction ps rule: rev_induct)
    case (snoc p ps)
    moreover have "\<forall>x\<in>set (?L ps). lr_Partition x = part (fst p) \<longrightarrow>
        lr_Offset x < int (length (filter (\<lambda>x. lr_Partition x = part (fst p)) (?L ps)))"
      using off [of ps] by metis
    ultimately show ?case
      by (simp add: stored_snoc store_step_def sorted_wrt_append)
  qed (simp add: stored_def)
qed

lemma sort_key_sorted: "sorted (map f xs) \<Longrightarrow> sort_key f xs = xs"
  by (rule properties_for_sort_key) simp_all

lemma stored_place_inj: "inj_on place (set (stored part ps))"
proof (rule inj_onI)
  fix r r'
  assume r: "r \<in> set (stored part ps)" "r' \<in> set (stored part ps)" "place r = place r'"
  then obtain i j where ij: "i < length (stored part ps)" "j < length (stored part ps)" "stored part ps ! i = r" "stored part ps ! j = r'"
    by (metis in_set_conv_nth)
  have "\<not> i < j" "\<not> j < i"
    using stored_facts(4) [of part ps, unfolded sorted_wrt_iff_nth_less] ij r(3) by fastforce+
  thus "r = r'"
    using ij by (simp add: linorder_not_less)
qed

lemma stored_key_order:
  assumes "mset recs = mset (stored part ps)"
  shows "key_seqs k (log_order recs) = map snd (filter (\<lambda>p. fst p = k) ps)"
proof -
  let ?L = "stored part ps" and ?k = "\<lambda>r. lr_Key r = k"
  have "sort_key place recs = sort_key place ?L"
    using assms stored_place_inj [of part ps] by (intro sort_key_inj_key_eq) (simp_all add: mset_eq_setD [OF assms])
  hence "filter ?k (log_order recs) = sort_key place (filter ?k ?L)"
    by (simp add: log_order_def filter_sort)
  also have "\<dots> = filter ?k ?L"
  proof (rule sort_key_sorted)
    have "sorted_wrt (\<lambda>r r'. lr_Partition r = lr_Partition r' \<longrightarrow> lr_Offset r < lr_Offset r') (filter ?k ?L)"
      by (intro sorted_wrt_filter stored_facts(4))
    hence "sorted_wrt (\<lambda>r r'. place r \<le> place r') (filter ?k ?L)"
      using stored_facts(2) [of part ps] by (elim sorted_wrt_mono_rel [rotated]) auto
    thus "sorted (map place (filter ?k ?L))"
      by (simp add: sorted_wrt_map)
  qed
  finally have "key_seqs k (log_order recs) = map lr_Seq (filter ?k ?L)"
    by (simp add: key_seqs_def)
  also have "\<dots> = map snd (filter (\<lambda>p. fst p = k) (map (\<lambda>r. (lr_Key r, lr_Seq r)) ?L))"
    by (simp add: filter_map o_def)
  finally show ?thesis
    unfolding stored_facts(1) .
qed

lemma stored_keys:
  assumes "mset recs = mset (stored part ps)"
  shows "log_keys recs = fst ` set ps"
proof -
  have "fst ` set ps = fst ` set (map (\<lambda>r. (lr_Key r, lr_Seq r)) (stored part ps))"
    by (simp only: stored_facts(1))
  thus ?thesis
    using mset_eq_setD [OF assms] by (simp add: log_keys_def image_image)
qed

lemma contiguous_span:
  assumes "xs = [a..a + int (length xs) - 1]" "xs \<noteq> []"
  shows "Max (set xs) - Min (set xs) + 1 = int (length xs)"
proof -
  have "set xs = {a..a + int (length xs) - 1}"
    by (subst assms(1)) simp
  moreover have "Min {a..a + int (length xs) - 1} = a" "Max {a..a + int (length xs) - 1} = a + int (length xs) - 1"
    using assms(2) by (auto intro: Min_eqI Max_eqI simp: Suc_le_eq)
  ultimately show ?thesis
    by simp
qed

lemma stored_pass:
  assumes "mset recs = mset (stored part ps)" "ps \<noteq> []" "in64 (int (length ps))" "distinct ks" "set ks = log_keys recs"
    "\<And>k. \<exists>a. map snd (filter (\<lambda>p. fst p = k) ps) = [a..a + int (length (filter (\<lambda>p. fst p = k) ps)) - 1]"
  shows "vr_Verdict (analyzeLog ks recs) = VerdictPass"
proof -
  note seqs = stored_key_order [OF assms(1)]
  have len: "length recs = length ps"
    using mset_eq_length [OF assms(1)] stored_facts(1) [of part ps] by (metis length_map)
  hence ne: "recs \<noteq> []"
    using assms(2) by auto
  have cont: "\<exists>a. key_seqs k (log_order recs) = [a..a + int (length (key_seqs k (log_order recs))) - 1]" for k
    using assms(6) [of k] by (simp add: seqs)
  have "Max (set (key_seqs k recs)) - Min (set (key_seqs k recs)) + 1 = int (length (key_seqs k (log_order recs)))"
    if "k \<in> log_keys recs" for k
  proof -
    have "set (key_seqs k recs) = set (key_seqs k (log_order recs))"
      by (simp add: set_key_seqs)
    moreover have "key_seqs k (log_order recs) \<noteq> []"
      using that by (simp add: key_seqs_empty_iff)
    ultimately show ?thesis
      using cont [of k] contiguous_span by metis
  qed
  hence "(\<Sum>k\<in>log_keys recs. Max (set (key_seqs k recs)) - Min (set (key_seqs k recs)) + 1) = int (length recs)"
    using sum_key_lengths [of "log_keys recs" "log_order recs"] by (simp flip: of_nat_sum)
  hence "log_fits recs"
    using assms(3) len by (simp add: log_fits_def)
  thus ?thesis
    using analyzeLog_pass [OF ne _ assms(4,5)] cont by blast
qed

section \<open>From operations to the log\<close>

definition batch_items :: "int \<Rightarrow> Operation list \<Rightarrow> (Operation \<times> int) list" where
  "batch_items n ops = concat (map (\<lambda>op. map (\<lambda>i. (op, int i)) [0..<nat n]) ops)"

abbreviation item_pair :: "int \<Rightarrow> Operation \<times> int \<Rightarrow> int \<times> int" where
  "item_pair n x \<equiv> (op_Key (fst x) * n + snd x, op_Seq (fst x))"

definition batch_size :: "kafkaConn \<Rightarrow> int" where
  "batch_size c = (if kc_batchSize c < 1 then 1 else kc_batchSize c)"

definition ops_fit :: "int \<Rightarrow> Operation list \<Rightarrow> bool" where
  "ops_fit n ops \<longleftrightarrow> in64 (int (length ops) * n) \<and>
     (\<forall>op\<in>set ops. in64 (op_Key op * n) \<and> in64 (op_Key op * n + n - 1) \<and> in64 (op_Seq op))"

lemma batch_size_pos: "1 \<le> batch_size c"
  by (simp add: batch_size_def)

lemma in64_between: "in64 a \<Longrightarrow> in64 b \<Longrightarrow> a \<le> x \<Longrightarrow> x \<le> b \<Longrightarrow> in64 x"
  by (simp add: in64_def)

lemma batch_key_fits:
  assumes "ops_fit n ops" "(op, i) \<in> set (batch_items n ops)"
  shows "in64 (op_Key op * n)" "in64 (op_Key op * n + i)" "in64 (op_Seq op)" "batch_key op i n = op_Key op * n + i"
proof -
  have o: "op \<in> set ops" "0 \<le> i" "i < n"
    using assms(2) by (auto simp: batch_items_def)
  thus a: "in64 (op_Key op * n)" "in64 (op_Key op * n + i)" "in64 (op_Seq op)"
    using assms(1) in64_between [of "op_Key op * n" "op_Key op * n + n - 1" "op_Key op * n + i"] by (auto simp: ops_fit_def)
  thus "batch_key op i n = op_Key op * n + i"
    by (simp add: batch_key_def)
qed

lemma recordFrom_batch: "in64 (op_Key op) \<Longrightarrow> batchRecordAt topic op 0 1 = recordFrom topic op"
  by (simp add: batchRecordAt_def recordFrom_def batch_key_def)

lemma produce_records_items:
  assumes "ops_fit (batch_size c) ops"
  shows "concat (map (produce_records c) ops) =
    map (\<lambda>x. batchRecordAt (kc_topic c) (fst x) (snd x) (batch_size c)) (batch_items (batch_size c) ops)"
proof -
  have "produce_records c op = map (\<lambda>i. batchRecordAt (kc_topic c) op (int i) (batch_size c)) [0..<nat (batch_size c)]"
    if "op \<in> set ops" for op
  proof (cases "batch_size c = 1")
    case True
    hence "in64 (op_Key op)"
      using assms that by (simp add: ops_fit_def)
    thus ?thesis
      using True by (simp add: produce_records_def batch_size_def recordFrom_batch split: if_splits)
  next
    case False
    thus ?thesis
      by (simp add: produce_records_def batch_size_def Let_def split: if_splits)
  qed
  thus ?thesis
    by (simp add: batch_items_def map_concat o_def cong: map_cong)
qed

lemma broker_log_snoc: "broker_log part (rs @ [r]) = broker_append part r (broker_log part rs)"
  by (simp add: broker_log_def)

lemma map_filter_snoc: "List.map_filter f (xs @ [x]) = List.map_filter f xs @ (case f x of Some y \<Rightarrow> [y] | None \<Rightarrow> [])"
  by (simp add: map_filter_def split: option.splits)

lemma broker_log_decodes:
  assumes "\<forall>x\<in>set xs. kr_Key (g x) = keyBytes (fst (h x)) \<and> in64 (fst (h x)) \<and> seqFromHeaders (kr_Headers (g x)) = Some (snd (h x))"
  shows "List.map_filter log_record (broker_log part (map g xs)) = stored (\<lambda>k. part (keyBytes k)) (map h xs) \<and>
    map kr_Partition (broker_log part (map g xs)) = map lr_Partition (stored (\<lambda>k. part (keyBytes k)) (map h xs))"
  using assms
proof (induction xs rule: rev_induct)
  case (snoc x xs)
  let ?L = "broker_log part (map g xs)" and ?S = "stored (\<lambda>k. part (keyBytes k)) (map h xs)"
  let ?p = "part (keyBytes (fst (h x)))"
  have IH: "List.map_filter log_record ?L = ?S" "map kr_Partition ?L = map lr_Partition ?S"
    using snoc by auto
  have "length (filter (\<lambda>y. kr_Partition y = ?p) ?L) = length (filter (\<lambda>y. y = ?p) (map kr_Partition ?L))"
    "length (filter (\<lambda>y. lr_Partition y = ?p) ?S) = length (filter (\<lambda>y. y = ?p) (map lr_Partition ?S))"
    by (simp_all add: filter_map o_def)
  hence len: "length (filter (\<lambda>y. kr_Partition y = ?p) ?L) = length (filter (\<lambda>y. lr_Partition y = ?p) ?S)"
    using IH(2) by simp
  have x: "kr_Key (g x) = keyBytes (fst (h x))" "in64 (fst (h x))" "seqFromHeaders (kr_Headers (g x)) = Some (snd (h x))"
    using snoc.prems by auto
  have "log_record ((g x)\<lparr>kr_Partition := ?p, kr_Offset := int (length (filter (\<lambda>y. kr_Partition y = ?p) ?L))\<rparr>) =
      Some \<lparr>lr_Partition = ?p, lr_Offset = int (length (filter (\<lambda>y. lr_Partition y = ?p) ?S)), lr_Key = fst (h x), lr_Seq = snd (h x)\<rparr>"
    using x len by (simp add: log_record_def record_key.dec_enc)
  thus ?case
    using IH x(1) by (simp add: broker_log_snoc broker_append_def stored_snoc store_step_def map_filter_snoc)
qed (simp add: broker_log_def map_filter_simps)

lemma map_filter_mset: "mset xs = mset ys \<Longrightarrow> mset (List.map_filter f xs) = mset (List.map_filter f ys)"
  by (simp only: map_filter_def mset_map mset_filter)

lemma filter_eq_upt: "filter (\<lambda>i. i = a) [0..<m] = (if a < m then [a] else [])"
  by (induction m) auto

lemma filter_batch_key:
  assumes "0 < n"
  shows "filter (\<lambda>i. k * n + int i = kk) [0..<nat n] = (if k = kk div n then [nat (kk mod n)] else [])"
proof (cases "k = kk div n")
  case True
  have "k * n + int i = kk \<longleftrightarrow> i = nat (kk mod n)" for i
  proof -
    have "k * n + kk mod n = kk" "0 \<le> kk mod n"
      using True assms by simp_all
    thus ?thesis
      by linarith
  qed
  thus ?thesis
    using True assms filter_eq_upt [of "nat (kk mod n)" "nat n"] by simp
next
  case False
  have "k * n + int i \<noteq> kk" if "i < nat n" for i
  proof
    assume "k * n + int i = kk"
    hence "kk div n = (k * n + int i) div n"
      by simp
    also have "\<dots> = k"
      using that assms by simp
    finally show False
      using False by simp
  qed
  thus ?thesis
    using False by (simp add: filter_empty_conv)
qed

lemma item_seqs:
  assumes "0 < n"
  shows "map snd (filter (\<lambda>p. fst p = kk) (map (item_pair n) (batch_items n ops))) =
    map op_Seq (filter (\<lambda>op. op_Key op = kk div n) ops)"
proof (induction ops)
  case (Cons op ops)
  have "map snd (filter (\<lambda>p. fst p = kk) (map (item_pair n) (map (\<lambda>i. (op, int i)) [0..<nat n]))) =
      map (\<lambda>_. op_Seq op) (filter (\<lambda>i. op_Key op * n + int i = kk) [0..<nat n])"
    by (simp add: filter_map o_def)
  also have "\<dots> = (if op_Key op = kk div n then [op_Seq op] else [])"
    by (simp add: filter_batch_key [OF assms])
  finally show ?case
    using Cons by (simp add: batch_items_def)
qed (simp add: batch_items_def)

lemma log_record_batch:
  assumes "in64 (op_Seq op)"
  shows "seqFromHeaders (kr_Headers (batchRecordAt topic op i n)) = Some (op_Seq op)"
  using assms by (simp add: batchRecordAt_def seq_header.dec_enc)

lemma produced_log:
  assumes "ops_fit (batch_size c) ops"
  shows "List.map_filter log_record (broker_log part (concat (map (produce_records c) ops))) =
    stored (\<lambda>k. part (keyBytes k)) (map (item_pair (batch_size c)) (batch_items (batch_size c) ops))"
  unfolding produce_records_items [OF assms]
proof (rule conjunct1 [OF broker_log_decodes], intro ballI)
  fix x
  assume "x \<in> set (batch_items (batch_size c) ops)"
  hence "in64 (op_Key (fst x) * batch_size c + snd x)" "in64 (op_Seq (fst x))"
      "batch_key (fst x) (snd x) (batch_size c) = op_Key (fst x) * batch_size c + snd x"
    using batch_key_fits [OF assms, of "fst x" "snd x"] by simp_all
  thus "kr_Key (batchRecordAt (kc_topic c) (fst x) (snd x) (batch_size c)) = keyBytes (fst (item_pair (batch_size c) x)) \<and>
      in64 (fst (item_pair (batch_size c) x)) \<and>
      seqFromHeaders (kr_Headers (batchRecordAt (kc_topic c) (fst x) (snd x) (batch_size c))) = Some (snd (item_pair (batch_size c) x))"
    by (simp add: log_record_batch) (simp add: batchRecordAt_def)
qed

text \<open>Polls that deliver records without error until one finds none, or fails while the context is alive.\<close>

definition drains :: "poll list \<Rightarrow> KRecord list \<Rightarrow> bool" where
  "drains polls recs \<longleftrightarrow> (\<exists>ps p. polls = ps @ [p] \<and> recs = concat (map pl_records ps) \<and>
     (\<forall>q\<in>set ps. pl_ctxErr q = None \<and> pl_fetchErr q = None \<and> pl_records q \<noteq> []) \<and>
     pl_ctxErr p = None \<and> (if pl_fetchErr p = None then pl_records p = [] else pl_ctxErr2 p = None))"

lemma map_filter_append': "List.map_filter f (xs @ ys) = List.map_filter f xs @ List.map_filter f ys"
  by (simp add: map_filter_def)

lemma drainTopic_complete:
  assumes "drains polls recs"
  shows "drainTopic polls [] = Some (List.map_filter log_record recs, None)"
proof -
  obtain ps p where p: "polls = ps @ [p]" "recs = concat (map pl_records ps)"
      "\<forall>q\<in>set ps. pl_ctxErr q = None \<and> pl_fetchErr q = None \<and> pl_records q \<noteq> []"
      "pl_ctxErr p = None" "if pl_fetchErr p = None then pl_records p = [] else pl_ctxErr2 p = None"
    using assms unfolding drains_def by blast
  have "drainTopic (ps @ [p]) out = Some (out @ List.map_filter log_record (concat (map pl_records ps)), None)" for out
    using p(3)
  proof (induction ps arbitrary: out)
    case Nil
    thus ?case
      using p(4,5) by (auto simp: map_filter_simps split: option.splits)
  next
    case (Cons q ps)
    have "drainTopic ((q # ps) @ [p]) out = drainTopic (ps @ [p]) (out @ List.map_filter log_record (pl_records q))"
      using Cons.prems by simp
    also have "\<dots> = Some ((out @ List.map_filter log_record (pl_records q)) @ List.map_filter log_record (concat (map pl_records ps)), None)"
      using Cons.prems by (intro Cons.IH) simp
    finally show ?case
      by (simp add: map_filter_append')
  qed
  thus ?thesis
    using p(1,2) by simp
qed

section \<open>Properties\<close>

text \<open>C15: the analysis is exact. For a non-empty log within the integer range, and for every
  iteration order of the keys, the report counts for each key, in partition and offset order,
  exactly the sequence numbers missing between the lowest and the highest, the repetitions and
  the steps down; and it passes exactly when every key's numbers are an unbroken ascending run.\<close>

theorem analyzeLog_exact:
  assumes "recs \<noteq> []" "log_fits recs" "order_of (sc_seqs (scan_log recs)) ks"
  shows "vr_Lost (analyzeLog ks recs) = (\<Sum>k\<in>log_keys recs. int (missing (key_seqs k (log_order recs)))) \<and>
    vr_Duplicated (analyzeLog ks recs) = (\<Sum>k\<in>log_keys recs. int (repeated (key_seqs k (log_order recs)))) \<and>
    vr_OrderingViol (analyzeLog ks recs) = (\<Sum>k\<in>log_keys recs. int (descents (key_seqs k (log_order recs)))) \<and>
    (vr_Verdict (analyzeLog ks recs) = VerdictPass \<longleftrightarrow>
      (\<forall>k\<in>log_keys recs. \<exists>a. key_seqs k (log_order recs) = [a..a + int (length (key_seqs k (log_order recs))) - 1]))"
proof -
  have ks: "distinct ks" "set ks = log_keys recs"
    using assms(3) by (simp_all add: scan_log_order)
  show ?thesis
    using analyzeLog_tally [OF assms(1,2) ks] analyzeLog_pass [OF assms(1,2) ks] by blast
qed

theorem analyzeLog_exact_witness:
  "vr_Lost (analyzeLog [5] [\<lparr>lr_Partition = 0, lr_Offset = 0, lr_Key = 5, lr_Seq = 1\<rparr>,
     \<lparr>lr_Partition = 0, lr_Offset = 1, lr_Key = 5, lr_Seq = 3\<rparr>]) = 1"
proof -
  let ?recs = "[\<lparr>lr_Partition = 0, lr_Offset = 0, lr_Key = 5, lr_Seq = 1\<rparr>, \<lparr>lr_Partition = 0, lr_Offset = 1, lr_Key = 5, lr_Seq = 3\<rparr>]"
  have ne: "?recs \<noteq> []" and k: "log_keys ?recs = {5}" and s: "key_seqs 5 ?recs = [1, 3]" "key_seqs 5 (log_order ?recs) = [1, 3]"
    by (simp_all add: log_keys_def key_seqs_def log_order_def)
  have "order_of (sc_seqs (scan_log ?recs)) [5]" "log_fits ?recs"
    by (simp_all add: scan_log_order k log_fits_def s in64_def)
  from analyzeLog_exact [OF ne this(2,1)] show ?thesis
    by (simp add: k s missing_val [of "[1, 3]", simplified])
qed

text \<open>C16: no false alarm. Let the operations of each key carry consecutive sequence numbers, let
  the broker store the produced records, batched or not, by key and in order, and let the consumer
  receive them in any order. Then the verification of the run passes.\<close>

theorem fault_free_log_passes:
  assumes "ops \<noteq> []" "ops_fit (batch_size c) ops"
    "\<forall>k. \<exists>a. map op_Seq (filter (\<lambda>op. op_Key op = k) ops) = [a..a + int (length (filter (\<lambda>op. op_Key op = k) ops)) - 1]"
    "mset recs = mset (broker_log part (concat (map (produce_records c) ops)))" "drains polls recs"
    "kafka_resolve cfg = Inr rc" "order_of (sc_seqs (scan_log (List.map_filter log_record recs))) ks"
  shows "\<exists>rep. kafka_Verify cfg None polls ks = Some (rep, None) \<and> vr_Verdict rep = VerdictPass"
proof -
  let ?n = "batch_size c" and ?recs = "List.map_filter log_record recs"
  let ?ps = "map (item_pair ?n) (batch_items ?n ops)"
  have n: "0 < ?n"
    using batch_size_pos [of c] by simp
  have m: "mset ?recs = mset (stored (\<lambda>k. part (keyBytes k)) ?ps)"
    using map_filter_mset [OF assms(4), of log_record] produced_log [OF assms(2), of part] by simp
  have l: "length (batch_items ?n ops) = length ops * nat ?n" for ops
    by (induction ops) (simp_all add: batch_items_def)
  have "vr_Verdict (analyzeLog ks ?recs) = VerdictPass"
  proof (rule stored_pass [OF m])
    have "length ?ps = length ops * nat ?n"
      by (simp add: l)
    moreover have "0 < length ops * nat ?n"
      using assms(1) n by simp
    ultimately show "?ps \<noteq> []" "in64 (int (length ?ps))"
      using assms(2) n by (auto simp: ops_fit_def)
    show "distinct ks" "set ks = log_keys ?recs"
      using assms(7) by (simp_all add: scan_log_order)
    show "\<exists>a. map snd (filter (\<lambda>p. fst p = k) ?ps) = [a..a + int (length (filter (\<lambda>p. fst p = k) ?ps)) - 1]" for k
    proof -
      have "length (filter (\<lambda>p. fst p = k) ?ps) = length (map snd (filter (\<lambda>p. fst p = k) ?ps))"
        by (simp only: length_map)
      thus ?thesis
        using assms(3) by (simp only: item_seqs [OF n] length_map)
    qed
  qed
  thus ?thesis
    using assms(6) drainTopic_complete [OF assms(5)] by (simp add: kafka_Verify_def)
qed

theorem fault_free_log_passes_witness:
  "\<exists>c part cfg polls ks rep. polls \<noteq> [] \<and> batch_size c = 2 \<and>
     drains polls (broker_log part (concat (map (produce_records c)
       [\<lparr>op_Type = ''wb'', op_Key = 3, op_Value = [7], op_Seq = 1, op_Args = Map.empty\<rparr>]))) \<and>
     kafka_Verify cfg None polls ks = Some (rep, None) \<and> vr_Verdict rep = VerdictPass"
proof -
  let ?ops = "[\<lparr>op_Type = ''wb'', op_Key = 3, op_Value = [7], op_Seq = 1, op_Args = Map.empty\<rparr>] :: Operation list"
  let ?c = "\<lparr>kc_topic = ''t'', kc_transactional = False, kc_grouped = False, kc_batchSize = 2\<rparr>"
  let ?part = "\<lambda>_ :: u8 list. 0 :: int"
  let ?cfg = "\<lparr>cfg_Endpoints = [], cfg_Consistency = '''', cfg_Cluster = \<lparr>cs_Nodes = [], cs_ReplicationFactor = 1, cs_Consistency = []\<rparr>,
    cfg_Params = Map.empty\<rparr> :: Config"
  let ?recs = "broker_log ?part (concat (map (produce_records ?c) ?ops))"
  let ?polls = "[\<lparr>pl_ctxErr = None, pl_fetchErr = None, pl_ctxErr2 = None, pl_records = ?recs\<rparr>,
    \<lparr>pl_ctxErr = None, pl_fetchErr = None, pl_ctxErr2 = None, pl_records = []\<rparr>]"
  have n: "batch_size ?c = 2"
    by (simp add: batch_size_def)
  have fit: "ops_fit (batch_size ?c) ?ops"
    by (simp add: ops_fit_def n in64_def)
  have seqs: "\<forall>k. \<exists>a. map op_Seq (filter (\<lambda>op. op_Key op = k) ?ops) = [a..a + int (length (filter (\<lambda>op. op_Key op = k) ?ops)) - 1]"
    by (auto intro: exI [of _ 1])
  have ne: "?recs \<noteq> []"
    by (simp add: produce_records_def broker_log_def broker_append_def numeral_2_eq_2)
  hence d: "drains ?polls ?recs"
    unfolding drains_def by (intro exI [of _ "butlast ?polls"] exI [of _ "last ?polls"]) simp
  obtain rc where rc: "kafka_resolve ?cfg = Inr rc"
    by (simp add: kafka_resolve_def parseAcks_def trim_space_def to_lower_def Let_def)
  have "log_keys (List.map_filter log_record ?recs) = fst ` set (map (item_pair 2) (batch_items 2 ?ops))"
    unfolding produced_log [OF fit] n by (rule stored_keys [OF refl])
  also have "\<dots> = set [6, 7]"
    by (simp add: batch_items_def upt_rec)
  finally have ks: "order_of (sc_seqs (scan_log (List.map_filter log_record ?recs))) [6, 7]"
    by (simp add: scan_log_order)
  from fault_free_log_passes [OF _ fit seqs refl d rc ks] d n show ?thesis
    by (intro exI [of _ ?c] exI [of _ ?part] exI [of _ ?cfg] exI [of _ ?polls] exI [of _ "[6, 7]"]) blast
qed



text \<open>The resolved configuration is one Kafka accepts. It has a broker and a batch of at least one
  record; a transactional producer is idempotent, an idempotent producer waits for all replicas, and
  the client options turn idempotence off exactly when the configuration does; an unknown
  consistency level is an error.\<close>

lemma resolve_consistent:
  "case kafka_resolve cfg of
     Inl e \<Rightarrow> to_lower (trim_space (cfg_Consistency cfg)) \<notin>
       {'''', ''acks=all'', ''all'', ''-1'', ''acks=1'', ''1'', ''leader'', ''acks=0'', ''0'', ''none''}
   | Inr rc \<Rightarrow> rc_brokers rc \<noteq> [] \<and> 1 \<le> rc_batchSize rc \<and> tc_Name (rc_topic rc) \<noteq> '''' \<and>
       (rc_txnID rc \<noteq> '''' \<longrightarrow> rc_idempotent rc) \<and> (rc_idempotent rc \<longrightarrow> rc_acks rc = ackAll) \<and>
       (DisableIdempotentWrite \<in> set (clientOpts rc) \<longleftrightarrow> \<not> rc_idempotent rc) \<and>
       RequiredAcks (rc_acks rc) \<in> set (clientOpts rc) \<and>
       (\<forall>x. TransactionalID x \<in> set (clientOpts rc) \<longleftrightarrow> x = rc_txnID rc \<and> x \<noteq> '''')"
proof (cases "parseAcks (cfg_Consistency cfg)")
  case (Inl e)
  thus ?thesis
    by (auto simp: kafka_resolve_def parseAcks_def Let_def split: if_splits)
next
  case (Inr acks)
  have rc: "brokersFrom cfg \<noteq> []" "1 \<le> batchSizeFrom cfg" "tc_Name (topicConfigFrom cfg) \<noteq> ''''"
    by (simp_all add: brokersFrom_def batchSizeFrom_def topicConfigFrom_def Let_def)
  let ?txn = "firstNonEmpty [paramString (cfg_Params cfg) ''transactional_id'', paramString (cfg_Params cfg) ''txn_id'']"
  show ?thesis
  proof (cases "?txn = ''''")
    case True
    thus ?thesis
      using rc by (cases acks) (simp_all add: kafka_resolve_def Inr Let_def clientOpts_def del: firstNonEmpty.simps)
  next
    case False
    thus ?thesis
      using rc by (auto simp: kafka_resolve_def Inr Let_def clientOpts_def simp del: firstNonEmpty.simps)
  qed
qed

text \<open>A produce is all or nothing. It reports success with the whole batch counted exactly when
  the transaction, if there is one, was begun, all records were acknowledged and the transaction
  was committed; in every other case it reports an error and no rows, and a failed produce is aborted.\<close>

lemma produce_outcome:
  "produce cl c op w = (res, w') \<longrightarrow>
     (let n = int (length (produce_records c op)); (be, w1) = (if kc_transactional c then kl_Begin cl w else (None, w));
          (pe, w2) = kl_ProduceSync cl (produce_records c op) w1; (ce, w3) = kl_End cl True w2
      in n = batch_size c \<and> (r_Err res = None \<longleftrightarrow> be = None \<and> pe = None \<and> (kc_transactional c \<longrightarrow> ce = None)) \<and>
         r_Rows res = (if r_Err res = None then n else 0) \<and>
         (be = None \<and> pe \<noteq> None \<and> kc_transactional c \<longrightarrow> w' = snd (kl_End cl False w2)))"
proof -
  have "int (length (produce_records c op)) = batch_size c"
    by (simp add: produce_records_def batch_size_def Let_def)
  thus ?thesis
    by (auto simp: produce_def Let_def split: prod.splits option.splits if_splits)
qed

text \<open>Any fetch error while the context is alive, not only the idle timeout, ends the drain as if the
  topic were exhausted: what was not read yet is not checked and no error is reported.\<close>

theorem fetch_error_ends_drain:
  assumes "pl_ctxErr p = None" "pl_fetchErr p = Some e" "pl_ctxErr2 p = None"
  shows "drainTopic (p # ps) out = Some (out, None)"
  using assms by simp

end
