(* ===== verification/Reconciliation.thy ===== *)
theory Reconciliation
  imports Domain
begin

text \<open>
  The reconciliation model of \<open>core/verify\<close>: the content hash, the expectation log
  reduced to the last write per key, the read-back of every expected key and the
  replica convergence check. The target is a record of the calls the checker
  makes, each threading the target's state; \<open>json.Unmarshal\<close> of a log line is the
  argument \<open>unmarshal\<close>. A range over a map follows the order given as an argument.
\<close>

unbundle bit_operations_syntax

section \<open>Definitions\<close>

subsection \<open>Content hash\<close>

fun fnv1a :: "u64 \<Rightarrow> u8 list \<Rightarrow> u64" where
  "fnv1a h [] = h"
| "fnv1a h (b # bs) = fnv1a ((h XOR ucast b) * 1099511628211) bs"

definition Checksum :: "u8 list \<Rightarrow> u64" where
  "Checksum b = fnv1a 14695981039346656037 b"

subsection \<open>Expectation log\<close>

record WriteRecord =
  wr_Key :: int
  wr_Checksum :: u64
  wr_Seq :: int

type_synonym expectation = "int \<Rightarrow> WriteRecord option"

definition log_insert :: "expectation \<Rightarrow> WriteRecord \<Rightarrow> expectation" where
  "log_insert expected rec =
     (case expected (wr_Key rec) of
        None \<Rightarrow> expected(wr_Key rec \<mapsto> rec)
      | Some cur \<Rightarrow> if wr_Seq rec \<ge> wr_Seq cur then expected(wr_Key rec \<mapsto> rec) else expected)"

text \<open>The scan over the lines; \<^const>\<open>Inl\<close> carries the number of the line that does not parse.\<close>

fun readLog_loop :: "(string \<Rightarrow> WriteRecord option) \<Rightarrow> nat \<Rightarrow> string list \<Rightarrow> expectation \<Rightarrow> nat + expectation" where
  "readLog_loop unmarshal line [] expected = Inr expected"
| "readLog_loop unmarshal line (b # bs) expected =
     (if length b = 0 then readLog_loop unmarshal (Suc line) bs expected
      else case unmarshal b of
             None \<Rightarrow> Inl line
           | Some rec \<Rightarrow> readLog_loop unmarshal (Suc line) bs (log_insert expected rec))"

definition readLog :: "(string \<Rightarrow> WriteRecord option) \<Rightarrow> string list \<Rightarrow> nat + expectation" where
  "readLog unmarshal ls = readLog_loop unmarshal 1 ls Map.empty"

text \<open>\<open>LogWriter.Record\<close> appends the record as one line; the runner's observer
  (\<open>writeLogObserver\<close> of \<open>core/cli\<close>) records every write that carries a value and succeeded.\<close>

definition LogWriter_Record :: "(WriteRecord \<Rightarrow> string) \<Rightarrow> WriteRecord \<Rightarrow> string list \<Rightarrow> string list" where
  "LogWriter_Record encode r ls = ls @ [encode r]"

definition writeLogObserver_Observe ::
  "(WriteRecord \<Rightarrow> string) \<Rightarrow> Operation \<Rightarrow> OpResult \<Rightarrow> string list \<Rightarrow> string list" where
  "writeLogObserver_Observe encode op res ls =
     (if r_Err res \<noteq> None \<or> length (op_Value op) = 0 then ls
      else LogWriter_Record encode
             \<lparr>wr_Key = op_Key op, wr_Checksum = Checksum (op_Value op), wr_Seq = op_Seq op\<rparr> ls)"

subsection \<open>The target\<close>

record 's target_env =
  te_Connect :: "'s \<Rightarrow> err option \<times> 's"
  te_Prepare :: "Workload \<Rightarrow> 's \<Rightarrow> err option \<times> 's"
  te_Execute :: "Operation \<Rightarrow> 's \<Rightarrow> OpResult \<times> 's"
  te_Close :: "'s \<Rightarrow> 's"
  te_Nodes :: "Node list option"
  te_ReadKeyFrom :: "Node \<Rightarrow> int \<Rightarrow> 's \<Rightarrow> (err + OpResult) \<times> 's"
  te_Now :: "'s \<Rightarrow> instant \<times> 's"
  te_Poll :: "'s \<Rightarrow> err option \<times> 's"

record Options =
  o_ReadOp :: OpType
  o_Workload :: Workload
  o_ConvergenceSample :: int
  o_ConvergenceTimeout :: duration

definition convergePoll :: duration where
  "convergePoll = 5000000"

subsection \<open>Read-back\<close>

definition coerceBytes :: "any \<Rightarrow> u8 list \<times> bool" where
  "coerceBytes v = (case v of
      ABytes x \<Rightarrow> (x, True)
    | AStr x \<Rightarrow> (bytes_of x, True)
    | _ \<Rightarrow> ([], False))"

definition witness :: "int \<Rightarrow> string" where
  "witness key = fmt_int key"

definition read_op :: "Options \<Rightarrow> int \<Rightarrow> Operation" where
  "read_op o1 key = \<lparr>op_Type = o_ReadOp o1, op_Key = key, op_Value = [], op_Seq = 0, op_Args = Map.empty\<rparr>"

definition loss_anomaly :: "int \<Rightarrow> Anomaly" where
  "loss_anomaly key = \<lparr>an_Kind = ''data-loss'',
     an_Detail = ''key '' @ fmt_int key @ '' absent on read-back'', an_Witness = [witness key]\<rparr>"

definition corruption_anomaly :: "int \<Rightarrow> u64 \<Rightarrow> u64 \<Rightarrow> Anomaly" where
  "corruption_anomaly key got want = \<lparr>an_Kind = ''corruption'',
     an_Detail = ''key '' @ fmt_int key @ '' checksum '' @ fmt_nat (unat got) @ '', expected '' @ fmt_nat (unat want),
     an_Witness = [witness key]\<rparr>"

definition check_read :: "int \<Rightarrow> WriteRecord \<Rightarrow> OpResult \<Rightarrow> VerifyReport \<Rightarrow> VerifyReport" where
  "check_read key want res report =
     (let (b, present) = coerceBytes (r_Observed res)
      in if r_Err res \<noteq> None \<or> \<not> present
         then report\<lparr>vr_Lost := vr_Lost report + 1, vr_Anomalies := vr_Anomalies report @ [loss_anomaly key]\<rparr>
         else let got = Checksum b
              in if got \<noteq> wr_Checksum want
                 then report\<lparr>vr_Anomalies := vr_Anomalies report @ [corruption_anomaly key got (wr_Checksum want)]\<rparr>
                 else report)"

fun readBack :: "'s target_env \<Rightarrow> expectation \<Rightarrow> Options \<Rightarrow> int list \<Rightarrow> VerifyReport \<Rightarrow> 's \<Rightarrow> VerifyReport \<times> 's" where
  "readBack env expected o1 [] report s = (report, s)"
| "readBack env expected o1 (key # ks) report s =
     (let (res, s') = te_Execute env (read_op o1 key) s
      in readBack env expected o1 ks (check_read key (the (expected key)) res report) s')"

subsection \<open>Convergence\<close>

fun nodesAgree_loop :: "'s target_env \<Rightarrow> int \<Rightarrow> u64 option \<Rightarrow> Node list \<Rightarrow> 's \<Rightarrow> (err + bool) \<times> 's" where
  "nodesAgree_loop env key first [] s = (Inr True, s)"
| "nodesAgree_loop env key first (n # ns) s =
     (case te_ReadKeyFrom env n key s of
        (Inl e, s') \<Rightarrow> (Inl e, s')
      | (Inr res, s') \<Rightarrow>
          (let sum = Checksum (fst (coerceBytes (r_Observed res)))
           in case first of
                None \<Rightarrow> nodesAgree_loop env key (Some sum) ns s'
              | Some f \<Rightarrow> if sum \<noteq> f then (Inr False, s') else nodesAgree_loop env key first ns s'))"

definition nodesAgree :: "'s target_env \<Rightarrow> Node list \<Rightarrow> int \<Rightarrow> 's \<Rightarrow> (err + bool) \<times> 's" where
  "nodesAgree env nodes key s = nodesAgree_loop env key None nodes s"

definition since :: "'s target_env \<Rightarrow> instant \<Rightarrow> 's \<Rightarrow> duration \<times> 's" where
  "since env start s = (let (now, s') = te_Now env s in (time_sub now start, s'))"

partial_function (option) convergeKey_loop ::
  "'s target_env \<Rightarrow> Node list \<Rightarrow> int \<Rightarrow> duration \<Rightarrow> instant \<Rightarrow> 's \<Rightarrow> ((bool \<times> duration \<times> err option) \<times> 's) option" where
  "convergeKey_loop env nodes key timeout start s =
     (let (r, s1) = nodesAgree env nodes key s in
      case r of
        Inl e \<Rightarrow> (let (d, s2) = since env start s1 in Some ((False, d, Some e), s2))
      | Inr agree \<Rightarrow>
          if agree then (let (d, s2) = since env start s1 in Some ((True, d, None), s2))
          else if timeout \<le> 0 then (let (d, s2) = since env start s1 in Some ((False, d, None), s2))
          else (let (now, s2) = te_Now env s1 in
                if \<not> now < start + timeout then (let (d, s3) = since env start s2 in Some ((False, d, None), s3))
                else (let (p, s3) = te_Poll env s2 in
                      case p of
                        Some e \<Rightarrow> (let (d, s4) = since env start s3 in Some ((False, d, Some e), s4))
                      | None \<Rightarrow> convergeKey_loop env nodes key timeout start s3)))"

definition convergeKey ::
  "'s target_env \<Rightarrow> Node list \<Rightarrow> int \<Rightarrow> duration \<Rightarrow> 's \<Rightarrow> ((bool \<times> duration \<times> err option) \<times> 's) option" where
  "convergeKey env nodes key timeout s =
     (let (start, s1) = te_Now env s in convergeKey_loop env nodes key timeout start s1)"

fun sampleKeys :: "int list \<Rightarrow> int \<Rightarrow> int list \<Rightarrow> int list" where
  "sampleKeys out n [] = out"
| "sampleKeys out n (k # ks) = (if int (length out) \<ge> n then out else sampleKeys (out @ [k]) n ks)"

definition divergence_anomaly :: "int \<Rightarrow> duration \<Rightarrow> Anomaly" where
  "divergence_anomaly key timeout = \<lparr>an_Kind = ''divergence'',
     an_Detail = ''key '' @ fmt_int key @ '' replicas did not converge within '' @ duration_String timeout,
     an_Witness = [witness key]\<rparr>"

fun converge_loop ::
  "'s target_env \<Rightarrow> Node list \<Rightarrow> duration \<Rightarrow> int list \<Rightarrow> duration \<Rightarrow> VerifyReport \<Rightarrow> 's \<Rightarrow> (duration \<times> VerifyReport \<times> 's) option" where
  "converge_loop env nodes timeout [] maxStale report s = Some (maxStale, report, s)"
| "converge_loop env nodes timeout (key # ks) maxStale report s =
     (case convergeKey env nodes key timeout s of
        None \<Rightarrow> None
      | Some ((converged, dur, e), s') \<Rightarrow>
          converge_loop env nodes timeout ks (if dur > maxStale then dur else maxStale)
            (if e \<noteq> None \<or> \<not> converged
             then report\<lparr>vr_Anomalies := vr_Anomalies report @ [divergence_anomaly key timeout]\<rparr>
             else report) s')"

definition checkConvergence ::
  "'s target_env \<Rightarrow> Node list \<Rightarrow> int list \<Rightarrow> Options \<Rightarrow> VerifyReport \<Rightarrow> 's \<Rightarrow> (VerifyReport \<times> 's) option" where
  "checkConvergence env nodes order o1 report s =
     (if length nodes \<le> 1 \<or> o_ConvergenceSample o1 \<le> 0 then Some (report, s)
      else (let (start, s1) = te_Now env s in
            case converge_loop env nodes (o_ConvergenceTimeout o1)
                   (sampleKeys [] (o_ConvergenceSample o1) order) 0 report s1 of
              None \<Rightarrow> None
            | Some (maxStale, report', s2) \<Rightarrow>
                (let (d, s3) = since env start s2
                 in Some (report'\<lparr>vr_MaxStaleness := maxStale, vr_ConvergedIn := d\<rparr>, s3))))"

subsection \<open>Reconcile\<close>

definition reconcile_verdict :: "VerifyReport \<Rightarrow> VerifyReport" where
  "reconcile_verdict report =
     report\<lparr>vr_Verdict := (if vr_Lost report > 0 \<or> length (vr_Anomalies report) > 0 then VerdictFail else VerdictPass)\<rparr>"

text \<open>\<open>order\<close> and \<open>order'\<close> are the two iteration orders over the expected keys. The verdict of
  the report before it is decided is the empty string of the source, here \<^const>\<open>VerdictUnknown\<close>.\<close>

definition Reconcile ::
  "'s target_env \<Rightarrow> expectation \<Rightarrow> int list \<Rightarrow> int list \<Rightarrow> Options \<Rightarrow> 's \<Rightarrow> ((err + VerifyReport) \<times> 's) option" where
  "Reconcile env expected order order' o1 s =
     (let report = (new_report VerifyReconciliation VerdictUnknown)\<lparr>vr_Checked := int (length order)\<rparr>;
          (ce, s1) = te_Connect env s
      in case ce of Some e \<Rightarrow> Some (Inl e, s1) | None \<Rightarrow>
         (let (pe, s2) = te_Prepare env (o_Workload o1) s1
          in case pe of Some e \<Rightarrow> Some (Inl e, te_Close env s2) | None \<Rightarrow>
             (let (report1, s3) = readBack env expected o1 order report s2
              in case (case te_Nodes env of
                         None \<Rightarrow> Some (report1, s3)
                       | Some nodes \<Rightarrow> checkConvergence env nodes order' o1 report1 s3) of
                   None \<Rightarrow> None
                 | Some (report2, s4) \<Rightarrow> Some (Inr (reconcile_verdict report2), te_Close env s4))))"

subsection \<open>Specification vocabulary\<close>

text \<open>
  The sequence of results a target gives to the read-back, when such a result
  confirms the expected record, and the sequence of convergence outcomes. A
  polling clock is one whose readings never go back and that a completed poll
  wait advances by at least the poll interval.
\<close>

fun read_results :: "'s target_env \<Rightarrow> Options \<Rightarrow> int list \<Rightarrow> 's \<Rightarrow> OpResult list \<times> 's" where
  "read_results env o1 [] s = ([], s)"
| "read_results env o1 (key # ks) s =
     (let (res, s1) = te_Execute env (read_op o1 key) s; (rs, s2) = read_results env o1 ks s1 in (res # rs, s2))"

definition read_lost :: "OpResult \<Rightarrow> bool" where
  "read_lost res \<longleftrightarrow> r_Err res \<noteq> None \<or> \<not> snd (coerceBytes (r_Observed res))"

definition read_fine :: "WriteRecord \<Rightarrow> OpResult \<Rightarrow> bool" where
  "read_fine want res \<longleftrightarrow> \<not> read_lost res \<and> Checksum (fst (coerceBytes (r_Observed res))) = wr_Checksum want"

definition read_anomalies :: "int \<Rightarrow> WriteRecord \<Rightarrow> OpResult \<Rightarrow> Anomaly list" where
  "read_anomalies k want res =
     (if read_lost res then [loss_anomaly k]
      else if read_fine want res then []
      else [corruption_anomaly k (Checksum (fst (coerceBytes (r_Observed res)))) (wr_Checksum want)])"

fun converge_results ::
  "'s target_env \<Rightarrow> Node list \<Rightarrow> duration \<Rightarrow> int list \<Rightarrow> 's \<Rightarrow> ((bool \<times> duration \<times> err option) list \<times> 's) option" where
  "converge_results env nodes timeout [] s = Some ([], s)"
| "converge_results env nodes timeout (key # ks) s =
     (case convergeKey env nodes key timeout s of None \<Rightarrow> None
      | Some (r, s1) \<Rightarrow> map_option (map_prod ((#) r) id) (converge_results env nodes timeout ks s1))"

definition converged_ok :: "bool \<times> duration \<times> err option \<Rightarrow> bool" where
  "converged_ok r \<longleftrightarrow> fst r \<and> snd (snd r) = None"

definition replicas_ok :: "'s target_env \<Rightarrow> int list \<Rightarrow> Options \<Rightarrow> 's \<Rightarrow> bool" where
  "replicas_ok env order o1 s = (case te_Nodes env of
      None \<Rightarrow> True
    | Some nodes \<Rightarrow> length nodes \<le> 1 \<or> o_ConvergenceSample o1 \<le> 0 \<or>
        (case converge_results env nodes (o_ConvergenceTimeout o1)
                (sampleKeys [] (o_ConvergenceSample o1) order) (snd (te_Now env s)) of
           None \<Rightarrow> False
         | Some (cs, _) \<Rightarrow> \<forall>r\<in>set cs. converged_ok r))"

definition polling_clock :: "'s target_env \<Rightarrow> ('s \<Rightarrow> instant) \<Rightarrow> bool" where
  "polling_clock env clk \<longleftrightarrow>
     (\<forall>s. fst (te_Now env s) = clk s \<and> clk s \<le> clk (snd (te_Now env s))) \<and>
     (\<forall>n k s. clk s \<le> clk (snd (te_ReadKeyFrom env n k s))) \<and>
     (\<forall>s. fst (te_Poll env s) = None \<longrightarrow> clk s + convergePoll \<le> clk (snd (te_Poll env s)))"

text \<open>A sequence of operations against a target with the write-log observer attached.\<close>

fun exec_logged ::
  "(Operation \<Rightarrow> 's \<Rightarrow> OpResult \<times> 's) \<Rightarrow> (WriteRecord \<Rightarrow> string) \<Rightarrow> Operation list \<Rightarrow> 's \<Rightarrow> string list \<Rightarrow> 's \<times> string list" where
  "exec_logged exec encode [] s ls = (s, ls)"
| "exec_logged exec encode (op # ops) s ls =
     (let (res, s') = exec op s in exec_logged exec encode ops s' (writeLogObserver_Observe encode op res ls))"

section \<open>The expectation log\<close>

definition latest_for :: "WriteRecord list \<Rightarrow> int \<Rightarrow> WriteRecord \<Rightarrow> bool" where
  "latest_for recs k r \<longleftrightarrow> (\<exists>pre post. recs = pre @ r # post \<and> wr_Key r = k \<and>
     (\<forall>q\<in>set pre. wr_Key q = k \<longrightarrow> wr_Seq q \<le> wr_Seq r) \<and> (\<forall>q\<in>set post. wr_Key q = k \<longrightarrow> wr_Seq q < wr_Seq r))"

lemma latest_for_max: "latest_for recs k r \<Longrightarrow> r \<in> set recs \<and> wr_Key r = k \<and>
    (\<forall>q\<in>set recs. wr_Key q = k \<longrightarrow> wr_Seq q \<le> wr_Seq r)"
  by (fastforce simp: latest_for_def)

lemma latest_for_unique: "latest_for recs k r \<Longrightarrow> latest_for recs k r' \<Longrightarrow> r = r'"
proof -
  assume a: "latest_for recs k r" "latest_for recs k r'"
  obtain p q where r: "recs = p @ r # q" "\<forall>x\<in>set q. wr_Key x = k \<longrightarrow> wr_Seq x < wr_Seq r" "wr_Key r = k"
    using a(1) unfolding latest_for_def by blast
  obtain p' q' where r': "recs = p' @ r' # q'" "\<forall>x\<in>set q'. wr_Key x = k \<longrightarrow> wr_Seq x < wr_Seq r'" "wr_Key r' = k"
    using a(2) unfolding latest_for_def by blast
  have eq: "wr_Seq r = wr_Seq r'"
    using latest_for_max [OF a(1)] latest_for_max [OF a(2)] by (auto intro: antisym)
  have "r' \<notin> set q" "r \<notin> set q'"
    using r(2,3) r'(2,3) eq by auto
  thus "r = r'"
    using r(1) r'(1) by (auto simp: append_eq_append_conv2 Cons_eq_append_conv append_eq_Cons_conv)
qed

lemma latest_for_snoc:
  assumes "latest_for recs k r" "wr_Key x = k \<longrightarrow> wr_Seq x < wr_Seq r"
  shows "latest_for (recs @ [x]) k r"
proof -
  obtain p q where "recs = p @ r # q" "wr_Key r = k" "\<forall>y\<in>set p. wr_Key y = k \<longrightarrow> wr_Seq y \<le> wr_Seq r"
      "\<forall>y\<in>set q. wr_Key y = k \<longrightarrow> wr_Seq y < wr_Seq r"
    using assms(1) unfolding latest_for_def by blast
  thus ?thesis
    unfolding latest_for_def using assms(2) by (intro exI [of _ p] exI [of _ "q @ [x]"]) auto
qed

lemma latest_for_new:
  "wr_Key x = k \<Longrightarrow> \<forall>q\<in>set recs. wr_Key q = k \<longrightarrow> wr_Seq q \<le> wr_Seq x \<Longrightarrow> latest_for (recs @ [x]) k x"
  unfolding latest_for_def by (intro exI [of _ recs] exI [of _ "[]"]) auto

lemma log_insert_apply:
  "log_insert m x k = (if wr_Key x = k then (case m k of None \<Rightarrow> Some x
     | Some cur \<Rightarrow> if wr_Seq x \<ge> wr_Seq cur then Some x else Some cur) else m k)"
  by (auto simp: log_insert_def split: option.splits)

lemma foldl_log_insert:
  "(\<exists>r. foldl log_insert Map.empty recs k = Some r \<and> latest_for recs k r) \<or>
   (foldl log_insert Map.empty recs k = None \<and> (\<forall>q\<in>set recs. wr_Key q \<noteq> k))"
proof (induction recs rule: rev_induct)
  case (snoc x recs)
  let ?m = "foldl log_insert Map.empty recs"
  show ?case
  proof (cases "?m k")
    case None
    hence "\<forall>q\<in>set recs. wr_Key q \<noteq> k"
      using snoc.IH by auto
    thus ?thesis
      using None latest_for_new [of x k recs] log_insert_apply [of ?m x k] by auto
  next
    case (Some r)
    hence l: "latest_for recs k r"
      using snoc.IH by auto
    have "latest_for (recs @ [x]) k x" if "wr_Key x = k" "wr_Seq r \<le> wr_Seq x"
      using latest_for_new [OF that(1)] latest_for_max [OF l] that(2) by force
    thus ?thesis
      using Some l latest_for_snoc [OF l, of x] log_insert_apply [of ?m x k] by auto
  qed
qed simp

lemma foldl_log_insert_iff: "foldl log_insert Map.empty recs k = Some r \<longleftrightarrow> latest_for recs k r"
  using foldl_log_insert [of recs k] latest_for_unique [of recs k] latest_for_max [of recs k] by force

lemma readLog_loop_encoded:
  assumes "\<forall>r\<in>set recs. encode r \<noteq> [] \<and> unmarshal (encode r) = Some r"
  shows "readLog_loop unmarshal line (map encode recs) m = Inr (foldl log_insert m recs)"
  using assms by (induction recs arbitrary: line m) auto

section \<open>Read-back\<close>

lemma readBack_results:
  assumes "read_results env o1 ks s = (rs, s')"
  shows "readBack env expected o1 ks report s =
    (foldl (\<lambda>rep (k, res). check_read k (the (expected k)) res rep) report (zip ks rs), s') \<and> length rs = length ks"
  using assms
proof (induction ks arbitrary: report s rs)
  case (Cons k ks)
  obtain res s1 where e: "te_Execute env (read_op o1 k) s = (res, s1)"
    by fastforce
  obtain rs1 where r: "read_results env o1 ks s1 = (rs1, s')" "rs = res # rs1"
    using Cons.prems e by (auto split: prod.splits)
  show ?case
    using Cons.IH [OF r(1)] e r(2) by simp
qed simp

lemma check_read_val:
  "check_read k want res rep = rep\<lparr>vr_Lost := vr_Lost rep + (if read_lost res then 1 else 0),
     vr_Anomalies := vr_Anomalies rep @ read_anomalies k want res\<rparr>"
  by (auto simp: check_read_def read_lost_def read_fine_def read_anomalies_def Let_def split: prod.splits)

lemma foldl_check_read:
  "foldl (\<lambda>rep (k, res). check_read k (the (expected k)) res rep) rep xs =
    rep\<lparr>vr_Lost := vr_Lost rep + int (length (filter (read_lost \<circ> snd) xs)),
       vr_Anomalies := vr_Anomalies rep @ concat (map (\<lambda>(k, res). read_anomalies k (the (expected k)) res) xs)\<rparr>"
  by (induction xs arbitrary: rep) (auto simp: check_read_val)

lemma readBack_val:
  assumes "read_results env o1 ks s = (rs, s')"
  shows "readBack env expected o1 ks report s =
    (report\<lparr>vr_Lost := vr_Lost report + int (length (filter read_lost rs)),
       vr_Anomalies := vr_Anomalies report @
         concat (map (\<lambda>(k, res). read_anomalies k (the (expected k)) res) (zip ks rs))\<rparr>, s') \<and> length rs = length ks"
proof -
  have r: "length rs = length ks"
    using readBack_results [OF assms] by blast
  have "length (filter (read_lost \<circ> snd) (zip ks rs)) = length (filter read_lost rs)"
    using r by (metis filter_map length_map map_snd_zip)
  thus ?thesis
    using readBack_results [OF assms, of expected report] by (simp add: foldl_check_read)
qed

lemma read_anomalies_Nil [simp]: "read_anomalies k want res = [] \<longleftrightarrow> read_fine want res"
  by (auto simp: read_anomalies_def read_fine_def)

section \<open>Convergence polling ends\<close>

lemma nodesAgree_clock:
  assumes "polling_clock env clk"
  shows "clk s \<le> clk (snd (nodesAgree_loop env key first ns s))"
proof (induction ns arbitrary: first s)
  case (Cons n ns)
  obtain r s' where r: "te_ReadKeyFrom env n key s = (r, s')"
    by fastforce
  have "clk s \<le> clk s'"
    using assms r unfolding polling_clock_def by (metis snd_conv)
  thus ?case
    using r Cons.IH by (auto simp: Let_def split: sum.splits option.splits intro: order_trans)
qed simp

lemma convergeKey_loop_returns:
  assumes "polling_clock env clk" "start + timeout \<le> clk s + int fuel * convergePoll"
  shows "\<exists>r. convergeKey_loop env nodes key timeout start s = Some r"
  using assms(2)
proof (induction fuel arbitrary: s)
  case (0 s)
  obtain r s1 where r: "nodesAgree env nodes key s = (r, s1)"
    by fastforce
  obtain now s2 where n: "te_Now env s1 = (now, s2)"
    by fastforce
  have "clk s \<le> clk s1"
    using nodesAgree_clock [OF assms(1), of s key None nodes] r by (simp add: nodesAgree_def)
  moreover have "now = clk s1"
    using assms(1) n unfolding polling_clock_def by (metis fst_conv)
  ultimately have "\<not> now < start + timeout"
    using 0 by simp
  thus ?case
    using r n by (subst convergeKey_loop.simps) (auto split: sum.splits prod.splits)
next
  case (Suc fuel s)
  obtain r s1 where r: "nodesAgree env nodes key s = (r, s1)"
    by fastforce
  obtain now s2 where n: "te_Now env s1 = (now, s2)"
    by fastforce
  obtain p s3 where p: "te_Poll env s2 = (p, s3)"
    by fastforce
  have "clk s \<le> clk s1"
    using nodesAgree_clock [OF assms(1), of s key None nodes] r by (simp add: nodesAgree_def)
  moreover have "clk s1 \<le> clk s2"
    using assms(1) n unfolding polling_clock_def by (metis snd_conv)
  moreover have "p = None \<longrightarrow> clk s2 + convergePoll \<le> clk s3"
    using assms(1) p unfolding polling_clock_def by (metis fst_conv snd_conv)
  ultimately have "p = None \<longrightarrow> start + timeout \<le> clk s3 + int fuel * convergePoll"
    using Suc.prems by (auto simp: algebra_simps)
  hence "p = None \<longrightarrow> (\<exists>r. convergeKey_loop env nodes key timeout start s3 = Some r)"
    using Suc.IH by blast
  thus ?case
    using r n p by (subst convergeKey_loop.simps) (auto split: sum.splits prod.splits option.splits)
qed

lemma convergeKey_returns:
  assumes "polling_clock env clk"
  shows "\<exists>r. convergeKey env nodes key timeout s = Some r"
proof -
  obtain start s1 where n: "te_Now env s = (start, s1)"
    by fastforce
  have "start + timeout \<le> clk s1 + int (nat (start + timeout - clk s1)) * convergePoll"
    by (simp add: convergePoll_def)
  hence "\<exists>r. convergeKey_loop env nodes key timeout start s1 = Some r"
    by (rule convergeKey_loop_returns [OF assms])
  thus ?thesis
    using n by (simp add: convergeKey_def)
qed

lemma converge_results_return:
  assumes "polling_clock env clk"
  shows "\<exists>rs s'. converge_results env nodes timeout ks s = Some (rs, s') \<and> length rs = length ks"
proof (induction ks arbitrary: s)
  case (Cons k ks)
  obtain r s1 where "convergeKey env nodes k timeout s = Some (r, s1)"
    using convergeKey_returns [OF assms, of nodes k timeout s] by auto
  thus ?case
    using Cons.IH [of s1] by auto
qed simp

lemma converge_loop_val:
  assumes "converge_results env nodes timeout ks s = Some (rs, s')"
  shows "\<exists>mx. converge_loop env nodes timeout ks mx0 report s =
    Some (mx, report\<lparr>vr_Anomalies := vr_Anomalies report @
      map (\<lambda>(k, r). divergence_anomaly k timeout) (filter (\<lambda>(k, r). \<not> converged_ok r) (zip ks rs))\<rparr>, s')"
  using assms
proof (induction ks arbitrary: s rs mx0 report)
  case (Cons k ks)
  obtain b d e s1 where c: "convergeKey env nodes k timeout s = Some ((b, d, e), s1)"
    using Cons.prems by (auto split: option.splits)
  obtain rs1 where r: "converge_results env nodes timeout ks s1 = Some (rs1, s')" "rs = (b, d, e) # rs1"
    using Cons.prems c by auto
  let ?mx = "if d > mx0 then d else mx0"
  show ?case
  proof (cases "converged_ok (b, d, e)")
    case True
    thus ?thesis
      using Cons.IH [OF r(1), of ?mx report] c r(2) by (simp add: converged_ok_def)
  next
    case False
    let ?rep = "report\<lparr>vr_Anomalies := vr_Anomalies report @ [divergence_anomaly k timeout]\<rparr>"
    have "converge_loop env nodes timeout (k # ks) mx0 report s = converge_loop env nodes timeout ks ?mx ?rep s1"
      using False c by (auto simp: converged_ok_def)
    thus ?thesis
      using Cons.IH [OF r(1), of ?mx ?rep] False r(2) by simp
  qed
qed simp

section \<open>The verdict\<close>

definition readback_report :: "expectation \<Rightarrow> int list \<Rightarrow> OpResult list \<Rightarrow> VerifyReport" where
  "readback_report expected order rs =
     (new_report VerifyReconciliation VerdictUnknown)\<lparr>vr_Checked := int (length order),
       vr_Lost := int (length (filter read_lost rs)),
       vr_Anomalies := concat (map (\<lambda>(k, res). read_anomalies k (the (expected k)) res) (zip order rs))\<rparr>"

lemma readback_report_fine:
  assumes "length rs = length order"
  shows "(vr_Anomalies (readback_report expected order rs) = [] \<longleftrightarrow>
      (\<forall>(k, res)\<in>set (zip order rs). read_fine (the (expected k)) res)) \<and>
    (vr_Anomalies (readback_report expected order rs) = [] \<longrightarrow> vr_Lost (readback_report expected order rs) = 0) \<and>
    vr_Lost (readback_report expected order rs) = int (length (filter read_lost rs)) \<and>
    vr_Checked (readback_report expected order rs) = int (length order)"
proof -
  have "\<forall>r\<in>set rs. \<not> read_lost r" if "\<forall>(k, res)\<in>set (zip order rs). read_fine (the (expected k)) res"
  proof
    fix r
    assume "r \<in> set rs"
    then obtain k where "(k, r) \<in> set (zip order rs)"
      using assms by (metis in_set_impl_in_set_zip2)
    thus "\<not> read_lost r"
      using that by (auto simp: read_fine_def)
  qed
  moreover have "concat (map (\<lambda>(k, res). read_anomalies k (the (expected k)) res) (zip order rs)) = [] \<longleftrightarrow>
      (\<forall>(k, res)\<in>set (zip order rs). read_fine (the (expected k)) res)"
    by (simp add: concat_eq_Nil_conv split_beta)
  ultimately show ?thesis
    by (simp add: readback_report_def)
qed

lemma divergences_Nil:
  assumes "length cs = length ks"
  shows "filter (\<lambda>(k, r). \<not> converged_ok r) (zip ks cs) = [] \<longleftrightarrow> (\<forall>r\<in>set cs. converged_ok r)"
proof -
  have "set cs = snd ` set (zip ks cs)"
    using assms by (metis map_snd_zip set_map)
  thus ?thesis
    by (auto simp: filter_empty_conv)
qed

lemma convergence_phase:
  assumes "polling_clock env clk"
  shows "\<exists>rep2 s4. (case te_Nodes env of None \<Rightarrow> Some (rep, s3)
      | Some nodes \<Rightarrow> checkConvergence env nodes order o1 rep s3) = Some (rep2, s4) \<and>
    vr_Lost rep2 = vr_Lost rep \<and> vr_Checked rep2 = vr_Checked rep \<and>
    (vr_Anomalies rep2 = [] \<longleftrightarrow> vr_Anomalies rep = [] \<and> replicas_ok env order o1 s3)"
proof (cases "\<exists>nodes. te_Nodes env = Some nodes \<and> \<not> (length nodes \<le> 1 \<or> o_ConvergenceSample o1 \<le> 0)")
  case False
  thus ?thesis
    by (cases "te_Nodes env") (auto simp: checkConvergence_def replicas_ok_def)
next
  case True
  then obtain nodes where nd: "te_Nodes env = Some nodes" "\<not> (length nodes \<le> 1 \<or> o_ConvergenceSample o1 \<le> 0)"
    by blast
  obtain start s4 where st: "te_Now env s3 = (start, s4)"
    by fastforce
  let ?ks = "sampleKeys [] (o_ConvergenceSample o1) order"
  obtain cs s5 where cs: "converge_results env nodes (o_ConvergenceTimeout o1) ?ks s4 = Some (cs, s5)" "length cs = length ?ks"
    using converge_results_return [OF assms] by blast
  obtain mx where mx: "converge_loop env nodes (o_ConvergenceTimeout o1) ?ks 0 rep s4 =
      Some (mx, rep\<lparr>vr_Anomalies := vr_Anomalies rep @ map (\<lambda>(k, r). divergence_anomaly k (o_ConvergenceTimeout o1))
        (filter (\<lambda>(k, r). \<not> converged_ok r) (zip ?ks cs))\<rparr>, s5)"
    using converge_loop_val [OF cs(1), of 0 rep] by blast
  obtain d s6 where d: "since env start s5 = (d, s6)"
    by fastforce
  show ?thesis
    using nd st mx d cs(1) divergences_Nil [OF cs(2)] by (simp add: checkConvergence_def replicas_ok_def)
qed

lemma Reconcile_outcome:
  assumes "polling_clock env clk" "order_of expected order" "te_Connect env s = (None, s1)"
    "te_Prepare env (o_Workload o1) s1 = (None, s2)" "read_results env o1 order s2 = (rs, s3)"
  shows "\<exists>rep s'. Reconcile env expected order order' o1 s = Some (Inr rep, s') \<and>
    vr_Checked rep = int (card (dom expected)) \<and> length rs = length order \<and>
    vr_Lost rep = int (length (filter read_lost rs)) \<and>
    (vr_Verdict rep = VerdictPass \<longleftrightarrow>
       (\<forall>(k, res)\<in>set (zip order rs). read_fine (the (expected k)) res) \<and> replicas_ok env order' o1 s3)"
proof -
  let ?rep1 = "readback_report expected order rs"
  have rb: "readBack env expected o1 order ((new_report VerifyReconciliation VerdictUnknown)\<lparr>vr_Checked := int (length order)\<rparr>) s2
      = (?rep1, s3)" and len: "length rs = length order"
    using readBack_val [OF assms(5), of expected] by (simp_all add: new_report_def readback_report_def)
  have card: "length order = card (dom expected)"
    using assms(2) by (metis distinct_card order_of_def)
  obtain rep2 s4 where c: "(case te_Nodes env of None \<Rightarrow> Some (?rep1, s3)
      | Some nodes \<Rightarrow> checkConvergence env nodes order' o1 ?rep1 s3) = Some (rep2, s4)"
      "vr_Lost rep2 = vr_Lost ?rep1" "vr_Checked rep2 = vr_Checked ?rep1"
      "vr_Anomalies rep2 = [] \<longleftrightarrow> vr_Anomalies ?rep1 = [] \<and> replicas_ok env order' o1 s3"
    using convergence_phase [OF assms(1)] by blast
  have "Reconcile env expected order order' o1 s = Some (Inr (reconcile_verdict rep2), te_Close env s4)"
    using assms(3,4) rb c(1) by (simp add: Reconcile_def)
  thus ?thesis
    using c(2-4) card len readback_report_fine [OF len, of expected]
    by (auto simp: reconcile_verdict_def)
qed

section \<open>Key-value targets\<close>

text \<open>
  The contract of a target that keeps what it acknowledges: a read returns the
  stored bytes and changes nothing, an admissible write stores its value. Against
  such a target the read-back decides whether the store agrees with the log, and a
  log recorded by the observer agrees when the payload is a function of the key.
\<close>

locale row_target =
  fixes exec :: "Operation \<Rightarrow> 's \<Rightarrow> OpResult \<times> 's" and store :: "'s \<Rightarrow> int \<Rightarrow> u8 list option" and inv :: "'s \<Rightarrow> bool"
    and reads :: "OpType set" and adm :: "Operation \<Rightarrow> 's \<Rightarrow> bool"
  assumes row_read: "\<lbrakk>inv s; op_Type op \<in> reads; op_Value op = []; exec op s = (res, s')\<rbrakk> \<Longrightarrow>
      inv s' \<and> r_Err res = None \<and> store s' = store s \<and>
      coerceBytes (r_Observed res) = (case store s (op_Key op) of Some b \<Rightarrow> (b, True) | None \<Rightarrow> ([], False))"
    and row_write: "\<lbrakk>inv s; adm op s; op_Value op \<noteq> []; exec op s = (res, s')\<rbrakk> \<Longrightarrow>
      inv s' \<and> r_Err res = None \<and> store s' = (store s)(op_Key op \<mapsto> op_Value op)"
begin

definition agrees :: "'s \<Rightarrow> expectation \<Rightarrow> int \<Rightarrow> bool" where
  "agrees s expected k \<longleftrightarrow> (\<exists>b. store s k = Some b \<and> Checksum b = wr_Checksum (the (expected k)))"

primrec fits :: "Operation list \<Rightarrow> 's \<Rightarrow> bool" where
  "fits [] s \<longleftrightarrow> True"
| "fits (op # ops) s \<longleftrightarrow> (if op_Value op = [] then op_Type op \<in> reads else adm op s) \<and> fits ops (snd (exec op s))"

lemma reads_agree:
  assumes "te_Execute env = exec" "inv s" "read_results env o1 ks s = (rs, s')" "o_ReadOp o1 \<in> reads"
  shows "(\<forall>(k, res)\<in>set (zip ks rs). read_fine (the (expected k)) res) \<longleftrightarrow> (\<forall>k\<in>set ks. agrees s expected k)"
  using assms(2,3)
proof (induction ks arbitrary: s rs)
  case (Cons k ks)
  obtain res s1 where e: "exec (read_op o1 k) s = (res, s1)"
    by fastforce
  obtain rs1 where r: "read_results env o1 ks s1 = (rs1, s')" "rs = res # rs1"
    using Cons.prems e assms(1) by (auto split: prod.splits)
  have x: "r_Err res = None" "store s1 = store s" "inv s1"
      "coerceBytes (r_Observed res) = (case store s k of Some b \<Rightarrow> (b, True) | None \<Rightarrow> ([], False))"
    using row_read [OF Cons.prems(1) _ _ e] assms(4) by (auto simp: read_op_def)
  have "read_fine (the (expected k)) res \<longleftrightarrow> agrees s expected k"
    using x by (auto simp: read_fine_def read_lost_def agrees_def split: option.splits)
  thus ?case
    using Cons.IH [OF x(3) r(1)] r(2) x(2) by (simp add: agrees_def)
qed simp

lemma Reconcile_agrees:
  assumes "te_Execute env = exec" "polling_clock env clk" "order_of expected order" "te_Connect env s = (None, s1)"
    "te_Prepare env (o_Workload o1) s1 = (None, s2)" "inv s2" "o_ReadOp o1 \<in> reads"
  shows "\<exists>rep s'. Reconcile env expected order order' o1 s = Some (Inr rep, s') \<and> vr_Checked rep = int (card (dom expected)) \<and>
    (vr_Verdict rep = VerdictPass \<longleftrightarrow> (\<forall>k r. expected k = Some r \<longrightarrow> (\<exists>b. store s2 k = Some b \<and> Checksum b = wr_Checksum r)) \<and>
       replicas_ok env order' o1 (snd (read_results env o1 order s2)))"
proof -
  obtain rs s3 where rs: "read_results env o1 order s2 = (rs, s3)"
    by fastforce
  have "(\<forall>k\<in>set order. agrees s2 expected k) \<longleftrightarrow>
      (\<forall>k r. expected k = Some r \<longrightarrow> (\<exists>b. store s2 k = Some b \<and> Checksum b = wr_Checksum r))"
    using assms(3) by (fastforce simp: order_of_def agrees_def)
  thus ?thesis
    using Reconcile_outcome [OF assms(2-5) rs, of order'] reads_agree [OF assms(1,6) rs assms(7)] rs by auto
qed

lemma exec_logged_records:
  assumes "inv s" "fits ops s" "\<forall>op\<in>set ops. op_Value op \<noteq> [] \<longrightarrow> op_Value op = payload (op_Key op)"
  shows "\<exists>s' recs. exec_logged exec encode ops s ls = (s', ls @ map encode recs) \<and> inv s' \<and>
    (\<forall>r\<in>set recs. wr_Checksum r = Checksum (payload (wr_Key r)) \<and> store s' (wr_Key r) = Some (payload (wr_Key r))) \<and>
    (\<forall>k. store s k = Some (payload k) \<longrightarrow> store s' k = Some (payload k)) \<and>
    wr_Key ` set recs = op_Key ` {x \<in> set ops. op_Value x \<noteq> []}"
  using assms
proof (induction ops arbitrary: s ls)
  case (Cons op ops)
  obtain res s1 where e: "exec op s = (res, s1)"
    by fastforce
  have inv1: "inv s1" and keep: "\<forall>k. store s k = Some (payload k) \<longrightarrow> store s1 k = Some (payload k)"
    and err: "r_Err res = None" and wrote: "op_Value op \<noteq> [] \<longrightarrow> store s1 (op_Key op) = Some (payload (op_Key op))"
    using row_read [OF Cons.prems(1) _ _ e] row_write [OF Cons.prems(1) _ _ e] Cons.prems(2,3)
    by (cases "op_Value op = []"; auto)+
  let ?r = "\<lparr>wr_Key = op_Key op, wr_Checksum = Checksum (op_Value op), wr_Seq = op_Seq op\<rparr>"
  let ?new = "if op_Value op = [] then [] else [?r]"
  have obs: "writeLogObserver_Observe encode op res ls = ls @ map encode ?new"
    using err by (simp add: writeLogObserver_Observe_def LogWriter_Record_def)
  obtain s' recs where IH: "exec_logged exec encode ops s1 (ls @ map encode ?new) = (s', (ls @ map encode ?new) @ map encode recs)"
      "inv s'" "\<forall>r\<in>set recs. wr_Checksum r = Checksum (payload (wr_Key r)) \<and> store s' (wr_Key r) = Some (payload (wr_Key r))"
      "\<forall>k. store s1 k = Some (payload k) \<longrightarrow> store s' k = Some (payload k)"
      "wr_Key ` set recs = op_Key ` {x \<in> set ops. op_Value x \<noteq> []}"
    using Cons.IH [OF inv1, of "ls @ map encode ?new"] Cons.prems(2,3) e by auto
  have "exec_logged exec encode (op # ops) s ls = (s', ls @ map encode (?new @ recs))"
    using e obs IH(1) by simp
  moreover have "\<forall>r\<in>set (?new @ recs). wr_Checksum r = Checksum (payload (wr_Key r)) \<and> store s' (wr_Key r) = Some (payload (wr_Key r))"
    using IH(3,4) wrote Cons.prems(3) by auto
  moreover have "wr_Key ` set (?new @ recs) = op_Key ` {x \<in> set (op # ops). op_Value x \<noteq> []}"
    using IH(5) by auto
  ultimately show ?case
    using IH(2,4) keep by blast
qed simp

end

text \<open>The stronger contract of a target that tells reads from writes by the presence of a value alone.\<close>

locale kv_target =
  fixes exec :: "Operation \<Rightarrow> 's \<Rightarrow> OpResult \<times> 's" and store :: "'s \<Rightarrow> int \<Rightarrow> u8 list option" and inv :: "'s \<Rightarrow> bool"
  assumes exec_inv: "inv s \<Longrightarrow> exec op s = (res, s') \<Longrightarrow> inv s'"
    and exec_read: "\<lbrakk>inv s; op_Value op = []; exec op s = (res, s')\<rbrakk> \<Longrightarrow> r_Err res = None \<and> store s' = store s \<and>
      coerceBytes (r_Observed res) = (case store s (op_Key op) of Some b \<Rightarrow> (b, True) | None \<Rightarrow> ([], False))"
    and exec_write: "\<lbrakk>inv s; op_Value op \<noteq> []; exec op s = (res, s')\<rbrakk> \<Longrightarrow>
      r_Err res = None \<and> store s' = (store s)(op_Key op \<mapsto> op_Value op)"

sublocale kv_target \<subseteq> row_target exec store inv UNIV "\<lambda>op s. True"
  by unfold_locales (use exec_inv exec_read exec_write in blast)+

section \<open>Properties\<close>

text \<open>C8: The expectation log is last write wins: reading back the encoded records gives, for
  each key, the record with the highest sequence number (the last one written among
  equals) and nothing for keys that were never written.\<close>

theorem readLog_last_write_wins:
  assumes "\<forall>r\<in>set recs. encode r \<noteq> [] \<and> unmarshal (encode r) = Some r"
  shows "\<exists>m. readLog unmarshal (map encode recs) = Inr m \<and> (\<forall>k r. m k = Some r \<longleftrightarrow> latest_for recs k r) \<and>
    dom m = wr_Key ` set recs"
proof -
  let ?m = "foldl log_insert Map.empty recs"
  have "k \<in> dom ?m \<longleftrightarrow> k \<in> wr_Key ` set recs" for k
    using foldl_log_insert [of recs k] latest_for_max [of recs k] by (auto simp: foldl_log_insert_iff dest: latest_for_max)
  hence "dom ?m = wr_Key ` set recs"
    by blast
  thus ?thesis
    using readLog_loop_encoded [of recs encode unmarshal 1 Map.empty] assms foldl_log_insert_iff
    by (auto simp: readLog_def)
qed

theorem readLog_last_write_wins_witness:
  "\<exists>m. readLog (\<lambda>s. Some \<lparr>wr_Key = int (length s), wr_Checksum = 5, wr_Seq = 2\<rparr>)
      (map (\<lambda>r. replicate (nat (wr_Key r)) (CHR ''x'')) [\<lparr>wr_Key = 3, wr_Checksum = 5, wr_Seq = 2\<rparr>]) = Inr m \<and>
    dom m = {3}"
  using readLog_last_write_wins [of "[\<lparr>wr_Key = 3, wr_Checksum = 5, wr_Seq = 2\<rparr>]"
      "\<lambda>r. replicate (nat (wr_Key r)) (CHR ''x'')"
      "\<lambda>s. Some \<lparr>wr_Key = int (length s), wr_Checksum = 5, wr_Seq = 2\<rparr>"] by auto

text \<open>Log shards can be concatenated in any order: when equal sequence numbers of a key
  come with equal records, every reordering of the lines gives the same expectation.\<close>

lemma readLog_shard_order:
  assumes "\<forall>r\<in>set recs. encode r \<noteq> [] \<and> unmarshal (encode r) = Some r" "mset recs' = mset recs"
    "\<forall>r\<in>set recs. \<forall>q\<in>set recs. wr_Key r = wr_Key q \<and> wr_Seq r = wr_Seq q \<longrightarrow> r = q"
  shows "readLog unmarshal (map encode recs') = readLog unmarshal (map encode recs)"
proof -
  have set: "set recs' = set recs"
    using assms(2) by (metis set_mset_mset)
  have eq: "latest_for recs' k r \<Longrightarrow> latest_for recs k q \<Longrightarrow> r = q" for k r q
    using latest_for_max [of recs' k r] latest_for_max [of recs k q] assms(3) set by (metis order_antisym)
  have "foldl log_insert Map.empty recs' k = foldl log_insert Map.empty recs k" for k
    using foldl_log_insert [of recs' k] foldl_log_insert [of recs k] eq latest_for_max set by metis
  hence "foldl log_insert Map.empty recs' = foldl log_insert Map.empty recs"
    by blast
  thus ?thesis
    using readLog_loop_encoded [of recs encode unmarshal 1 Map.empty]
      readLog_loop_encoded [of recs' encode unmarshal 1 Map.empty] assms(1) set by (simp add: readLog_def)
qed

text \<open>C9: Reconciliation returns for every target whose clock advances, reads every expected
  key, counts exactly the lost ones, and passes exactly when every read confirms the
  recorded checksum and every sampled key converged on all replicas.\<close>

theorem Reconcile_verdict:
  assumes "polling_clock env clk" "order_of expected order" "te_Connect env s = (None, s1)"
    "te_Prepare env (o_Workload o1) s1 = (None, s2)" "read_results env o1 order s2 = (rs, s3)"
  shows "\<exists>rep s'. Reconcile env expected order order' o1 s = Some (Inr rep, s') \<and>
    vr_Checked rep = int (card (dom expected)) \<and> length rs = length order \<and>
    vr_Lost rep = int (length (filter read_lost rs)) \<and>
    (vr_Verdict rep = VerdictPass \<longleftrightarrow>
       (\<forall>(k, res)\<in>set (zip order rs). read_fine (the (expected k)) res) \<and> replicas_ok env order' o1 s3)"
  using Reconcile_outcome [OF assms] .

theorem Reconcile_verdict_witness:
  "\<exists>rep s'. Reconcile
      \<lparr>te_Connect = (\<lambda>s. (None, s)), te_Prepare = (\<lambda>w s. (None, s)),
       te_Execute = (\<lambda>op s. (\<lparr>r_Type = [], r_Rows = 1, r_Observed = ABytes [1, 2], r_Err = None\<rparr>, s)),
       te_Close = (\<lambda>s. s), te_Nodes = None,
       te_ReadKeyFrom = (\<lambda>n k s. (Inl ''unsupported'', s)),
       te_Now = (\<lambda>s. (s, s)), te_Poll = (\<lambda>s. (None, s + convergePoll))\<rparr>
      [7 \<mapsto> \<lparr>wr_Key = 7, wr_Checksum = Checksum [1, 2], wr_Seq = 1\<rparr>] [7] [7]
      \<lparr>o_ReadOp = ''read'', o_Workload = \<lparr>w_Name = [], w_Mode = [], w_Operations = [], w_KeySpace = 10,
         w_KeyDist = [], w_ValueSize = 0, w_VerifyModel = [], w_Params = Map.empty\<rparr>,
       o_ConvergenceSample = 200, o_ConvergenceTimeout = 5000000000\<rparr> (0 :: int)
    = Some (Inr rep, s') \<and> vr_Verdict rep = VerdictPass \<and> vr_Checked rep = 1"
  (is "\<exists>rep s'. Reconcile ?env ?exp ?ks ?ks ?o ?s = _ \<and> _")
proof -
  have "polling_clock ?env id"
    by (simp add: polling_clock_def convergePoll_def)
  then obtain rep s' where "Reconcile ?env ?exp ?ks ?ks ?o ?s = Some (Inr rep, s')" "vr_Checked rep = 1"
      "vr_Verdict rep = VerdictPass"
    using Reconcile_verdict [of ?env id ?exp ?ks ?s ?s ?o ?s
        "[\<lparr>r_Type = [], r_Rows = 1, r_Observed = ABytes [1, 2], r_Err = None\<rparr>]" ?s ?ks]
    by (simp add: order_of_def read_fine_def read_lost_def coerceBytes_def replicas_ok_def) blast
  thus ?thesis
    by blast
qed

end
