(* ===== verification/Testutil.thy ===== *)
theory Testutil
  imports Reconciliation
begin

text \<open>
  \<open>core/testutil\<close>: the in-memory \<open>FakeDriver\<close>, the repository's own implementation of
  the driver port. Its \<open>Execute\<close> is interpreted as a key-value target, and the
  environment built on it drives the reconciliation checker.
\<close>

section \<open>Definitions\<close>

record FakeDriver =
  fd_Latency :: duration
  fd_FailEvery :: int
  fd_store :: "int \<Rightarrow> u8 list option"
  fd_ops :: "Operation list"
  fd_n :: int

definition NewFakeDriver :: FakeDriver where
  "NewFakeDriver = \<lparr>fd_Latency = 0, fd_FailEvery = 0, fd_store = Map.empty, fd_ops = [], fd_n = 0\<rparr>"

definition errFakeExecute :: err where
  "errFakeExecute = ''fake: injected execute failure''"

text \<open>\<open>ctx\<close> is the error of the context when it is done before the latency elapses.\<close>

definition fake_Execute :: "err option \<Rightarrow> Operation \<Rightarrow> FakeDriver \<Rightarrow> OpResult \<times> FakeDriver" where
  "fake_Execute ctx op d =
     (if fd_Latency d > 0 \<and> ctx \<noteq> None
      then (\<lparr>r_Type = op_Type op, r_Rows = 0, r_Observed = ANil, r_Err = ctx\<rparr>, d)
      else let d1 = d\<lparr>fd_n := i64 (fd_n d + 1), fd_ops := fd_ops d @ [op]\<rparr>
           in if fd_FailEvery d > 0 \<and> fd_n d1 smod fd_FailEvery d = 0
              then (\<lparr>r_Type = op_Type op, r_Rows = 0, r_Observed = ANil, r_Err = Some errFakeExecute\<rparr>, d1)
              else if length (op_Value op) > 0
              then (\<lparr>r_Type = op_Type op, r_Rows = 1, r_Observed = ANil, r_Err = None\<rparr>,
                    d1\<lparr>fd_store := (fd_store d1)(op_Key op \<mapsto> op_Value op)\<rparr>)
              else (\<lparr>r_Type = op_Type op, r_Rows = 1,
                     r_Observed = (case fd_store d1 (op_Key op) of Some b \<Rightarrow> ABytes b | None \<Rightarrow> ABytesNil),
                     r_Err = None\<rparr>, d1))"

definition fake_Operations :: "FakeDriver \<Rightarrow> Operation list" where
  "fake_Operations d = fd_ops d"

definition fake_ok :: "FakeDriver \<Rightarrow> bool" where
  "fake_ok d \<longleftrightarrow> fd_FailEvery d \<le> 0"

section \<open>The fake driver is a key-value target\<close>

interpretation fake: kv_target "fake_Execute None" fd_store fake_ok
  by unfold_locales
    (auto simp: fake_Execute_def fake_ok_def coerceBytes_def Let_def split: if_splits option.splits)

text \<open>The environment of the checker: the driver is not cluster aware, and the second
  component of the state is the clock.\<close>

definition fake_env :: "(FakeDriver \<times> instant) target_env" where
  "fake_env = \<lparr>te_Connect = (\<lambda>s. (None, s)), te_Prepare = (\<lambda>w s. (None, s)),
     te_Execute = (\<lambda>op (d, t). (let (res, d') = fake_Execute None op d in (res, (d', t)))),
     te_Close = (\<lambda>s. s), te_Nodes = None,
     te_ReadKeyFrom = (\<lambda>n k s. (Inl ''not cluster aware'', s)),
     te_Now = (\<lambda>(d, t). (t, (d, t))), te_Poll = (\<lambda>(d, t). (None, (d, t + convergePoll)))\<rparr>"

interpretation fake_clocked: kv_target
  "\<lambda>op (d, t :: instant). (let (res, d') = fake_Execute None op d in (res, (d', t)))"
  "\<lambda>(d, t). fd_store d" "\<lambda>(d, t). fake_ok d"
  by unfold_locales
    (auto simp: Let_def split: prod.splits dest: fake.exec_inv fake.exec_read fake.exec_write)

lemma fake_env_clock: "polling_clock fake_env snd"
  by (auto simp: polling_clock_def fake_env_def)

section \<open>Reconciliation against the fake driver\<close>

lemma fake_Reconcile:
  assumes "fake_ok d" "order_of expected order"
  shows "\<exists>rep s'. Reconcile fake_env expected order order' o1 (d, t) = Some (Inr rep, s') \<and>
    (vr_Verdict rep = VerdictPass \<longleftrightarrow>
      (\<forall>k r. expected k = Some r \<longrightarrow> (\<exists>b. fd_store d k = Some b \<and> Checksum b = wr_Checksum r)))"
proof -
  have "te_Execute fake_env = (\<lambda>op (d, t). (let (res, d') = fake_Execute None op d in (res, (d', t))))"
      "te_Nodes fake_env = None" "te_Connect fake_env s = (None, s)" "te_Prepare fake_env w s = (None, s)" for s w
    by (simp_all add: fake_env_def)
  note env = this
  show ?thesis
    using fake_clocked.Reconcile_agrees [OF env(1) fake_env_clock assms(2) env(3) env(4) [of "o_Workload o1"], of "(d, t)" order'] assms(1)
    by (auto simp: replicas_ok_def env(2))
qed

end
