(* ===== verification/Target_Driver.thy ===== *)
theory Target_Driver
  imports Params Testutil
begin

text \<open>
  What the database drivers (PostgreSQL, Cassandra, ClickHouse) share: the client of
  a database server as a record of the calls the drivers make, the plan an
  operation is translated to, the loop over the rows of a query, the node-local read
  of the convergence check, and the environment a driver gives to reconciliation.
  A server is an argument; \<open>sql_tracks\<close> says which sessions it keeps open.
\<close>

section \<open>Definitions\<close>

subsection \<open>Clients\<close>

text \<open>The outcome of \<open>QueryRow(...).Scan(&v)\<close> into a byte slice, which may be nil.\<close>

datatype scan_result = ScanErr err | ErrNoRows | Scanned "u8 list option"

text \<open>The rows of a query: the scan of each row and the error the iteration ends with.\<close>

type_synonym row_set = "(err + u8 list option) list \<times> err option"

record ('o, 'c, 'w) sql_client =
  sq_Connect :: "'o \<Rightarrow> 'w \<Rightarrow> (err + 'c) \<times> 'w"
  sq_Close :: "'c \<Rightarrow> 'w \<Rightarrow> err option \<times> 'w"
  sq_Ping :: "'c \<Rightarrow> 'w \<Rightarrow> err option \<times> 'w"
  sq_Prepare :: "'c \<Rightarrow> string \<Rightarrow> string \<Rightarrow> 'w \<Rightarrow> err option \<times> 'w"
  sq_Exec :: "'c \<Rightarrow> string \<Rightarrow> any list \<Rightarrow> 'w \<Rightarrow> (err + int) \<times> 'w"
  sq_QueryRow :: "'c \<Rightarrow> string \<Rightarrow> any list \<Rightarrow> 'w \<Rightarrow> scan_result \<times> 'w"
  sq_Query :: "'c \<Rightarrow> string \<Rightarrow> any list \<Rightarrow> 'w \<Rightarrow> (err + row_set) \<times> 'w"

text \<open>A client keeps the bookkeeping of its sessions: connecting opens one, closing ends it, the other calls
  open and close none.\<close>

definition sql_tracks :: "('o, 'c, 'w) sql_client \<Rightarrow> ('w \<Rightarrow> 'c multiset) \<Rightarrow> bool" where
  "sql_tracks cl live \<longleftrightarrow>
     (\<forall>d w. live (snd (sq_Connect cl d w)) = (case fst (sq_Connect cl d w) of Inr c \<Rightarrow> add_mset c (live w) | Inl _ \<Rightarrow> live w)) \<and>
     (\<forall>c w. live (snd (sq_Close cl c w)) = live w - {#c#}) \<and>
     (\<forall>c w. live (snd (sq_Ping cl c w)) = live w) \<and>
     (\<forall>c n q w. live (snd (sq_Prepare cl c n q w)) = live w) \<and>
     (\<forall>c q as w. live (snd (sq_Exec cl c q as w)) = live w) \<and>
     (\<forall>c q as w. live (snd (sq_QueryRow cl c q as w)) = live w) \<and>
     (\<forall>c q as w. live (snd (sq_Query cl c q as w)) = live w)"

subsection \<open>Plans and results\<close>

datatype opKind = kindRead | kindWrite | kindScan

record opPlan =
  pn_stmt :: string
  pn_args :: "any list"
  pn_kind :: opKind

definition op_result :: "OpType \<Rightarrow> OpResult" where
  "op_result t = \<lparr>r_Type = t, r_Rows = 0, r_Observed = ANil, r_Err = None\<rparr>"

definition bytes_any :: "u8 list option \<Rightarrow> any" where
  "bytes_any v = (case v of Some b \<Rightarrow> ABytes b | None \<Rightarrow> ABytesNil)"

text \<open>The loop \<open>for rows.Next()\<close> of a scan, which stops at the first row that cannot be decoded.\<close>

fun scan_rows :: "(err + u8 list option) list \<Rightarrow> u8 list list \<Rightarrow> err + u8 list list" where
  "scan_rows [] out = Inr out"
| "scan_rows (Inl e # rs) out = Inl e"
| "scan_rows (Inr v # rs) out = scan_rows rs (out @ [case v of Some b \<Rightarrow> b | None \<Rightarrow> []])"

section \<open>Tables\<close>

text \<open>The abstract state of a key-value table: the value and the sequence number of each key. A bounded
  scan returns the values of the first keys from a start on, in key order.\<close>

type_synonym kv_table = "int \<Rightarrow> (u8 list \<times> int) option"

definition table_store :: "kv_table \<Rightarrow> int \<Rightarrow> u8 list option" where
  "table_store t k = map_option fst (t k)"

definition table_scan :: "kv_table \<Rightarrow> int \<Rightarrow> int \<Rightarrow> u8 list list" where
  "table_scan t k n = take (nat n) (map (\<lambda>k'. fst (the (t k'))) (sorted_list_of_set {k' \<in> dom t. k \<le> k'}))"

text \<open>The abstract meaning of an operation on such a table. \<open>upsert\<close> says whether an update creates a missing
  key, \<open>scan\<close> is the order of a bounded scan.\<close>

definition table_op ::
  "string \<Rightarrow> bool \<Rightarrow> (kv_table \<Rightarrow> int \<Rightarrow> u8 list list) \<Rightarrow> Operation \<Rightarrow> kv_table \<Rightarrow> OpResult \<times> kv_table" where
  "table_op drv upsert scan op t =
     (let k = op_Key op; res = op_result (op_Type op); t' = t(k \<mapsto> (op_Value op, op_Seq op)) in
      if op_Type op \<in> {''read'', ''r''}
        then (case t k of Some (v, _) \<Rightarrow> (res\<lparr>r_Observed := ABytes v, r_Rows := 1\<rparr>, t) | None \<Rightarrow> (res, t))
      else if op_Type op \<in> {''insert'', ''w''} then (res\<lparr>r_Rows := 1\<rparr>, t')
      else if op_Type op = ''update'' then (if upsert \<or> t k \<noteq> None then (res\<lparr>r_Rows := 1\<rparr>, t') else (res, t))
      else if op_Type op = ''scan''
        then (res\<lparr>r_Observed := AByteSlices (scan t k), r_Rows := int (length (scan t k))\<rparr>, t)
      else (res\<lparr>r_Err := Some (drv @ '': unsupported op type '' @ fmt_q (op_Type op))\<rparr>, t))"

section \<open>Lemmas\<close>

lemma scan_rows_append: "scan_rows (map (Inr \<circ> Some) vs) out = Inr (out @ vs)"
  by (induction vs arbitrary: out) simp_all

lemma bytes_of_string_of [simp]: "bytes_of (string_of b) = b"
proof -
  have "of_char (char_of (unat x)) = x" for x :: u8
  proof -
    have "unat x < 2 ^ LENGTH(8)"
      by (rule unsigned_less)
    thus ?thesis
      by (simp add: word_unat_eq_iff unat_of_char)
  qed
  thus ?thesis
    by (simp add: bytes_of_def string_of_def comp_def)
qed

lemma table_store_upd [simp]: "table_store (t(k \<mapsto> (v, q))) = (table_store t)(k \<mapsto> v)"
  by (auto simp: table_store_def)

lemma table_store_None [simp]: "table_store t k = None \<longleftrightarrow> t k = None"
  by (simp add: table_store_def)

lemma coerce_ABytes [simp]: "coerceBytes (ABytes b) = (b, True)" "coerceBytes ANil = ([], False)"
  by (simp_all add: coerceBytes_def)

text \<open>Opening a session, using it and closing it leaves the sessions as they were.\<close>

lemma sql_tracksD:
  assumes "sql_tracks cl live"
  shows "sq_Connect cl d w = (Inr c, w') \<Longrightarrow> live w' = add_mset c (live w)"
    and "sq_Connect cl d w = (Inl e, w') \<Longrightarrow> live w' = live w"
    and "live (snd (sq_Close cl c w)) = live w - {#c#}"
    and "live (snd (sq_Ping cl c w)) = live w"
    and "live (snd (sq_Prepare cl c n q w)) = live w"
    and "live (snd (sq_Exec cl c q as w)) = live w"
    and "live (snd (sq_QueryRow cl c q as w)) = live w"
    and "live (snd (sq_Query cl c q as w)) = live w"
proof -
  note t = assms [unfolded sql_tracks_def]
  show "sq_Connect cl d w = (Inr c, w') \<Longrightarrow> live w' = add_mset c (live w)"
    and "sq_Connect cl d w = (Inl e, w') \<Longrightarrow> live w' = live w"
    using t [THEN conjunct1, THEN spec, THEN spec, of d w] by simp_all
qed (use assms [unfolded sql_tracks_def] in simp_all)

text \<open>A driver that implements the abstract operations is a key-value target for the read-back.\<close>

definition refines_table ::
  "(Operation \<Rightarrow> 'w \<Rightarrow> OpResult \<times> 'w) \<Rightarrow> ('w \<Rightarrow> kv_table) \<Rightarrow> ('w \<Rightarrow> bool) \<Rightarrow> string \<Rightarrow> bool \<Rightarrow> (kv_table \<Rightarrow> int \<Rightarrow> u8 list list) \<Rightarrow> bool" where
  "refines_table exec tab ready drv upsert scan \<longleftrightarrow>
     (\<forall>op w. ready w \<longrightarrow> (\<exists>w'. exec op w = (fst (table_op drv upsert scan op (tab w)), w') \<and>
        tab w' = snd (table_op drv upsert scan op (tab w)) \<and> ready w'))"

lemma refines_row_target:
  assumes "refines_table exec tab ready drv upsert scan"
  shows "row_target exec (\<lambda>w. table_store (tab w)) ready {''read'', ''r''}
    (\<lambda>op w. op_Type op \<in> {''insert'', ''w''} \<or> op_Type op = ''update'' \<and> (upsert \<or> tab w (op_Key op) \<noteq> None))"
proof
  fix s op res s'
  assume s: "ready s" "exec op s = (res, s')"
  obtain w' where "exec op s = (fst (table_op drv upsert scan op (tab s)), w')"
      "tab w' = snd (table_op drv upsert scan op (tab s))" "ready w'"
    using assms s(1) unfolding refines_table_def by blast
  hence e: "res = fst (table_op drv upsert scan op (tab s))" "tab s' = snd (table_op drv upsert scan op (tab s))" "ready s'"
    using s(2) by simp_all
  show "ready s' \<and> r_Err res = None \<and> table_store (tab s') = table_store (tab s) \<and>
      coerceBytes (r_Observed res) = (case table_store (tab s) (op_Key op) of Some b \<Rightarrow> (b, True) | None \<Rightarrow> ([], False))"
    if "op_Type op \<in> {''read'', ''r''}" "op_Value op = []"
    using that(1) e(3) unfolding e(1,2)
    by (auto simp: table_op_def op_result_def table_store_def Let_def split: option.splits)
  show "ready s' \<and> r_Err res = None \<and> table_store (tab s') = (table_store (tab s))(op_Key op \<mapsto> op_Value op)"
    if "op_Type op \<in> {''insert'', ''w''} \<or> op_Type op = ''update'' \<and> (upsert \<or> tab s (op_Key op) \<noteq> None)" "op_Value op \<noteq> []"
    using that(1) e(3) unfolding e(1,2)
    by (auto simp: table_op_def op_result_def Let_def)
qed

text \<open>A sequence of operations on one connection.\<close>

fun run_conn :: "(Operation \<Rightarrow> 'w \<Rightarrow> OpResult \<times> 'w) \<Rightarrow> Operation list \<Rightarrow> 'w \<Rightarrow> OpResult list \<times> 'w" where
  "run_conn exec [] w = ([], w)"
| "run_conn exec (op # ops) w = (let (res, w1) = exec op w; (rs, w2) = run_conn exec ops w1 in (res # rs, w2))"

lemma refines_run:
  assumes "refines_table exec tab ready drv upsert scan" "ready w"
  shows "\<exists>w'. run_conn exec ops w = (fst (run_conn (table_op drv upsert scan) ops (tab w)), w') \<and>
    tab w' = snd (run_conn (table_op drv upsert scan) ops (tab w)) \<and> ready w'"
  using assms(2)
proof (induction ops arbitrary: w)
  case (Cons op ops)
  let ?op = "table_op drv upsert scan"
  obtain w1 where w1: "exec op w = (fst (?op op (tab w)), w1)" "tab w1 = snd (?op op (tab w))" "ready w1"
    using assms(1) Cons.prems unfolding refines_table_def by blast
  obtain w2 where "run_conn exec ops w1 = (fst (run_conn ?op ops (tab w1)), w2)" "tab w2 = snd (run_conn ?op ops (tab w1))" "ready w2"
    using Cons.IH [OF w1(3)] by blast
  thus ?case
    using w1(1,2) by (simp add: case_prod_beta Let_def)
qed simp

text \<open>On a target that keeps its contract every read of a run returns the last value written before it.\<close>

definition apply_writes :: "(int \<Rightarrow> u8 list option) \<Rightarrow> Operation list \<Rightarrow> int \<Rightarrow> u8 list option" where
  "apply_writes m ops = foldl (\<lambda>m op. if op_Value op = [] then m else m(op_Key op \<mapsto> op_Value op)) m ops"

context row_target
begin

lemma run_reads:
  assumes "inv s" "fits ops s"
  shows "\<exists>rs s'. run_conn exec ops s = (rs, s') \<and> inv s' \<and> store s' = apply_writes (store s) ops \<and> length rs = length ops \<and>
    (\<forall>i<length ops. r_Err (rs ! i) = None \<and> (op_Value (ops ! i) = [] \<longrightarrow> coerceBytes (r_Observed (rs ! i)) =
       (case apply_writes (store s) (take i ops) (op_Key (ops ! i)) of Some b \<Rightarrow> (b, True) | None \<Rightarrow> ([], False))))"
  using assms
proof (induction ops arbitrary: s)
  case (Cons op ops)
  obtain res s1 where e: "exec op s = (res, s1)"
    by fastforce
  let ?m = "apply_writes (store s) [op]"
  have x: "inv s1" "store s1 = ?m" "r_Err res = None"
      "op_Value op = [] \<longrightarrow> coerceBytes (r_Observed res) = (case store s (op_Key op) of Some b \<Rightarrow> (b, True) | None \<Rightarrow> ([], False))"
    using row_read [OF Cons.prems(1) _ _ e] row_write [OF Cons.prems(1) _ _ e] Cons.prems(2)
    by (cases "op_Value op = []"; simp add: apply_writes_def)+
  have "fits ops s1"
    using Cons.prems(2) e by simp
  from Cons.IH [OF x(1) this] obtain rs s' where r: "run_conn exec ops s1 = (rs, s')" "inv s'" "store s' = apply_writes ?m ops" "length rs = length ops"
      "\<forall>i<length ops. r_Err (rs ! i) = None \<and> (op_Value (ops ! i) = [] \<longrightarrow> coerceBytes (r_Observed (rs ! i)) =
         (case apply_writes ?m (take i ops) (op_Key (ops ! i)) of Some b \<Rightarrow> (b, True) | None \<Rightarrow> ([], False)))"
    unfolding x(2) by blast
  have "run_conn exec (op # ops) s = (res # rs, s')" "store s' = apply_writes (store s) (op # ops)"
    using e r(1,3) by (simp_all add: apply_writes_def)
  moreover have "r_Err ((res # rs) ! i) = None \<and> (op_Value ((op # ops) ! i) = [] \<longrightarrow> coerceBytes (r_Observed ((res # rs) ! i)) =
      (case apply_writes (store s) (take i (op # ops)) (op_Key ((op # ops) ! i)) of Some b \<Rightarrow> (b, True) | None \<Rightarrow> ([], False)))"
    if "i < length (op # ops)" for i
    using that x(3,4) r(5) by (cases i) (auto simp: apply_writes_def)
  ultimately show ?case
    using r(2,4) by (intro exI [of _ "res # rs"] exI [of _ s']) simp
qed (simp add: apply_writes_def)

end

end
