(* ===== verification/Postgres.thy ===== *)
theory Postgres
  imports Target_Driver
begin

text \<open>
  The PostgreSQL target (\<open>targets/postgresql/pgdriver\<close>): connection strings
  (\<open>dsn.go\<close>), statements and plans (\<open>sql.go\<close>), the session (\<open>conn.go\<close>), schema and
  connect (\<open>driver.go\<close>, \<open>schema.go\<close>) and node-local reads (\<open>cluster.go\<close>). The client
  library and the server are an argument; \<open>pg_lawful\<close> states what SQL promises for the
  four statements.
\<close>

section \<open>Definitions\<close>

subsection \<open>Connection strings\<close>

record dsnOptions =
  do_User :: string
  do_Password :: string
  do_DBName :: string
  do_SSLMode :: string

definition defaultPGPort :: string where
  "defaultPGPort = ''5432''"

definition escapeDSN :: "string \<Rightarrow> string" where
  "escapeDSN v =
     (let v1 = concat (map (\<lambda>c. if c = CHR 0x5C then [CHR 0x5C, CHR 0x5C] else [c]) v)
      in concat (map (\<lambda>c. if c = CHR 0x27 then [CHR 0x5C, CHR 0x27] else [c]) v1))"

definition pg_kv :: "string \<Rightarrow> string \<Rightarrow> string" where
  "pg_kv key val =
     (if val = '''' \<or> (\<exists>c\<in>set val. c \<in> {CHR '' '', CHR 0x27, CHR 0x5C})
      then key @ ''='' @ [CHR 0x27] @ escapeDSN val @ [CHR 0x27]
      else key @ ''='' @ val)"

definition buildDSN :: "string \<Rightarrow> dsnOptions \<Rightarrow> string" where
  "buildDSN endpoint0 o1 =
     (let endpoint = trim_space endpoint0 in
      if sublist ''://'' endpoint \<or> sublist ''='' endpoint then endpoint
      else let (host, port) = splitHostPort defaultPGPort endpoint
           in join '' '' ([pg_kv ''host'' host, pg_kv ''port'' port, pg_kv ''user'' (do_User o1), pg_kv ''dbname'' (do_DBName o1),
                pg_kv ''sslmode'' (do_SSLMode o1)] @ (if do_Password o1 \<noteq> '''' then [pg_kv ''password'' (do_Password o1)] else [])))"

definition pg_resolveOptions :: "(string \<Rightarrow> string) \<Rightarrow> params \<Rightarrow> dsnOptions" where
  "pg_resolveOptions getenv ps =
     \<lparr>do_User = firstNonEmpty [paramString ps ''user'', getenv ''PGUSER'', ''postgres''],
      do_Password = firstNonEmpty [getenv ''PROOFLOAD_PG_PASSWORD'', getenv ''PGPASSWORD''],
      do_DBName = firstNonEmpty [paramString ps ''dbname'', paramString ps ''database'', getenv ''PGDATABASE'', ''proofload''],
      do_SSLMode = firstNonEmpty [paramString ps ''sslmode'', getenv ''PGSSLMODE'', ''disable'']\<rparr>"

subsection \<open>Statements and plans\<close>

definition pg_statements :: "string \<Rightarrow> string option" where
  "pg_statements = [
     ''pl_read'' \<mapsto> ''SELECT v FROM proofload_kv WHERE k=$1'',
     ''pl_upsert'' \<mapsto> ''INSERT INTO proofload_kv (k, v, seq) VALUES ($1, $2, $3) ON CONFLICT (k) DO UPDATE SET v = EXCLUDED.v, seq = EXCLUDED.seq'',
     ''pl_update'' \<mapsto> ''UPDATE proofload_kv SET v = $2, seq = $3 WHERE k = $1'',
     ''pl_scan'' \<mapsto> ''SELECT k, v FROM proofload_kv WHERE k >= $1 ORDER BY k LIMIT $2'']"

definition pg_planFor :: "Operation \<Rightarrow> int \<Rightarrow> err + opPlan" where
  "pg_planFor op scanLimit =
     (let t = op_Type op in
      if t \<in> {''read'', ''r''} then Inr \<lparr>pn_stmt = ''pl_read'', pn_args = [AInt64 (op_Key op)], pn_kind = kindRead\<rparr>
      else if t \<in> {''insert'', ''w''}
        then Inr \<lparr>pn_stmt = ''pl_upsert'', pn_args = [AInt64 (op_Key op), ABytes (op_Value op), AInt64 (op_Seq op)], pn_kind = kindWrite\<rparr>
      else if t = ''update''
        then Inr \<lparr>pn_stmt = ''pl_update'', pn_args = [AInt64 (op_Key op), ABytes (op_Value op), AInt64 (op_Seq op)], pn_kind = kindWrite\<rparr>
      else if t = ''scan''
        then Inr \<lparr>pn_stmt = ''pl_scan'', pn_args = [AInt64 (op_Key op), AInt (if scanLimit \<le> 0 then defaultScanLimit else scanLimit)], pn_kind = kindScan\<rparr>
      else Inl (''pgdriver: unsupported op type '' @ fmt_q t))"

datatype TxIsoLevel = ReadCommitted | RepeatableRead | Serializable

definition isoLevel :: "string \<Rightarrow> err + TxIsoLevel" where
  "isoLevel consistency =
     (if consistency \<in> {'''', ''read-committed'', ''read committed''} then Inr ReadCommitted
      else if consistency \<in> {''repeatable-read'', ''repeatable read''} then Inr RepeatableRead
      else if consistency = ''serializable'' then Inr Serializable
      else Inl (''pgdriver: unsupported consistency '' @ fmt_q consistency))"

definition pg_consistencyLevels :: "string list" where
  "pg_consistencyLevels = [''read-committed'', ''repeatable-read'', ''serializable'']"

subsection \<open>The session\<close>

record 'c pgConn =
  pg_conn :: 'c
  pg_scanLimit :: int

text \<open>\<open>isoText\<close> is the client library's text of a level, \<open>getenv\<close> the environment.\<close>

definition applyConsistency ::
  "(TxIsoLevel \<Rightarrow> string) \<Rightarrow> (string, 'c, 'w) sql_client \<Rightarrow> 'c pgConn \<Rightarrow> string \<Rightarrow> 'w \<Rightarrow> err option \<times> 'w" where
  "applyConsistency isoText cl c consistency w = (case isoLevel consistency of
      Inl e \<Rightarrow> (Some e, w)
    | Inr lvl \<Rightarrow>
        (case sq_Exec cl (pg_conn c) (''SET SESSION CHARACTERISTICS AS TRANSACTION ISOLATION LEVEL '' @ isoText lvl) [] w of
           (Inl e, w') \<Rightarrow> (Some (''pgdriver: set isolation '' @ fmt_q (isoText lvl) @ '': '' @ e), w')
         | (Inr _, w') \<Rightarrow> (None, w')))"

fun prepare_loop :: "(string, 'c, 'w) sql_client \<Rightarrow> 'c \<Rightarrow> string list \<Rightarrow> 'w \<Rightarrow> err option \<times> 'w" where
  "prepare_loop cl c [] w = (None, w)"
| "prepare_loop cl c (name # ns) w = (case sq_Prepare cl c name (the (pg_statements name)) w of
      (Some e, w') \<Rightarrow> (Some (''pgdriver: prepare '' @ fmt_q name @ '': '' @ e), w')
    | (None, w') \<Rightarrow> prepare_loop cl c ns w')"

text \<open>\<open>order\<close> is the order in which the statements' map is iterated.\<close>

definition pg_Prepare ::
  "(string, 'c, 'w) sql_client \<Rightarrow> string list \<Rightarrow> 'c pgConn \<Rightarrow> Workload \<Rightarrow> 'w \<Rightarrow> (err option \<times> 'c pgConn) \<times> 'w" where
  "pg_Prepare cl order c wl w =
     (let c' = c\<lparr>pg_scanLimit := scanLimitFromWorkload wl\<rparr>; (e, w') = prepare_loop cl (pg_conn c) order w in ((e, c'), w'))"

definition pg_execRead :: "(string, 'c, 'w) sql_client \<Rightarrow> 'c pgConn \<Rightarrow> OpType \<Rightarrow> opPlan \<Rightarrow> 'w \<Rightarrow> OpResult \<times> 'w" where
  "pg_execRead cl c t plan w = (case sq_QueryRow cl (pg_conn c) (pn_stmt plan) (pn_args plan) w of
      (ErrNoRows, w') \<Rightarrow> (op_result t, w')
    | (ScanErr e, w') \<Rightarrow> ((op_result t)\<lparr>r_Err := Some e\<rparr>, w')
    | (Scanned v, w') \<Rightarrow> ((op_result t)\<lparr>r_Observed := bytes_any v, r_Rows := 1\<rparr>, w'))"

definition pg_execWrite :: "(string, 'c, 'w) sql_client \<Rightarrow> 'c pgConn \<Rightarrow> OpType \<Rightarrow> opPlan \<Rightarrow> 'w \<Rightarrow> OpResult \<times> 'w" where
  "pg_execWrite cl c t plan w = (case sq_Exec cl (pg_conn c) (pn_stmt plan) (pn_args plan) w of
      (Inl e, w') \<Rightarrow> ((op_result t)\<lparr>r_Err := Some e\<rparr>, w')
    | (Inr n, w') \<Rightarrow> ((op_result t)\<lparr>r_Rows := n\<rparr>, w'))"

definition pg_execScan :: "(string, 'c, 'w) sql_client \<Rightarrow> 'c pgConn \<Rightarrow> OpType \<Rightarrow> opPlan \<Rightarrow> 'w \<Rightarrow> OpResult \<times> 'w" where
  "pg_execScan cl c t plan w = (case sq_Query cl (pg_conn c) (pn_stmt plan) (pn_args plan) w of
      (Inl e, w') \<Rightarrow> ((op_result t)\<lparr>r_Err := Some e\<rparr>, w')
    | (Inr (rows1, rowsErr), w') \<Rightarrow> (case scan_rows rows1 [] of
          Inl e \<Rightarrow> ((op_result t)\<lparr>r_Err := Some e\<rparr>, w')
        | Inr out \<Rightarrow> (case rowsErr of
              Some e \<Rightarrow> ((op_result t)\<lparr>r_Err := Some e\<rparr>, w')
            | None \<Rightarrow> ((op_result t)\<lparr>r_Observed := AByteSlices out, r_Rows := int (length out)\<rparr>, w'))))"

definition pg_Execute :: "(string, 'c, 'w) sql_client \<Rightarrow> 'c pgConn \<Rightarrow> Operation \<Rightarrow> 'w \<Rightarrow> OpResult \<times> 'w" where
  "pg_Execute cl c op w = (case pg_planFor op (pg_scanLimit c) of
      Inl e \<Rightarrow> ((op_result (op_Type op))\<lparr>r_Err := Some e\<rparr>, w)
    | Inr plan \<Rightarrow> (case pn_kind plan of
          kindRead \<Rightarrow> pg_execRead cl c (op_Type op) plan w
        | kindScan \<Rightarrow> pg_execScan cl c (op_Type op) plan w
        | kindWrite \<Rightarrow> pg_execWrite cl c (op_Type op) plan w))"

definition pg_Close :: "(string, 'c, 'w) sql_client \<Rightarrow> 'c pgConn option \<Rightarrow> 'w \<Rightarrow> err option \<times> 'w" where
  "pg_Close cl c w = (case c of None \<Rightarrow> (None, w) | Some c \<Rightarrow> sq_Close cl (pg_conn c) w)"

subsection \<open>The driver\<close>

definition pg_open ::
  "(string \<Rightarrow> string) \<Rightarrow> (string, 'c, 'w) sql_client \<Rightarrow> Config \<Rightarrow> string \<Rightarrow> 'w \<Rightarrow> (err + 'c) \<times> 'w" where
  "pg_open getenv cl cfg endpoint w =
     (case sq_Connect cl (buildDSN endpoint (pg_resolveOptions getenv (cfg_Params cfg))) w of
        (Inl e, w') \<Rightarrow> (Inl (''pgdriver: connect: '' @ e), w')
      | (Inr c, w') \<Rightarrow> (Inr c, w'))"

definition pg_createTableSQL :: string where
  "pg_createTableSQL = ''CREATE TABLE IF NOT EXISTS proofload_kv ('' @ [CHR 0x0A, CHR 0x09] @ ''k   BIGINT PRIMARY KEY,'' @ [CHR 0x0A, CHR 0x09] @
     ''v   BYTEA  NOT NULL,'' @ [CHR 0x0A, CHR 0x09] @ ''seq BIGINT NOT NULL'' @ [CHR 0x0A] @ '')''"

definition pg_Schema :: "(string \<Rightarrow> string) \<Rightarrow> (string, 'c, 'w) sql_client \<Rightarrow> Config \<Rightarrow> 'w \<Rightarrow> err option \<times> 'w" where
  "pg_Schema getenv cl cfg w = (case pg_open getenv cl cfg (firstEndpoint defaultPGPort (cfg_Endpoints cfg)) w of
      (Inl e, w1) \<Rightarrow> (Some e, w1)
    | (Inr c, w1) \<Rightarrow> (case sq_Exec cl c pg_createTableSQL [] w1 of
          (Inl e, w2) \<Rightarrow> (Some (''pgdriver: apply schema: '' @ e), snd (sq_Close cl c w2))
        | (Inr _, w2) \<Rightarrow> (None, snd (sq_Close cl c w2))))"

definition pg_Connect ::
  "(string \<Rightarrow> string) \<Rightarrow> (TxIsoLevel \<Rightarrow> string) \<Rightarrow> (string, 'c, 'w) sql_client \<Rightarrow> Config \<Rightarrow> 'w \<Rightarrow> (err + 'c pgConn) \<times> 'w" where
  "pg_Connect getenv isoText cl cfg w = (case pg_open getenv cl cfg (firstEndpoint defaultPGPort (cfg_Endpoints cfg)) w of
      (Inl e, w1) \<Rightarrow> (Inl e, w1)
    | (Inr conn, w1) \<Rightarrow>
        (let c = \<lparr>pg_conn = conn, pg_scanLimit = defaultScanLimit\<rparr> in
         case applyConsistency isoText cl c (cfg_Consistency cfg) w1 of
           (Some e, w2) \<Rightarrow> (Inl e, snd (sq_Close cl conn w2))
         | (None, w2) \<Rightarrow> (Inr c, w2)))"

definition pg_ReadKeyFrom ::
  "(string \<Rightarrow> string) \<Rightarrow> (string, 'c, 'w) sql_client \<Rightarrow> Node \<Rightarrow> int \<Rightarrow> 'w \<Rightarrow> (err + OpResult) \<times> 'w" where
  "pg_ReadKeyFrom getenv cl node key w =
     (if n_Client node = '''' then (Inl (''pgdriver: node '' @ fmt_q (n_ID node) @ '' has no client endpoint''), w)
      else case sq_Connect cl (buildDSN (n_Client node) (pg_resolveOptions getenv Map.empty)) w of
        (Inl e, w1) \<Rightarrow> (Inl (''pgdriver: connect to node '' @ fmt_q (n_ID node) @ '': '' @ e), w1)
      | (Inr c, w1) \<Rightarrow> (case sq_QueryRow cl c (the (pg_statements ''pl_read'')) [AInt64 key] w1 of
            (ErrNoRows, w2) \<Rightarrow> (Inr (op_result ''read''), snd (sq_Close cl c w2))
          | (ScanErr e, w2) \<Rightarrow> (Inl (''pgdriver: read key '' @ fmt_int key @ '' from node '' @ fmt_q (n_ID node) @ '': '' @ e), snd (sq_Close cl c w2))
          | (Scanned v, w2) \<Rightarrow> (Inr ((op_result ''read'')\<lparr>r_Observed := bytes_any v, r_Rows := 1\<rparr>), snd (sq_Close cl c w2))))"

section \<open>The server\<close>

text \<open>A prepared name stands for its text. The laws of the four statements are those of SQL on a table with
  the primary key \<open>k\<close>; \<open>up\<close> says that the server answers.\<close>

definition sql_text :: "(string \<Rightarrow> string option) \<Rightarrow> string \<Rightarrow> string" where
  "sql_text prep stmt = (case prep stmt of Some q \<Rightarrow> q | None \<Rightarrow> stmt)"

definition row_of :: "(u8 list \<times> int) option \<Rightarrow> scan_result" where
  "row_of r = (case r of Some (v, _) \<Rightarrow> Scanned (Some v) | None \<Rightarrow> ErrNoRows)"

definition pg_lawful ::
  "(string, 'c, 'w) sql_client \<Rightarrow> 'c \<Rightarrow> ('w \<Rightarrow> kv_table) \<Rightarrow> ('w \<Rightarrow> string \<Rightarrow> string option) \<Rightarrow> ('w \<Rightarrow> bool) \<Rightarrow> bool" where
  "pg_lawful cl c tab prep up \<longleftrightarrow> (\<forall>w. up w \<longrightarrow>
     (\<forall>name q. \<exists>w'. sq_Prepare cl c name q w = (None, w') \<and> up w' \<and> tab w' = tab w \<and> prep w' = (prep w)(name \<mapsto> q)) \<and>
     (\<forall>stmt k. sql_text (prep w) stmt = ''SELECT v FROM proofload_kv WHERE k=$1'' \<longrightarrow>
        (\<exists>w'. sq_QueryRow cl c stmt [AInt64 k] w = (row_of (tab w k), w') \<and> up w' \<and> tab w' = tab w \<and> prep w' = prep w)) \<and>
     (\<forall>stmt k v q. sql_text (prep w) stmt =
          ''INSERT INTO proofload_kv (k, v, seq) VALUES ($1, $2, $3) ON CONFLICT (k) DO UPDATE SET v = EXCLUDED.v, seq = EXCLUDED.seq'' \<longrightarrow>
        (\<exists>w'. sq_Exec cl c stmt [AInt64 k, ABytes v, AInt64 q] w = (Inr 1, w') \<and> up w' \<and> tab w' = (tab w)(k \<mapsto> (v, q)) \<and> prep w' = prep w)) \<and>
     (\<forall>stmt k v q. sql_text (prep w) stmt = ''UPDATE proofload_kv SET v = $2, seq = $3 WHERE k = $1'' \<longrightarrow>
        (\<exists>w'. sq_Exec cl c stmt [AInt64 k, ABytes v, AInt64 q] w = (Inr (if tab w k = None then 0 else 1), w') \<and> up w' \<and>
           tab w' = (if tab w k = None then tab w else (tab w)(k \<mapsto> (v, q))) \<and> prep w' = prep w)) \<and>
     (\<forall>stmt k n. sql_text (prep w) stmt = ''SELECT k, v FROM proofload_kv WHERE k >= $1 ORDER BY k LIMIT $2'' \<longrightarrow> 0 < n \<longrightarrow>
        (\<exists>w'. sq_Query cl c stmt [AInt64 k, AInt n] w = (Inr (map (Inr \<circ> Some) (table_scan (tab w) k n), None), w') \<and>
           up w' \<and> tab w' = tab w \<and> prep w' = prep w)))"

definition pg_ready :: "('w \<Rightarrow> string \<Rightarrow> string option) \<Rightarrow> ('w \<Rightarrow> bool) \<Rightarrow> 'w \<Rightarrow> bool" where
  "pg_ready prep up w \<longleftrightarrow> up w \<and> pg_statements \<subseteq>\<^sub>m prep w"

definition pg_scan :: "int \<Rightarrow> kv_table \<Rightarrow> int \<Rightarrow> u8 list list" where
  "pg_scan n t k = table_scan t k (if n \<le> 0 then defaultScanLimit else n)"

section \<open>Sessions\<close>

lemma pg_ready_text:
  assumes "pg_ready prep up w"
  shows "up w" "sql_text (prep w) ''pl_read'' = ''SELECT v FROM proofload_kv WHERE k=$1''"
    "sql_text (prep w) ''pl_upsert'' =
      ''INSERT INTO proofload_kv (k, v, seq) VALUES ($1, $2, $3) ON CONFLICT (k) DO UPDATE SET v = EXCLUDED.v, seq = EXCLUDED.seq''"
    "sql_text (prep w) ''pl_update'' = ''UPDATE proofload_kv SET v = $2, seq = $3 WHERE k = $1''"
    "sql_text (prep w) ''pl_scan'' = ''SELECT k, v FROM proofload_kv WHERE k >= $1 ORDER BY k LIMIT $2''"
proof -
  have p: "prep w n = Some q" if "pg_statements n = Some q" for n q
    using assms that by (auto simp: pg_ready_def map_le_def dom_def)
  show "up w"
    using assms by (simp add: pg_ready_def)
qed (use assms in \<open>auto simp: sql_text_def pg_ready_def map_le_def dom_def pg_statements_def\<close>)

lemma pg_prepare_loop:
  assumes "pg_lawful cl c tab prep up" "up w"
  shows "\<exists>w'. prepare_loop cl c ns w = (None, w') \<and> up w' \<and> tab w' = tab w \<and>
    prep w' = foldl (\<lambda>p n. p(n \<mapsto> the (pg_statements n))) (prep w) ns"
  using assms(2)
proof (induction ns arbitrary: w)
  case (Cons n ns)
  obtain w1 where w1: "sq_Prepare cl c n (the (pg_statements n)) w = (None, w1)" "up w1" "tab w1 = tab w"
      "prep w1 = (prep w)(n \<mapsto> the (pg_statements n))"
    using assms(1) Cons.prems unfolding pg_lawful_def by metis
  thus ?case
    using Cons.IH [OF w1(2)] by simp
qed simp

lemma foldl_upd: "foldl (\<lambda>p n. p(n \<mapsto> f n)) p ns k = (if k \<in> set ns then Some (f k) else p k)"
  by (induction ns arbitrary: p) auto

lemma pg_Prepare_ready:
  assumes "pg_lawful cl (pg_conn c) tab prep up" "up w" "order_of pg_statements order"
  shows "\<exists>w'. pg_Prepare cl order c wl w = ((None, c\<lparr>pg_scanLimit := scanLimitFromWorkload wl\<rparr>), w') \<and> pg_ready prep up w' \<and> tab w' = tab w"
proof -
  obtain w' where w': "prepare_loop cl (pg_conn c) order w = (None, w')" "up w'" "tab w' = tab w"
      "prep w' = foldl (\<lambda>p n. p(n \<mapsto> the (pg_statements n))) (prep w) order"
    using pg_prepare_loop [OF assms(1,2)] by blast
  have "pg_statements \<subseteq>\<^sub>m prep w'"
    using assms(3) by (auto simp: map_le_def w'(4) foldl_upd order_of_def)
  thus ?thesis
    using w'(1-3) by (simp add: pg_Prepare_def pg_ready_def)
qed

lemma pg_Execute_refines:
  assumes "pg_lawful cl (pg_conn c) tab prep up"
  shows "refines_table (pg_Execute cl c) tab (pg_ready prep up) ''pgdriver'' False (pg_scan (pg_scanLimit c))"
  unfolding refines_table_def
proof (intro allI impI)
  fix op w
  assume w: "pg_ready prep up w"
  note law = assms [unfolded pg_lawful_def, THEN spec, THEN mp, OF pg_ready_text(1) [OF w]]
  note tx = pg_ready_text [OF w]
  have keep: "pg_ready prep up w'" if "up w'" "prep w' = prep w" for w'
    using w that by (simp add: pg_ready_def)
  let ?goal = "\<exists>w'. pg_Execute cl c op w = (fst (table_op ''pgdriver'' False (pg_scan (pg_scanLimit c)) op (tab w)), w') \<and>
      tab w' = snd (table_op ''pgdriver'' False (pg_scan (pg_scanLimit c)) op (tab w)) \<and> pg_ready prep up w'"
  consider "op_Type op \<in> {''read'', ''r''}" | "op_Type op \<in> {''insert'', ''w''}" | "op_Type op = ''update''" | "op_Type op = ''scan''"
    | "op_Type op \<notin> {''read'', ''r'', ''insert'', ''w'', ''update'', ''scan''}"
    by blast
  thus ?goal
  proof cases
    case 1
    obtain w' where "sq_QueryRow cl (pg_conn c) ''pl_read'' [AInt64 (op_Key op)] w = (row_of (tab w (op_Key op)), w')" "up w'" "tab w' = tab w" "prep w' = prep w"
      using law tx(2) by blast
    thus ?thesis
      using 1 keep by (cases "tab w (op_Key op)") (auto simp: pg_Execute_def pg_planFor_def pg_execRead_def table_op_def row_of_def bytes_any_def Let_def)
  next
    case 2
    obtain w' where "sq_Exec cl (pg_conn c) ''pl_upsert'' [AInt64 (op_Key op), ABytes (op_Value op), AInt64 (op_Seq op)] w = (Inr 1, w')" "up w'"
        "tab w' = (tab w)(op_Key op \<mapsto> (op_Value op, op_Seq op))" "prep w' = prep w"
      using law tx(3) by blast
    thus ?thesis
      using 2 keep by (auto simp: pg_Execute_def pg_planFor_def pg_execWrite_def table_op_def Let_def)
  next
    case 3
    obtain w' where "sq_Exec cl (pg_conn c) ''pl_update'' [AInt64 (op_Key op), ABytes (op_Value op), AInt64 (op_Seq op)] w =
          (Inr (if tab w (op_Key op) = None then 0 else 1), w')" "up w'"
        "tab w' = (if tab w (op_Key op) = None then tab w else (tab w)(op_Key op \<mapsto> (op_Value op, op_Seq op)))" "prep w' = prep w"
      using law tx(4) by blast
    thus ?thesis
      using 3 keep by (auto simp: pg_Execute_def pg_planFor_def pg_execWrite_def table_op_def Let_def op_result_def)
  next
    case 4
    let ?n = "if pg_scanLimit c \<le> 0 then defaultScanLimit else pg_scanLimit c"
    have "0 < ?n"
      by (simp add: defaultScanLimit_def)
    then obtain w' where "sq_Query cl (pg_conn c) ''pl_scan'' [AInt64 (op_Key op), AInt ?n] w =
          (Inr (map (Inr \<circ> Some) (table_scan (tab w) (op_Key op) ?n), None), w')" "up w'" "tab w' = tab w" "prep w' = prep w"
      using law tx(5) by blast
    thus ?thesis
      using 4 keep by (simp add: pg_Execute_def pg_planFor_def pg_execScan_def table_op_def pg_scan_def scan_rows_append Let_def)
  next
    case 5
    thus ?thesis
      using w by (simp add: pg_Execute_def pg_planFor_def table_op_def Let_def)
  qed
qed

text \<open>Every way out of \<open>Schema\<close>, \<open>Connect\<close> and \<open>ReadKeyFrom\<close> closes the sessions it does not hand out.\<close>

lemma pg_open_live:
  assumes "sql_tracks cl live"
  shows "pg_open getenv cl cfg ep w = (Inr c, w') \<Longrightarrow> live w' = add_mset c (live w)"
    and "pg_open getenv cl cfg ep w = (Inl e, w') \<Longrightarrow> live w' = live w"
  using sql_tracksD(1,2) [OF assms] by (auto simp: pg_open_def split: prod.splits sum.splits)

lemma applyConsistency_live:
  assumes "sql_tracks cl live" "applyConsistency isoText cl c cons w = (r, w')"
  shows "live w' = live w"
proof (cases "isoLevel cons")
  case (Inr lvl)
  let ?q = "''SET SESSION CHARACTERISTICS AS TRANSACTION ISOLATION LEVEL '' @ isoText lvl"
  have "w' = snd (sq_Exec cl (pg_conn c) ?q [] w)"
    using assms(2) Inr by (cases "sq_Exec cl (pg_conn c) ?q [] w") (auto simp: applyConsistency_def split: sum.splits)
  thus ?thesis
    using sql_tracksD(6) [OF assms(1)] by simp
qed (use assms(2) in \<open>simp add: applyConsistency_def\<close>)

lemma pg_Connect_live:
  assumes "sql_tracks cl live"
  shows "pg_Connect getenv isoText cl cfg w = (Inr c, w') \<Longrightarrow> live w' = add_mset (pg_conn c) (live w)"
    and "pg_Connect getenv isoText cl cfg w = (Inl e, w') \<Longrightarrow> live w' = live w"
proof -
  obtain r w1 where o: "pg_open getenv cl cfg (firstEndpoint defaultPGPort (cfg_Endpoints cfg)) w = (r, w1)"
    by fastforce
  obtain e2 w2 where a: "applyConsistency isoText cl \<lparr>pg_conn = projr r, pg_scanLimit = defaultScanLimit\<rparr> (cfg_Consistency cfg) w1 = (e2, w2)"
    by fastforce
  note l = pg_open_live [OF assms] applyConsistency_live [OF assms a] sql_tracksD(3) [OF assms]
  show "pg_Connect getenv isoText cl cfg w = (Inr c, w') \<Longrightarrow> live w' = add_mset (pg_conn c) (live w)"
    using o a l by (cases r) (auto simp: pg_Connect_def Let_def split: option.splits)
  show "pg_Connect getenv isoText cl cfg w = (Inl e, w') \<Longrightarrow> live w' = live w"
    using o a l by (cases r) (auto simp: pg_Connect_def Let_def split: option.splits)
qed

lemma pg_Schema_live:
  assumes "sql_tracks cl live" "pg_Schema getenv cl cfg w = (r, w')"
  shows "live w' = live w"
proof -
  obtain x w1 where o: "pg_open getenv cl cfg (firstEndpoint defaultPGPort (cfg_Endpoints cfg)) w = (x, w1)"
    by fastforce
  obtain y w2 where q: "sq_Exec cl (projr x) pg_createTableSQL [] w1 = (y, w2)"
    by fastforce
  show ?thesis
    using assms(2) o q pg_open_live [OF assms(1)] sql_tracksD(3) [OF assms(1)] sql_tracksD(6) [OF assms(1), of "projr x" pg_createTableSQL "[]" w1]
    by (cases x; cases y) (auto simp: pg_Schema_def)
qed

lemma pg_ReadKeyFrom_live:
  assumes "sql_tracks cl live" "pg_ReadKeyFrom getenv cl n k w = (r, w')"
  shows "live w' = live w"
proof -
  obtain x w1 where o: "sq_Connect cl (buildDSN (n_Client n) (pg_resolveOptions getenv Map.empty)) w = (x, w1)"
    by fastforce
  obtain y w2 where q: "sq_QueryRow cl (projr x) (the (pg_statements ''pl_read'')) [AInt64 k] w1 = (y, w2)"
    by fastforce
  show ?thesis
    using assms(2) o q sql_tracksD(1-3) [OF assms(1)] sql_tracksD(7) [OF assms(1), of "projr x" "the (pg_statements ''pl_read'')" "[AInt64 k]" w1]
    by (cases x; cases y) (auto simp: pg_ReadKeyFrom_def split: if_splits)
qed

text \<open>An update of a key the table does not have succeeds with no row changed. The observer takes it for an
  acknowledged write, and the read-back then reports its key as lost.\<close>

lemma pg_update_missing_logged:
  assumes "pg_lawful cl (pg_conn c) tab prep up" "pg_ready prep up w" "op_Type op = ''update''" "op_Value op \<noteq> []" "tab w (op_Key op) = None"
  shows "\<exists>res w'. pg_Execute cl c op w = (res, w') \<and> r_Err res = None \<and> r_Rows res = 0 \<and> tab w' (op_Key op) = None \<and>
    writeLogObserver_Observe encode op res ls =
      ls @ [encode \<lparr>wr_Key = op_Key op, wr_Checksum = Checksum (op_Value op), wr_Seq = op_Seq op\<rparr>]"
proof -
  obtain w' where "pg_Execute cl c op w = (fst (table_op ''pgdriver'' False (pg_scan (pg_scanLimit c)) op (tab w)), w')"
      "tab w' = snd (table_op ''pgdriver'' False (pg_scan (pg_scanLimit c)) op (tab w))"
    using pg_Execute_refines [OF assms(1)] assms(2) unfolding refines_table_def by blast
  thus ?thesis
    using assms(3-5) by (simp add: table_op_def op_result_def writeLogObserver_Observe_def LogWriter_Record_def Let_def)
qed

section \<open>Reading connection strings\<close>

text \<open>The keyword/value format of connection strings: settings separated by white space; a value is a word, or
  is quoted, and a backslash takes the next character literally.\<close>

fun dsn_quoted :: "string \<Rightarrow> (string \<times> string) option" where
  "dsn_quoted [] = None"
| "dsn_quoted (c # s) =
     (if c = CHR 0x27 then Some ([], s)
      else if c = CHR 0x5C then (case s of [] \<Rightarrow> None | d # s' \<Rightarrow> map_option (map_prod ((#) d) id) (dsn_quoted s'))
      else map_option (map_prod ((#) c) id) (dsn_quoted s))"

fun dsn_word :: "string \<Rightarrow> (string \<times> string) option" where
  "dsn_word [] = Some ([], [])"
| "dsn_word (c # s) =
     (if is_space c then Some ([], c # s)
      else if c = CHR 0x5C then (case s of [] \<Rightarrow> None | d # s' \<Rightarrow> map_option (map_prod ((#) d) id) (dsn_word s'))
      else map_option (map_prod ((#) c) id) (dsn_word s))"

definition dsn_value :: "string \<Rightarrow> (string \<times> string) option" where
  "dsn_value s = (case s of c # s' \<Rightarrow> if c = CHR 0x27 then dsn_quoted s' else dsn_word s | [] \<Rightarrow> Some ([], []))"

lemma dsn_quoted_length: "dsn_quoted s = Some (v, r) \<Longrightarrow> length r \<le> length s"
proof (induction s arbitrary: v r rule: dsn_quoted.induct)
  case (2 c s)
  consider "c = CHR 0x27" | d s' v' where "\<not> c = CHR 0x27" "c = CHR 0x5C" "s = d # s'" "dsn_quoted s' = Some (v', r)"
    | v' where "\<not> c = CHR 0x27" "c \<noteq> CHR 0x5C" "dsn_quoted s = Some (v', r)"
    using 2(3) by (auto split: if_splits list.splits)
  thus ?case
  proof cases
    case 1
    thus ?thesis
      using 2(3) by auto
  next
    case 2
    thus ?thesis
      using "2.IH"(1) by fastforce
  next
    case 3
    thus ?thesis
      using "2.IH"(2) by fastforce
  qed
qed simp

lemma dsn_word_length: "dsn_word s = Some (v, r) \<Longrightarrow> length r \<le> length s"
proof (induction s arbitrary: v r rule: dsn_word.induct)
  case (2 c s)
  show ?case
  proof (cases "is_space c")
    case True
    thus ?thesis
      using 2(3) by simp
  next
    case ns: False
    show ?thesis
    proof (cases "c = CHR 0x5C")
      case True
      then obtain d s' v' where "s = d # s'" "dsn_word s' = Some (v', r)"
        using 2(3) ns by (simp split: list.splits) blast
      thus ?thesis
        using "2.IH"(1) [OF ns True] by fastforce
    next
      case False
      then obtain v' where "dsn_word s = Some (v', r)"
        using 2(3) ns by auto
      thus ?thesis
        using "2.IH"(2) [OF ns False] by fastforce
    qed
  qed
qed simp

lemma dsn_value_length: "dsn_value s = Some (v, r) \<Longrightarrow> length r \<le> length s"
  using dsn_quoted_length [of "tl s" v r] dsn_word_length [of s v r]
  by (cases s) (auto simp: dsn_value_def simp del: dsn_word.simps split: if_splits)

function dsn_parse :: "string \<Rightarrow> (string \<times> string) list option" where
  "dsn_parse s0 =
     (let s = dropWhile is_space s0 in
      if s = [] then Some []
      else let key = takeWhile (\<lambda>c. c \<noteq> CHR ''='') s in
        case dropWhile (\<lambda>c. c \<noteq> CHR ''='') s of
          [] \<Rightarrow> None
        | _ # rest \<Rightarrow> (case dsn_value rest of None \<Rightarrow> None | Some (v, rest') \<Rightarrow> map_option ((#) (key, v)) (dsn_parse rest')))"
  by auto
termination
proof (relation "measure length", goal_cases)
  case (2 s0 s key c rest p v rest')
  have "length (c # rest) \<le> length s"
    unfolding 2(4) [symmetric] by (rule length_dropWhile_le)
  moreover have "length s \<le> length s0"
    unfolding 2(1) by (rule length_dropWhile_le)
  moreover have "length rest' \<le> length rest"
    using 2 dsn_value_length by blast
  ultimately show ?case
    by simp
qed simp

declare dsn_parse.simps [simp del]

text \<open>A value may hold blanks but no other white space.\<close>

definition dsn_plain :: "string \<Rightarrow> bool" where
  "dsn_plain v \<longleftrightarrow> (\<forall>c\<in>set v. is_space c \<longrightarrow> c = CHR '' '')"

definition dsn_key :: "string \<Rightarrow> bool" where
  "dsn_key k \<longleftrightarrow> k \<noteq> '''' \<and> (\<forall>c\<in>set k. c \<noteq> CHR ''='' \<and> \<not> is_space c)"

lemma dsn_quoted_escape: "dsn_quoted (escapeDSN v @ CHR 0x27 # r) = Some (v, r)"
  by (induction v) (simp_all add: escapeDSN_def Let_def)

lemma dsn_word_plain:
  assumes "\<forall>c\<in>set v. \<not> is_space c \<and> c \<noteq> CHR 0x5C" "r = [] \<or> is_space (hd r)"
  shows "dsn_word (v @ r) = Some (v, r)"
  using assms by (induction v) (cases r; simp)+

lemma dsn_value_kv:
  assumes "dsn_plain v" "r = [] \<or> is_space (hd r)"
  shows "\<exists>t. pg_kv k v = k @ ''='' @ t \<and> dsn_value (t @ r) = Some (v, r)"
proof (cases "v = '''' \<or> (\<exists>c\<in>set v. c \<in> {CHR '' '', CHR 0x27, CHR 0x5C})")
  case True
  thus ?thesis
    by (simp add: pg_kv_def dsn_value_def dsn_quoted_escape)
next
  case False
  hence "\<forall>c\<in>set v. \<not> is_space c \<and> c \<noteq> CHR 0x5C" and ne: "v \<noteq> ''''" "hd v \<noteq> CHR 0x27"
    using assms(1) by (auto simp: dsn_plain_def)
  hence "dsn_word (v @ r) = Some (v, r)"
    using assms(2) by (intro dsn_word_plain)
  thus ?thesis
    using False ne by (cases v) (auto simp: pg_kv_def dsn_value_def)
qed

lemma dsn_parse_kv:
  assumes "dsn_key k" "dsn_plain v" "r = [] \<or> is_space (hd r)"
  shows "dsn_parse (pg_kv k v @ r) = map_option ((#) (k, v)) (dsn_parse r)"
proof -
  obtain t where t: "pg_kv k v = k @ ''='' @ t" "dsn_value (t @ r) = Some (v, r)"
    using dsn_value_kv [OF assms(2,3)] by blast
  have k: "k \<noteq> []" "\<forall>c\<in>set k. c \<noteq> CHR ''='' \<and> \<not> is_space c"
    using assms(1) by (simp_all add: dsn_key_def)
  have "dropWhile is_space (pg_kv k v @ r) = k @ CHR ''='' # t @ r"
    unfolding t(1) using k by (cases k) simp_all
  moreover have "takeWhile (\<lambda>c. c \<noteq> CHR ''='') (k @ CHR ''='' # t @ r) = k"
      "dropWhile (\<lambda>c. c \<noteq> CHR ''='') (k @ CHR ''='' # t @ r) = CHR ''='' # t @ r"
    using k(2) by (simp_all add: takeWhile_append2 dropWhile_append2)
  ultimately show ?thesis
    using k(1) t(2) by (subst dsn_parse.simps) (simp add: Let_def)
qed

lemma dsn_parse_blank: "dsn_parse (CHR '' '' # s) = dsn_parse s"
  by (subst (1 2) dsn_parse.simps) (simp add: is_space_def)

lemma dsn_parse_join:
  assumes "\<forall>(k, v)\<in>set kvs. dsn_key k \<and> dsn_plain v"
  shows "dsn_parse (join '' '' (map (\<lambda>(k, v). pg_kv k v) kvs)) = Some kvs"
  using assms
proof (induction kvs rule: induct_list012)
  case 1
  show ?case
    by (subst dsn_parse.simps) simp
next
  case (2 x)
  show ?case
    using 2 dsn_parse_kv [of "fst x" "snd x" "[]"] dsn_parse.simps [of "[]"] by (simp add: case_prod_beta)
next
  case (3 x y kvs)
  have "dsn_parse (join '' '' (map (\<lambda>(k, v). pg_kv k v) (y # kvs))) = Some (y # kvs)"
    using 3 by simp
  thus ?case
    using 3(3) dsn_parse_kv [of "fst x" "snd x" "CHR '' '' # join '' '' (map (\<lambda>(k, v). pg_kv k v) (y # kvs))"]
    by (simp add: case_prod_unfold dsn_parse_blank is_space_def)
qed

section \<open>A server in memory\<close>

text \<open>A table and the prepared statements, as a server that follows the laws.\<close>

fun arg_int :: "any \<Rightarrow> int" where
  "arg_int (AInt64 n) = n"
| "arg_int (AInt n) = n"
| "arg_int _ = 0"

fun arg_bytes :: "any \<Rightarrow> u8 list" where
  "arg_bytes (ABytes b) = b"
| "arg_bytes _ = []"

type_synonym mem_server = "kv_table \<times> (string \<Rightarrow> string option)"

definition mem_upsert :: string where
  "mem_upsert = ''INSERT INTO proofload_kv (k, v, seq) VALUES ($1, $2, $3) ON CONFLICT (k) DO UPDATE SET v = EXCLUDED.v, seq = EXCLUDED.seq''"

definition mem_Exec :: "string \<Rightarrow> any list \<Rightarrow> mem_server \<Rightarrow> (err + int) \<times> mem_server" where
  "mem_Exec stmt args w =
     (let (t, p) = w; k = arg_int (args ! 0); t' = t(k \<mapsto> (arg_bytes (args ! 1), arg_int (args ! 2))) in
      if sql_text p stmt = mem_upsert then (Inr 1, (t', p))
      else if t k = None then (Inr 0, w) else (Inr 1, (t', p)))"

definition mem_client :: "(string, unit, mem_server) sql_client" where
  "mem_client = \<lparr>sq_Connect = (\<lambda>d w. (Inr (), w)), sq_Close = (\<lambda>c w. (None, w)), sq_Ping = (\<lambda>c w. (None, w)),
     sq_Prepare = (\<lambda>c n q (t, p). (None, (t, p(n \<mapsto> q)))),
     sq_Exec = (\<lambda>c. mem_Exec),
     sq_QueryRow = (\<lambda>c stmt args (t, p). (row_of (t (arg_int (args ! 0))), (t, p))),
     sq_Query = (\<lambda>c stmt args (t, p). (Inr (map (Inr \<circ> Some) (table_scan t (arg_int (args ! 0)) (arg_int (args ! 1))), None), (t, p)))\<rparr>"

lemma mem_lawful: "pg_lawful mem_client () fst snd (\<lambda>_. True)"
  by (simp add: pg_lawful_def mem_client_def mem_Exec_def mem_upsert_def split_beta Let_def) auto

definition mem_conn :: "unit pgConn" where
  "mem_conn = \<lparr>pg_conn = (), pg_scanLimit = defaultScanLimit\<rparr>"

interpretation mem: row_target "pg_Execute mem_client mem_conn" "\<lambda>w. table_store (fst w)" "pg_ready snd (\<lambda>_. True)" "{''read'', ''r''}"
    "\<lambda>op w. op_Type op \<in> {''insert'', ''w''} \<or> op_Type op = ''update'' \<and> (False \<or> fst w (op_Key op) \<noteq> None)"
  by (rule refines_row_target) (use pg_Execute_refines [of mem_client mem_conn] mem_lawful in \<open>simp add: mem_conn_def\<close>)

section \<open>Properties\<close>

text \<open>C35: a session of the PostgreSQL driver implements the abstract table. On a server that follows SQL for its four statements,
  preparing succeeds whatever the order in which the statements are registered, and then every sequence of operations returns the
  results of the abstract operations and leaves the table they leave: reads, upserts, updates of existing keys only, scans bounded by the
  workload's limit in key order, and an error without effect for every other operation type.\<close>

theorem pg_session_refines:
  assumes "pg_lawful cl (pg_conn c) tab prep up" "up w" "order_of pg_statements order"
  shows "\<exists>c' w1. pg_Prepare cl order c wl w = ((None, c'), w1) \<and> tab w1 = tab w \<and>
    (\<forall>ops. let spec = run_conn (table_op ''pgdriver'' False (\<lambda>t k. table_scan t k (scanLimitFromWorkload wl))) ops (tab w)
       in \<exists>w2. run_conn (pg_Execute cl c') ops w1 = (fst spec, w2) \<and> tab w2 = snd spec)"
proof -
  let ?c = "c\<lparr>pg_scanLimit := scanLimitFromWorkload wl\<rparr>"
  obtain w1 where w1: "pg_Prepare cl order c wl w = ((None, ?c), w1)" "pg_ready prep up w1" "tab w1 = tab w"
    using pg_Prepare_ready [OF assms] by blast
  have "pg_scan (pg_scanLimit ?c) = (\<lambda>t k. table_scan t k (scanLimitFromWorkload wl))"
    using scan_limit_pos [of wl] by (simp add: pg_scan_def fun_eq_iff)
  hence "refines_table (pg_Execute cl ?c) tab (pg_ready prep up) ''pgdriver'' False (\<lambda>t k. table_scan t k (scanLimitFromWorkload wl))"
    using pg_Execute_refines [of cl ?c tab prep up] assms(1) by simp
  note run = refines_run [OF this w1(2), unfolded w1(3)]
  show ?thesis
    using w1(1,3) run by (intro exI [of _ ?c] exI [of _ w1]) (auto simp: Let_def)
qed

theorem pg_session_refines_witness:
  "\<exists>c' w1 w2. pg_Prepare mem_client [''pl_scan'', ''pl_read'', ''pl_update'', ''pl_upsert''] mem_conn
      \<lparr>w_Name = [], w_Mode = [], w_Operations = [], w_KeySpace = 10, w_KeyDist = [], w_ValueSize = 0, w_VerifyModel = [], w_Params = Map.empty\<rparr>
      (Map.empty, Map.empty) = ((None, c'), w1) \<and>
    run_conn (pg_Execute mem_client c')
      [\<lparr>op_Type = ''insert'', op_Key = 5, op_Value = [1], op_Seq = 7, op_Args = Map.empty\<rparr>,
       \<lparr>op_Type = ''update'', op_Key = 9, op_Value = [2], op_Seq = 8, op_Args = Map.empty\<rparr>,
       \<lparr>op_Type = ''read'', op_Key = 5, op_Value = [], op_Seq = 9, op_Args = Map.empty\<rparr>] w1 =
      ([\<lparr>r_Type = ''insert'', r_Rows = 1, r_Observed = ANil, r_Err = None\<rparr>,
        \<lparr>r_Type = ''update'', r_Rows = 0, r_Observed = ANil, r_Err = None\<rparr>,
        \<lparr>r_Type = ''read'', r_Rows = 1, r_Observed = ABytes [1], r_Err = None\<rparr>], w2) \<and> fst w2 = [5 \<mapsto> ([1], 7)]"
  (is "\<exists>c' w1 w2. pg_Prepare mem_client ?order mem_conn ?wl ?w = _ \<and> run_conn _ ?ops w1 = _ \<and> _")
proof -
  have o: "order_of pg_statements ?order"
    by (auto simp: order_of_def pg_statements_def)
  have l: "pg_lawful mem_client (pg_conn mem_conn) fst snd (\<lambda>_. True)"
    using mem_lawful by (simp add: mem_conn_def)
  obtain c' w1 where p: "pg_Prepare mem_client ?order mem_conn ?wl ?w = ((None, c'), w1)"
      "\<forall>ops. let spec = run_conn (table_op ''pgdriver'' False (\<lambda>t k. table_scan t k (scanLimitFromWorkload ?wl))) ops (fst ?w)
         in \<exists>w2. run_conn (pg_Execute mem_client c') ops w1 = (fst spec, w2) \<and> fst w2 = snd spec"
    using pg_session_refines [OF l TrueI o, of ?wl ?w] by blast
  thus ?thesis
    using p(2) [THEN spec, of ?ops] by (auto simp: table_op_def op_result_def Let_def)
qed



end
