(* ===== verification/Cassandra.thy ===== *)
theory Cassandra
  imports Target_Driver
begin

text \<open>
  The Cassandra target (\<open>targets/cassandra/cassandradriver\<close>): the CQL of the
  operations and of the schema (\<open>cql.go\<close>), the cluster configuration (\<open>config.go\<close>),
  the session (\<open>conn.go\<close>), schema and connect (\<open>driver.go\<close>) and node-local reads
  (\<open>cluster.go\<close>). The client library and the ring are an argument; \<open>cass_lawful\<close>
  states what CQL promises for the four statements.
\<close>

section \<open>Definitions\<close>

subsection \<open>CQL\<close>

definition readCQL :: string where
  "readCQL = ''SELECT v FROM kv WHERE k = ?''"

definition insertCQL :: string where
  "insertCQL = ''INSERT INTO kv (k, v, seq) VALUES (?, ?, ?)''"

definition updateCQL :: string where
  "updateCQL = ''UPDATE kv SET v = ?, seq = ? WHERE k = ?''"

definition scanCQL :: string where
  "scanCQL = ''SELECT k, v FROM kv WHERE token(k) >= token(?) LIMIT ?''"

definition cass_statements :: "string \<Rightarrow> string option" where
  "cass_statements = [''pl_read'' \<mapsto> readCQL, ''pl_insert'' \<mapsto> insertCQL, ''pl_update'' \<mapsto> updateCQL, ''pl_scan'' \<mapsto> scanCQL]"

definition cass_planFor :: "Operation \<Rightarrow> int \<Rightarrow> err + opPlan" where
  "cass_planFor op scanLimit =
     (let t = op_Type op in
      if t \<in> {''read'', ''r''} then Inr \<lparr>pn_stmt = readCQL, pn_args = [AInt64 (op_Key op)], pn_kind = kindRead\<rparr>
      else if t \<in> {''insert'', ''w''}
        then Inr \<lparr>pn_stmt = insertCQL, pn_args = [AInt64 (op_Key op), ABytes (op_Value op), AInt64 (op_Seq op)], pn_kind = kindWrite\<rparr>
      else if t = ''update''
        then Inr \<lparr>pn_stmt = updateCQL, pn_args = [ABytes (op_Value op), AInt64 (op_Seq op), AInt64 (op_Key op)], pn_kind = kindWrite\<rparr>
      else if t = ''scan''
        then Inr \<lparr>pn_stmt = scanCQL, pn_args = [AInt64 (op_Key op), AInt (if scanLimit \<le> 0 then defaultScanLimit else scanLimit)], pn_kind = kindScan\<rparr>
      else Inl (''cassandradriver: unsupported op type '' @ fmt_q t))"

datatype gocql_Consistency = gocql_One | gocql_Quorum | gocql_LocalQuorum | gocql_All

definition supportedConsistency :: "string list" where
  "supportedConsistency = [''one'', ''quorum'', ''local_quorum'', ''all'']"

definition consistencyLevel :: "string \<Rightarrow> err + gocql_Consistency" where
  "consistencyLevel consistency =
     (if consistency \<in> {'''', ''quorum''} then Inr gocql_Quorum
      else if consistency = ''one'' then Inr gocql_One
      else if consistency \<in> {''local_quorum'', ''local-quorum''} then Inr gocql_LocalQuorum
      else if consistency = ''all'' then Inr gocql_All
      else Inl (''cassandradriver: unsupported consistency '' @ fmt_q consistency))"

definition createKeyspaceCQL :: "string \<Rightarrow> int \<Rightarrow> string" where
  "createKeyspaceCQL keyspace rf =
     ''CREATE KEYSPACE IF NOT EXISTS '' @ keyspace @ '' WITH replication = '' @
     ''{'' @ [CHR 0x27] @ ''class'' @ [CHR 0x27] @ '': '' @ [CHR 0x27] @ ''SimpleStrategy'' @ [CHR 0x27] @ '', '' @
     [CHR 0x27] @ ''replication_factor'' @ [CHR 0x27] @ '': '' @ fmt_int rf @ ''}''"

definition createTableCQL :: "string \<Rightarrow> string" where
  "createTableCQL keyspace = ''CREATE TABLE IF NOT EXISTS '' @ keyspace @ ''.'' @ ''kv'' @ '' '' @ ''(k bigint PRIMARY KEY, v blob, seq bigint)''"

subsection \<open>Configuration\<close>

record clusterOptions =
  co_Keyspace :: string
  co_Consistency :: gocql_Consistency
  co_User :: string
  co_Password :: string
  co_Timeout :: duration

definition hostsFrom :: "string list \<Rightarrow> string list" where
  "hostsFrom endpoints = (if length endpoints = 0 then [''localhost:9042''] else endpoints)"

definition resolveReplicationFactor :: "Config \<Rightarrow> int" where
  "resolveReplicationFactor cfg =
     (let rf = cs_ReplicationFactor (cfg_Cluster cfg) in if rf > 0 then rf else 1)"

definition keyspaceName :: string where
  "keyspaceName = ''proofload''"

definition resolveKeyspace :: "Config \<Rightarrow> string" where
  "resolveKeyspace cfg = (let ks = paramString (cfg_Params cfg) ''keyspace'' in if ks \<noteq> '''' then ks else keyspaceName)"

definition resolveTimeout :: "params \<Rightarrow> duration" where
  "resolveTimeout ps =
     (let ms = asInt (case ps ''timeout_ms'' of Some v \<Rightarrow> v | None \<Rightarrow> ANil)
      in if ms > 0 then i64 (ms * 1000000) else 10 * second)"

definition cass_resolveOptions :: "(string \<Rightarrow> string) \<Rightarrow> Config \<Rightarrow> string \<Rightarrow> err + clusterOptions" where
  "cass_resolveOptions getenv cfg keyspace = (case consistencyLevel (cfg_Consistency cfg) of
      Inl e \<Rightarrow> Inl e
    | Inr cons \<Rightarrow> Inr \<lparr>co_Keyspace = keyspace, co_Consistency = cons,
        co_User = firstNonEmpty [paramString (cfg_Params cfg) ''user'', getenv ''PROOFLOAD_CASSANDRA_USER''],
        co_Password = getenv ''PROOFLOAD_CASSANDRA_PASSWORD'', co_Timeout = resolveTimeout (cfg_Params cfg)\<rparr>)"

text \<open>The fields of the client library's cluster configuration that the driver sets.\<close>

record gocql_ClusterConfig =
  gc_Hosts :: "string list"
  gc_Keyspace :: string
  gc_Consistency :: gocql_Consistency
  gc_Timeout :: duration
  gc_ConnectTimeout :: duration
  gc_NumConns :: int
  gc_NumRetries :: int
  gc_DisableInitialHostLookup :: bool
  gc_Authenticator :: "(string \<times> string) option"
  gc_HostFilter :: "string option"

definition buildCluster :: "string list \<Rightarrow> clusterOptions \<Rightarrow> gocql_ClusterConfig" where
  "buildCluster hosts o1 = \<lparr>gc_Hosts = hosts, gc_Keyspace = co_Keyspace o1, gc_Consistency = co_Consistency o1,
     gc_Timeout = co_Timeout o1, gc_ConnectTimeout = co_Timeout o1, gc_NumConns = 1, gc_NumRetries = 3,
     gc_DisableInitialHostLookup = True,
     gc_Authenticator = (if co_User o1 \<noteq> '''' then Some (co_User o1, co_Password o1) else None), gc_HostFilter = None\<rparr>"

subsection \<open>The session\<close>

record 'c cassConn =
  ca_session :: 'c
  ca_scanLimit :: int

definition cass_Prepare :: "'c cassConn \<Rightarrow> Workload \<Rightarrow> 'c cassConn" where
  "cass_Prepare c wl = c\<lparr>ca_scanLimit := scanLimitFromWorkload wl\<rparr>"

definition cass_execRead :: "(gocql_ClusterConfig, 'c, 'w) sql_client \<Rightarrow> 'c cassConn \<Rightarrow> OpType \<Rightarrow> opPlan \<Rightarrow> 'w \<Rightarrow> OpResult \<times> 'w" where
  "cass_execRead cl c t plan w = (case sq_QueryRow cl (ca_session c) (pn_stmt plan) (pn_args plan) w of
      (ErrNoRows, w') \<Rightarrow> (op_result t, w')
    | (ScanErr e, w') \<Rightarrow> ((op_result t)\<lparr>r_Err := Some e\<rparr>, w')
    | (Scanned v, w') \<Rightarrow> ((op_result t)\<lparr>r_Observed := bytes_any v, r_Rows := 1\<rparr>, w'))"

definition cass_execWrite :: "(gocql_ClusterConfig, 'c, 'w) sql_client \<Rightarrow> 'c cassConn \<Rightarrow> OpType \<Rightarrow> opPlan \<Rightarrow> 'w \<Rightarrow> OpResult \<times> 'w" where
  "cass_execWrite cl c t plan w = (case sq_Exec cl (ca_session c) (pn_stmt plan) (pn_args plan) w of
      (Inl e, w') \<Rightarrow> ((op_result t)\<lparr>r_Err := Some e\<rparr>, w')
    | (Inr _, w') \<Rightarrow> ((op_result t)\<lparr>r_Rows := 1\<rparr>, w'))"

text \<open>The iterator reports an error of the query or of a row only when it is closed.\<close>

definition cass_execScan :: "(gocql_ClusterConfig, 'c, 'w) sql_client \<Rightarrow> 'c cassConn \<Rightarrow> OpType \<Rightarrow> opPlan \<Rightarrow> 'w \<Rightarrow> OpResult \<times> 'w" where
  "cass_execScan cl c t plan w = (case sq_Query cl (ca_session c) (pn_stmt plan) (pn_args plan) w of
      (Inl e, w') \<Rightarrow> ((op_result t)\<lparr>r_Err := Some e\<rparr>, w')
    | (Inr (rows1, closeErr), w') \<Rightarrow> (case scan_rows rows1 [] of
          Inl e \<Rightarrow> ((op_result t)\<lparr>r_Err := Some e\<rparr>, w')
        | Inr out \<Rightarrow> (case closeErr of
              Some e \<Rightarrow> ((op_result t)\<lparr>r_Err := Some e\<rparr>, w')
            | None \<Rightarrow> ((op_result t)\<lparr>r_Observed := AByteSlices out, r_Rows := int (length out)\<rparr>, w'))))"

definition cass_Execute :: "(gocql_ClusterConfig, 'c, 'w) sql_client \<Rightarrow> 'c cassConn \<Rightarrow> Operation \<Rightarrow> 'w \<Rightarrow> OpResult \<times> 'w" where
  "cass_Execute cl c op w = (case cass_planFor op (ca_scanLimit c) of
      Inl e \<Rightarrow> ((op_result (op_Type op))\<lparr>r_Err := Some e\<rparr>, w)
    | Inr plan \<Rightarrow> (case pn_kind plan of
          kindRead \<Rightarrow> cass_execRead cl c (op_Type op) plan w
        | kindScan \<Rightarrow> cass_execScan cl c (op_Type op) plan w
        | kindWrite \<Rightarrow> cass_execWrite cl c (op_Type op) plan w))"

definition cass_Close :: "(gocql_ClusterConfig, 'c, 'w) sql_client \<Rightarrow> 'c cassConn option \<Rightarrow> 'w \<Rightarrow> err option \<times> 'w" where
  "cass_Close cl c w = (case c of None \<Rightarrow> (None, w) | Some c \<Rightarrow> (None, snd (sq_Close cl (ca_session c) w)))"

subsection \<open>The driver\<close>

definition cass_Schema :: "(string \<Rightarrow> string) \<Rightarrow> (gocql_ClusterConfig, 'c, 'w) sql_client \<Rightarrow> Config \<Rightarrow> 'w \<Rightarrow> err option \<times> 'w" where
  "cass_Schema getenv cl cfg w =
     (let keyspace = resolveKeyspace cfg in
      case cass_resolveOptions getenv cfg '''' of
        Inl e \<Rightarrow> (Some e, w)
      | Inr opts \<Rightarrow> (case sq_Connect cl (buildCluster (hostsFrom (cfg_Endpoints cfg)) opts) w of
            (Inl e, w1) \<Rightarrow> (Some (''cassandradriver: open schema session: '' @ e), w1)
          | (Inr session, w1) \<Rightarrow>
              (case sq_Exec cl session (createKeyspaceCQL keyspace (resolveReplicationFactor cfg)) [] w1 of
                 (Inl e, w2) \<Rightarrow> (Some (''cassandradriver: create keyspace: '' @ e), snd (sq_Close cl session w2))
               | (Inr _, w2) \<Rightarrow> (case sq_Exec cl session (createTableCQL keyspace) [] w2 of
                     (Inl e, w3) \<Rightarrow> (Some (''cassandradriver: create table: '' @ e), snd (sq_Close cl session w3))
                   | (Inr _, w3) \<Rightarrow> (None, snd (sq_Close cl session w3))))))"

definition cass_Connect ::
  "(string \<Rightarrow> string) \<Rightarrow> (gocql_ClusterConfig, 'c, 'w) sql_client \<Rightarrow> Config \<Rightarrow> 'w \<Rightarrow> (err + 'c cassConn) \<times> 'w" where
  "cass_Connect getenv cl cfg w = (case cass_resolveOptions getenv cfg (resolveKeyspace cfg) of
      Inl e \<Rightarrow> (Inl e, w)
    | Inr opts \<Rightarrow> (case sq_Connect cl (buildCluster (hostsFrom (cfg_Endpoints cfg)) opts) w of
          (Inl e, w1) \<Rightarrow> (Inl (''cassandradriver: connect: '' @ e), w1)
        | (Inr session, w1) \<Rightarrow> (Inr \<lparr>ca_session = session, ca_scanLimit = defaultScanLimit\<rparr>, w1)))"

definition cass_ReadKeyFrom ::
  "(string \<Rightarrow> string) \<Rightarrow> (gocql_ClusterConfig, 'c, 'w) sql_client \<Rightarrow> Node \<Rightarrow> int \<Rightarrow> 'w \<Rightarrow> (err + OpResult) \<times> 'w" where
  "cass_ReadKeyFrom getenv cl node key w =
     (if n_Client node = '''' then (Inl (''cassandradriver: node '' @ fmt_q (n_ID node) @ '' has no client endpoint''), w)
      else case cass_resolveOptions getenv (level_Config ''one'') keyspaceName of
        Inl e \<Rightarrow> (Inl e, w)
      | Inr opts \<Rightarrow>
          (case sq_Connect cl ((buildCluster [n_Client node] opts)\<lparr>gc_HostFilter := Some (n_Client node), gc_DisableInitialHostLookup := True\<rparr>) w of
             (Inl e, w1) \<Rightarrow> (Inl (''cassandradriver: connect to node '' @ fmt_q (n_ID node) @ '': '' @ e), w1)
           | (Inr session, w1) \<Rightarrow> (case sq_QueryRow cl session readCQL [AInt64 key] w1 of
                 (ErrNoRows, w2) \<Rightarrow> (Inr (op_result ''read''), snd (sq_Close cl session w2))
               | (ScanErr e, w2) \<Rightarrow>
                   (Inl (''cassandradriver: read key '' @ fmt_int key @ '' from node '' @ fmt_q (n_ID node) @ '': '' @ e), snd (sq_Close cl session w2))
               | (Scanned v, w2) \<Rightarrow> (Inr ((op_result ''read'')\<lparr>r_Observed := bytes_any v, r_Rows := 1\<rparr>), snd (sq_Close cl session w2)))))"

section \<open>The ring\<close>

text \<open>An \<open>INSERT\<close> and an \<open>UPDATE\<close> of CQL both write the row of their key; \<open>scan\<close> is the ring's scan in token order.\<close>

definition cass_lawful ::
  "(gocql_ClusterConfig, 'c, 'w) sql_client \<Rightarrow> 'c \<Rightarrow> ('w \<Rightarrow> kv_table) \<Rightarrow> (kv_table \<Rightarrow> int \<Rightarrow> int \<Rightarrow> u8 list list) \<Rightarrow> ('w \<Rightarrow> bool) \<Rightarrow> bool" where
  "cass_lawful cl c tab scan up \<longleftrightarrow> (\<forall>w. up w \<longrightarrow>
     (\<forall>k. \<exists>w'. sq_QueryRow cl c ''SELECT v FROM kv WHERE k = ?'' [AInt64 k] w =
        (case tab w k of Some (v, _) \<Rightarrow> Scanned (Some v) | None \<Rightarrow> ErrNoRows, w') \<and> up w' \<and> tab w' = tab w) \<and>
     (\<forall>k v q. \<exists>n w'. sq_Exec cl c ''INSERT INTO kv (k, v, seq) VALUES (?, ?, ?)'' [AInt64 k, ABytes v, AInt64 q] w = (Inr n, w') \<and>
        up w' \<and> tab w' = (tab w)(k \<mapsto> (v, q))) \<and>
     (\<forall>k v q. \<exists>n w'. sq_Exec cl c ''UPDATE kv SET v = ?, seq = ? WHERE k = ?'' [ABytes v, AInt64 q, AInt64 k] w = (Inr n, w') \<and>
        up w' \<and> tab w' = (tab w)(k \<mapsto> (v, q))) \<and>
     (\<forall>k n. 0 < n \<longrightarrow> (\<exists>w'. sq_Query cl c ''SELECT k, v FROM kv WHERE token(k) >= token(?) LIMIT ?'' [AInt64 k, AInt n] w =
        (Inr (map (Inr \<circ> Some) (scan (tab w) k n), None), w') \<and> up w' \<and> tab w' = tab w)))"

section \<open>Lemmas\<close>

lemma cass_Execute_refines:
  assumes "cass_lawful cl (ca_session c) tab scan up" "0 < ca_scanLimit c"
  shows "refines_table (cass_Execute cl c) tab up ''cassandradriver'' True (\<lambda>t k. scan t k (ca_scanLimit c))"
  unfolding refines_table_def
proof (intro allI impI)
  fix op w
  assume w: "up w"
  note law = assms(1) [unfolded cass_lawful_def, THEN spec, THEN mp, OF w]
  let ?op = "table_op ''cassandradriver'' True (\<lambda>t k. scan t k (ca_scanLimit c)) op (tab w)"
  consider "op_Type op \<in> {''read'', ''r''}" | "op_Type op \<in> {''insert'', ''w''}" | "op_Type op = ''update''" | "op_Type op = ''scan''"
    | "op_Type op \<notin> {''read'', ''r'', ''insert'', ''w'', ''update'', ''scan''}"
    by blast
  thus "\<exists>w'. cass_Execute cl c op w = (fst ?op, w') \<and> tab w' = snd ?op \<and> up w'"
  proof cases
    case 1
    obtain w' where "sq_QueryRow cl (ca_session c) readCQL [AInt64 (op_Key op)] w =
        (case tab w (op_Key op) of Some (v, _) \<Rightarrow> Scanned (Some v) | None \<Rightarrow> ErrNoRows, w')" "up w'" "tab w' = tab w"
      using law unfolding readCQL_def by blast
    thus ?thesis
      using 1 by (cases "tab w (op_Key op)") (auto simp: cass_Execute_def cass_planFor_def cass_execRead_def table_op_def bytes_any_def Let_def)
  next
    case 2
    obtain n w' where "sq_Exec cl (ca_session c) insertCQL [AInt64 (op_Key op), ABytes (op_Value op), AInt64 (op_Seq op)] w = (Inr n, w')" "up w'"
        "tab w' = (tab w)(op_Key op \<mapsto> (op_Value op, op_Seq op))"
      using law unfolding insertCQL_def by blast
    thus ?thesis
      using 2 by (auto simp: cass_Execute_def cass_planFor_def cass_execWrite_def table_op_def Let_def)
  next
    case 3
    obtain n w' where "sq_Exec cl (ca_session c) updateCQL [ABytes (op_Value op), AInt64 (op_Seq op), AInt64 (op_Key op)] w = (Inr n, w')" "up w'"
        "tab w' = (tab w)(op_Key op \<mapsto> (op_Value op, op_Seq op))"
      using law unfolding updateCQL_def by blast
    thus ?thesis
      using 3 by (auto simp: cass_Execute_def cass_planFor_def cass_execWrite_def table_op_def Let_def)
  next
    case 4
    obtain w' where "sq_Query cl (ca_session c) scanCQL [AInt64 (op_Key op), AInt (ca_scanLimit c)] w =
          (Inr (map (Inr \<circ> Some) (scan (tab w) (op_Key op) (ca_scanLimit c)), None), w')" "up w'" "tab w' = tab w"
      using law assms(2) unfolding scanCQL_def by blast
    thus ?thesis
      using 4 assms(2) by (simp add: cass_Execute_def cass_planFor_def cass_execScan_def table_op_def scan_rows_append Let_def)
  next
    case 5
    thus ?thesis
      using w by (simp add: cass_Execute_def cass_planFor_def table_op_def Let_def)
  qed
qed

text \<open>Every way out of \<open>Schema\<close>, \<open>Connect\<close> and \<open>ReadKeyFrom\<close> closes the sessions it does not hand out.\<close>

lemma cass_Schema_live:
  assumes "sql_tracks cl live" "cass_Schema getenv cl cfg w = (r, w')"
  shows "live w' = live w"
proof (cases "cass_resolveOptions getenv cfg ''''")
  case (Inr opts)
  obtain x w1 where c: "sq_Connect cl (buildCluster (hostsFrom (cfg_Endpoints cfg)) opts) w = (x, w1)"
    by fastforce
  obtain y w2 where k: "sq_Exec cl (projr x) (createKeyspaceCQL (resolveKeyspace cfg) (resolveReplicationFactor cfg)) [] w1 = (y, w2)"
    by fastforce
  obtain z w3 where t: "sq_Exec cl (projr x) (createTableCQL (resolveKeyspace cfg)) [] w2 = (z, w3)"
    by fastforce
  have "live w2 = live w1" "live w3 = live w2"
    using sql_tracksD(6) [OF assms(1)] k t by (metis snd_conv)+
  thus ?thesis
    using assms(2) Inr c k t sql_tracksD(1-3) [OF assms(1)] by (cases x; cases y; cases z) (auto simp: cass_Schema_def Let_def)
qed (use assms(2) in \<open>simp add: cass_Schema_def\<close>)

lemma cass_Connect_live:
  assumes "sql_tracks cl live"
  shows "cass_Connect getenv cl cfg w = (Inr c, w') \<Longrightarrow> live w' = add_mset (ca_session c) (live w)"
    and "cass_Connect getenv cl cfg w = (Inl e, w') \<Longrightarrow> live w' = live w"
  using sql_tracksD(1,2) [OF assms] by (auto simp: cass_Connect_def split: prod.splits sum.splits)

lemma cass_ReadKeyFrom_live:
  assumes "sql_tracks cl live" "cass_ReadKeyFrom getenv cl n k w = (r, w')"
  shows "live w' = live w"
proof (cases "cass_resolveOptions getenv (level_Config ''one'') keyspaceName")
  case (Inr opts)
  let ?conf = "(buildCluster [n_Client n] opts)\<lparr>gc_HostFilter := Some (n_Client n), gc_DisableInitialHostLookup := True\<rparr>"
  obtain x w1 where c: "sq_Connect cl ?conf w = (x, w1)"
    by fastforce
  obtain y w2 where q: "sq_QueryRow cl (projr x) readCQL [AInt64 k] w1 = (y, w2)"
    by fastforce
  have "live w2 = live w1"
    using sql_tracksD(7) [OF assms(1)] q by (metis snd_conv)
  thus ?thesis
    using assms(2) Inr c q sql_tracksD(1-3) [OF assms(1)] by (cases x; cases y) (auto simp: cass_ReadKeyFrom_def split: if_splits)
qed (use assms(2) in \<open>auto simp: cass_ReadKeyFrom_def split: if_splits\<close>)

text \<open>The configured keyspace is the one a session works in, but a node-local read looks into the default
  keyspace whatever the configuration says.\<close>

lemma cass_keyspaces:
  assumes "paramString (cfg_Params cfg) ''keyspace'' = ks" "ks \<noteq> ''''" "cass_resolveOptions getenv cfg (resolveKeyspace cfg) = Inr o1"
    "cass_resolveOptions getenv (level_Config ''one'') keyspaceName = Inr o2"
  shows "gc_Keyspace (buildCluster hosts o1) = ks \<and> gc_Keyspace (buildCluster hosts' o2) = ''proofload''"
  using assms by (auto simp: cass_resolveOptions_def buildCluster_def resolveKeyspace_def keyspaceName_def Let_def split: sum.splits)

text \<open>Each level the target lists is accepted by \<open>Connect\<close>, and they are pairwise different.\<close>

lemma cass_levels:
  "\<exists>ls. map consistencyLevel supportedConsistency = map Inr ls \<and> distinct ls"
  by (rule exI [of _ "[gocql_One, gocql_Quorum, gocql_LocalQuorum, gocql_All]"]) (simp add: supportedConsistency_def consistencyLevel_def)

end
