(* ===== verification/Clickhouse.thy ===== *)
theory Clickhouse
  imports Target_Driver
begin

text \<open>
  The ClickHouse target (\<open>targets/clickhouse/clickhousedriver\<close>): SQL and table
  engines (\<open>sql.go\<close>), settings, authentication and options (\<open>config.go\<close>), the session
  (\<open>conn.go\<close>), schema and connect (\<open>driver.go\<close>) and node-local reads (\<open>cluster.go\<close>).
  Writes only append rows, and a read picks the row with the greatest sequence
  number; the server, which may drop superseded rows at any time, is an argument.
\<close>

section \<open>Definitions\<close>

subsection \<open>SQL\<close>

definition ch_readSQL :: string where
  "ch_readSQL = ''SELECT v FROM proofload_kv WHERE k = ? ORDER BY seq DESC LIMIT 1''"

definition ch_insertSQL :: string where
  "ch_insertSQL = ''INSERT INTO proofload_kv (k, v, seq) VALUES (?, ?, ?)''"

definition ch_scanSQL :: string where
  "ch_scanSQL = ''SELECT k, v FROM proofload_kv WHERE k >= ? ORDER BY k LIMIT ?''"

definition ch_statements :: "string \<Rightarrow> string option" where
  "ch_statements = [''pl_read'' \<mapsto> ch_readSQL, ''pl_insert'' \<mapsto> ch_insertSQL, ''pl_scan'' \<mapsto> ch_scanSQL]"

definition ch_planFor :: "Operation \<Rightarrow> int \<Rightarrow> err + opPlan" where
  "ch_planFor op scanLimit =
     (let t = op_Type op in
      if t \<in> {''read'', ''r''} then Inr \<lparr>pn_stmt = ch_readSQL, pn_args = [AInt64 (op_Key op)], pn_kind = kindRead\<rparr>
      else if t \<in> {''insert'', ''w'', ''update''}
        then Inr \<lparr>pn_stmt = ch_insertSQL, pn_args = [AInt64 (op_Key op), AStr (string_of (op_Value op)), AInt64 (op_Seq op)], pn_kind = kindWrite\<rparr>
      else if t = ''scan''
        then Inr \<lparr>pn_stmt = ch_scanSQL, pn_args = [AInt64 (op_Key op), AInt (if scanLimit \<le> 0 then defaultScanLimit else scanLimit)], pn_kind = kindScan\<rparr>
      else Inl (''clickhousedriver: unsupported op type '' @ fmt_q t))"

definition columnsDDL :: string where
  "columnsDDL = ''(k Int64, v String, seq Int64)''"

definition ch_createTableSQL :: "bool \<Rightarrow> string" where
  "ch_createTableSQL clustered =
     (if clustered
      then ''CREATE TABLE IF NOT EXISTS '' @ ''proofload_kv'' @ '' ON CLUSTER '' @ [CHR 0x27] @ ''proofload'' @ [CHR 0x27] @ '' '' @ columnsDDL @ '' '' @
        ''ENGINE = ReplicatedReplacingMergeTree('' @ [CHR 0x27] @ ''/clickhouse/tables/{shard}/'' @ ''proofload_kv'' @ [CHR 0x27] @ '', '' @
        [CHR 0x27] @ ''{replica}'' @ [CHR 0x27] @ '', seq) ORDER BY k''
      else ''CREATE TABLE IF NOT EXISTS '' @ ''proofload_kv'' @ '' '' @ columnsDDL @ '' ENGINE = ReplacingMergeTree(seq) ORDER BY k'')"

subsection \<open>Configuration\<close>

definition ch_supportedConsistency :: "string list" where
  "ch_supportedConsistency = [''none'', ''quorum'']"

definition consistencySettings :: "string \<Rightarrow> err + (string \<Rightarrow> int option)" where
  "consistencySettings consistency =
     (if consistency \<in> {'''', ''none''} then Inr Map.empty
      else if consistency = ''quorum'' then Inr [''insert_quorum'' \<mapsto> 2, ''select_sequential_consistency'' \<mapsto> 1]
      else Inl (''clickhousedriver: unsupported consistency '' @ fmt_q consistency))"

definition isClustered :: "Config \<Rightarrow> bool" where
  "isClustered cfg \<longleftrightarrow> length (cs_Nodes (cfg_Cluster cfg)) > 1 \<or> cfg_Params cfg ''cluster'' \<noteq> None"

definition defaultCHPort :: string where
  "defaultCHPort = ''9000''"

definition ch_normalizeAddr :: "string \<Rightarrow> string" where
  "ch_normalizeAddr endpoint = (let (host, port) = splitHostPort defaultCHPort (trim_space endpoint) in host @ '':'' @ port)"

record ch_Auth =
  au_Database :: string
  au_Username :: string
  au_Password :: string

definition resolveAuth :: "(string \<Rightarrow> string) \<Rightarrow> params \<Rightarrow> ch_Auth" where
  "resolveAuth getenv ps =
     \<lparr>au_Database = firstNonEmpty [paramString ps ''dbname'', paramString ps ''database'', ''default''],
      au_Username = firstNonEmpty [getenv ''CLICKHOUSE_USER'', ''default''],
      au_Password = firstNonEmpty [getenv ''PROOFLOAD_CLICKHOUSE_PASSWORD'', getenv ''CLICKHOUSE_PASSWORD'']\<rparr>"

record ch_Options =
  chopt_Addr :: "string list"
  chopt_Auth :: ch_Auth
  chopt_Settings :: "string \<Rightarrow> int option"
  chopt_MaxOpenConns :: int
  chopt_MaxIdleConns :: int

definition buildOptions :: "(string \<Rightarrow> string) \<Rightarrow> Config \<Rightarrow> string \<Rightarrow> err + ch_Options" where
  "buildOptions getenv cfg endpoint = (case consistencySettings (cfg_Consistency cfg) of
      Inl e \<Rightarrow> Inl e
    | Inr settings1 \<Rightarrow> Inr \<lparr>chopt_Addr = [ch_normalizeAddr endpoint], chopt_Auth = resolveAuth getenv (cfg_Params cfg),
        chopt_Settings = settings1, chopt_MaxOpenConns = 1, chopt_MaxIdleConns = 1\<rparr>)"

subsection \<open>The session\<close>

record 'c chConn =
  ch_conn :: 'c
  ch_scanLimit :: int

definition ch_Prepare :: "'c chConn \<Rightarrow> Workload \<Rightarrow> 'c chConn" where
  "ch_Prepare c wl = c\<lparr>ch_scanLimit := scanLimitFromWorkload wl\<rparr>"

text \<open>The column is scanned into a string, which has no nil value.\<close>

definition ch_bytes :: "u8 list option \<Rightarrow> u8 list" where
  "ch_bytes v = (case v of Some b \<Rightarrow> b | None \<Rightarrow> [])"

definition ch_execRead :: "(ch_Options, 'c, 'w) sql_client \<Rightarrow> 'c chConn \<Rightarrow> OpType \<Rightarrow> opPlan \<Rightarrow> 'w \<Rightarrow> OpResult \<times> 'w" where
  "ch_execRead cl c t plan w = (case sq_QueryRow cl (ch_conn c) (pn_stmt plan) (pn_args plan) w of
      (ErrNoRows, w') \<Rightarrow> (op_result t, w')
    | (ScanErr e, w') \<Rightarrow> ((op_result t)\<lparr>r_Err := Some e\<rparr>, w')
    | (Scanned v, w') \<Rightarrow> ((op_result t)\<lparr>r_Observed := ABytes (ch_bytes v), r_Rows := 1\<rparr>, w'))"

definition ch_execWrite :: "(ch_Options, 'c, 'w) sql_client \<Rightarrow> 'c chConn \<Rightarrow> OpType \<Rightarrow> opPlan \<Rightarrow> 'w \<Rightarrow> OpResult \<times> 'w" where
  "ch_execWrite cl c t plan w = (case sq_Exec cl (ch_conn c) (pn_stmt plan) (pn_args plan) w of
      (Inl e, w') \<Rightarrow> ((op_result t)\<lparr>r_Err := Some e\<rparr>, w')
    | (Inr _, w') \<Rightarrow> ((op_result t)\<lparr>r_Rows := 1\<rparr>, w'))"

definition ch_execScan :: "(ch_Options, 'c, 'w) sql_client \<Rightarrow> 'c chConn \<Rightarrow> OpType \<Rightarrow> opPlan \<Rightarrow> 'w \<Rightarrow> OpResult \<times> 'w" where
  "ch_execScan cl c t plan w = (case sq_Query cl (ch_conn c) (pn_stmt plan) (pn_args plan) w of
      (Inl e, w') \<Rightarrow> ((op_result t)\<lparr>r_Err := Some e\<rparr>, w')
    | (Inr (rows1, rowsErr), w') \<Rightarrow> (case scan_rows rows1 [] of
          Inl e \<Rightarrow> ((op_result t)\<lparr>r_Err := Some e\<rparr>, w')
        | Inr out \<Rightarrow> (case rowsErr of
              Some e \<Rightarrow> ((op_result t)\<lparr>r_Err := Some e\<rparr>, w')
            | None \<Rightarrow> ((op_result t)\<lparr>r_Observed := AByteSlices out, r_Rows := int (length out)\<rparr>, w'))))"

definition ch_Execute :: "(ch_Options, 'c, 'w) sql_client \<Rightarrow> 'c chConn \<Rightarrow> Operation \<Rightarrow> 'w \<Rightarrow> OpResult \<times> 'w" where
  "ch_Execute cl c op w = (case ch_planFor op (ch_scanLimit c) of
      Inl e \<Rightarrow> ((op_result (op_Type op))\<lparr>r_Err := Some e\<rparr>, w)
    | Inr plan \<Rightarrow> (case pn_kind plan of
          kindRead \<Rightarrow> ch_execRead cl c (op_Type op) plan w
        | kindScan \<Rightarrow> ch_execScan cl c (op_Type op) plan w
        | kindWrite \<Rightarrow> ch_execWrite cl c (op_Type op) plan w))"

definition ch_Close :: "(ch_Options, 'c, 'w) sql_client \<Rightarrow> 'c chConn option \<Rightarrow> 'w \<Rightarrow> err option \<times> 'w" where
  "ch_Close cl c w = (case c of None \<Rightarrow> (None, w) | Some c \<Rightarrow> sq_Close cl (ch_conn c) w)"

subsection \<open>The driver\<close>

definition ch_open :: "(string \<Rightarrow> string) \<Rightarrow> (ch_Options, 'c, 'w) sql_client \<Rightarrow> Config \<Rightarrow> string \<Rightarrow> 'w \<Rightarrow> (err + 'c) \<times> 'w" where
  "ch_open getenv cl cfg endpoint w = (case buildOptions getenv cfg endpoint of
      Inl e \<Rightarrow> (Inl e, w)
    | Inr opts \<Rightarrow> (case sq_Connect cl opts w of
          (Inl e, w1) \<Rightarrow> (Inl (''clickhousedriver: open '' @ endpoint @ '': '' @ e), w1)
        | (Inr conn, w1) \<Rightarrow> (case sq_Ping cl conn w1 of
              (Some e, w2) \<Rightarrow> (Inl (''clickhousedriver: ping '' @ endpoint @ '': '' @ e), snd (sq_Close cl conn w2))
            | (None, w2) \<Rightarrow> (Inr conn, w2))))"

definition ch_Schema :: "(string \<Rightarrow> string) \<Rightarrow> (ch_Options, 'c, 'w) sql_client \<Rightarrow> Config \<Rightarrow> 'w \<Rightarrow> err option \<times> 'w" where
  "ch_Schema getenv cl cfg w = (case ch_open getenv cl cfg (firstEndpoint defaultCHPort (cfg_Endpoints cfg)) w of
      (Inl e, w1) \<Rightarrow> (Some e, w1)
    | (Inr conn, w1) \<Rightarrow> (case sq_Exec cl conn (ch_createTableSQL (isClustered cfg)) [] w1 of
          (Inl e, w2) \<Rightarrow> (Some (''clickhousedriver: apply schema: '' @ e), snd (sq_Close cl conn w2))
        | (Inr _, w2) \<Rightarrow> (None, snd (sq_Close cl conn w2))))"

definition ch_Connect :: "(string \<Rightarrow> string) \<Rightarrow> (ch_Options, 'c, 'w) sql_client \<Rightarrow> Config \<Rightarrow> 'w \<Rightarrow> (err + 'c chConn) \<times> 'w" where
  "ch_Connect getenv cl cfg w = (case ch_open getenv cl cfg (firstEndpoint defaultCHPort (cfg_Endpoints cfg)) w of
      (Inl e, w1) \<Rightarrow> (Inl e, w1)
    | (Inr conn, w1) \<Rightarrow> (Inr \<lparr>ch_conn = conn, ch_scanLimit = defaultScanLimit\<rparr>, w1))"

definition ch_ReadKeyFrom ::
  "(string \<Rightarrow> string) \<Rightarrow> (ch_Options, 'c, 'w) sql_client \<Rightarrow> Node \<Rightarrow> int \<Rightarrow> 'w \<Rightarrow> (err + OpResult) \<times> 'w" where
  "ch_ReadKeyFrom getenv cl node key w =
     (if n_Client node = '''' then (Inl (''clickhousedriver: node '' @ fmt_q (n_ID node) @ '' has no client endpoint''), w)
      else case buildOptions getenv (level_Config '''') (n_Client node) of
        Inl e \<Rightarrow> (Inl e, w)
      | Inr opts \<Rightarrow> (case sq_Connect cl opts w of
            (Inl e, w1) \<Rightarrow> (Inl (''clickhousedriver: connect to node '' @ fmt_q (n_ID node) @ '': '' @ e), w1)
          | (Inr conn, w1) \<Rightarrow> (case sq_QueryRow cl conn ch_readSQL [AInt64 key] w1 of
                (ErrNoRows, w2) \<Rightarrow> (Inr (op_result ''read''), snd (sq_Close cl conn w2))
              | (ScanErr e, w2) \<Rightarrow>
                  (Inl (''clickhousedriver: read key '' @ fmt_int key @ '' from node '' @ fmt_q (n_ID node) @ '': '' @ e), snd (sq_Close cl conn w2))
              | (Scanned v, w2) \<Rightarrow> (Inr ((op_result ''read'')\<lparr>r_Observed := ABytes (ch_bytes v), r_Rows := 1\<rparr>), snd (sq_Close cl conn w2)))))"

section \<open>The server\<close>

text \<open>The rows of the table. The server may drop rows in the background, but for each key it keeps one with the
  greatest sequence number; ordering by it and taking the first row gives such a row.\<close>

type_synonym ch_rows = "(int \<times> u8 list \<times> int) set"

definition ch_newest :: "ch_rows \<Rightarrow> int \<Rightarrow> u8 list \<Rightarrow> bool" where
  "ch_newest R k v \<longleftrightarrow> (\<exists>q. (k, v, q) \<in> R \<and> (\<forall>v' q'. (k, v', q') \<in> R \<longrightarrow> q' \<le> q))"

definition ch_merged :: "ch_rows \<Rightarrow> ch_rows \<Rightarrow> bool" where
  "ch_merged R R' \<longleftrightarrow> R' \<subseteq> R \<and> (\<forall>k v q. (k, v, q) \<in> R \<longrightarrow> (\<exists>v' q'. (k, v', q') \<in> R' \<and> q \<le> q'))"

definition ch_lawful :: "(ch_Options, 'c, 'w) sql_client \<Rightarrow> 'c \<Rightarrow> ('w \<Rightarrow> ch_rows) \<Rightarrow> ('w \<Rightarrow> bool) \<Rightarrow> bool" where
  "ch_lawful cl c tab up \<longleftrightarrow> (\<forall>w. up w \<longrightarrow>
     (\<forall>k. \<exists>r w'. sq_QueryRow cl c ''SELECT v FROM proofload_kv WHERE k = ? ORDER BY seq DESC LIMIT 1'' [AInt64 k] w = (r, w') \<and>
        up w' \<and> ch_merged (tab w) (tab w') \<and>
        (if \<exists>v q. (k, v, q) \<in> tab w then \<exists>v. r = Scanned (Some v) \<and> ch_newest (tab w) k v else r = ErrNoRows)) \<and>
     (\<forall>k s q. \<exists>n w'. sq_Exec cl c ''INSERT INTO proofload_kv (k, v, seq) VALUES (?, ?, ?)'' [AInt64 k, AStr s, AInt64 q] w = (Inr n, w') \<and>
        up w' \<and> ch_merged (insert (k, bytes_of s, q) (tab w)) (tab w')))"

text \<open>No two rows of a key share a sequence number with different values; then the newest value of a key is determined.\<close>

definition ch_versions :: "ch_rows \<Rightarrow> bool" where
  "ch_versions R \<longleftrightarrow> (\<forall>k v v' q. (k, v, q) \<in> R \<and> (k, v', q) \<in> R \<longrightarrow> v = v')"

definition ch_store :: "ch_rows \<Rightarrow> int \<Rightarrow> u8 list option" where
  "ch_store R k = (if \<exists>v. ch_newest R k v then Some (THE v. ch_newest R k v) else None)"

definition ch_ready :: "('w \<Rightarrow> ch_rows) \<Rightarrow> ('w \<Rightarrow> bool) \<Rightarrow> 'w \<Rightarrow> bool" where
  "ch_ready tab up w \<longleftrightarrow> up w \<and> ch_versions (tab w) \<and> (\<forall>k v q. (k, v, q) \<in> tab w \<longrightarrow> (\<exists>v'. ch_newest (tab w) k v'))"

text \<open>A write is admissible when its sequence number exceeds those stored for its key.\<close>

definition ch_adm :: "('w \<Rightarrow> ch_rows) \<Rightarrow> Operation \<Rightarrow> 'w \<Rightarrow> bool" where
  "ch_adm tab op w \<longleftrightarrow> op_Type op \<in> {''insert'', ''w'', ''update''} \<and> (\<forall>v q. (op_Key op, v, q) \<in> tab w \<longrightarrow> q < op_Seq op)"

section \<open>Lemmas\<close>

lemma ch_newest_unique: "ch_versions R \<Longrightarrow> ch_newest R k v \<Longrightarrow> ch_newest R k v' \<Longrightarrow> v = v'"
  unfolding ch_versions_def ch_newest_def by (metis order_antisym)

lemma ch_store_newest: "ch_versions R \<Longrightarrow> ch_newest R k v \<Longrightarrow> ch_store R k = Some v"
  using ch_newest_unique by (fastforce simp: ch_store_def)

lemma ch_store_None: "ch_store R k = None \<longleftrightarrow> (\<forall>v. \<not> ch_newest R k v)"
  by (simp add: ch_store_def)

lemma ch_merged_newestD:
  assumes "ch_merged R R'" "ch_newest R' k v"
  shows "ch_newest R k v"
proof -
  obtain q where q: "(k, v, q) \<in> R'" "\<forall>v' q'. (k, v', q') \<in> R' \<longrightarrow> q' \<le> q"
    using assms(2) by (auto simp: ch_newest_def)
  have "q' \<le> q" if "(k, v', q') \<in> R" for v' q'
    using assms(1) that q(2) unfolding ch_merged_def by (meson order_trans)
  thus ?thesis
    using q(1) assms(1) by (auto simp: ch_newest_def ch_merged_def)
qed

lemma ch_merged_newest:
  assumes "ch_merged R R'" "ch_versions R"
  shows "ch_newest R' k v \<longleftrightarrow> ch_newest R k v"
proof
  show "ch_newest R' k v \<Longrightarrow> ch_newest R k v"
    by (rule ch_merged_newestD [OF assms(1)])
next
  assume "ch_newest R k v"
  then obtain q where q: "(k, v, q) \<in> R" "\<forall>v' q'. (k, v', q') \<in> R \<longrightarrow> q' \<le> q"
    by (auto simp: ch_newest_def)
  obtain v1 q1 where r: "(k, v1, q1) \<in> R'" "q \<le> q1"
    using assms(1) q(1) unfolding ch_merged_def by meson
  hence "(k, v1, q1) \<in> R"
    using assms(1) by (auto simp: ch_merged_def)
  hence "q1 = q" "v1 = v"
    using q r(2) assms(2) unfolding ch_versions_def by (metis order_antisym)+
  thus "ch_newest R' k v"
    using r(1) q(2) assms(1) by (auto simp: ch_newest_def ch_merged_def)
qed

lemma ch_merged_store: "ch_merged R R' \<Longrightarrow> ch_versions R \<Longrightarrow> ch_store R' = ch_store R"
proof -
  assume "ch_merged R R'" "ch_versions R"
  hence e: "ch_newest R' = ch_newest R"
    by (intro ext) (rule ch_merged_newest)
  show ?thesis
    unfolding ch_store_def e ..
qed

lemma ch_ready_merged:
  assumes "ch_versions R" "\<forall>k v q. (k, v, q) \<in> R \<longrightarrow> (\<exists>v'. ch_newest R k v')" "ch_merged R (tab w)" "up w"
  shows "ch_ready tab up w"
proof -
  have "ch_versions (tab w)"
    using assms(1,3) unfolding ch_versions_def ch_merged_def by blast
  thus ?thesis
    using assms(2-4) ch_merged_newest [OF assms(3,1)] unfolding ch_ready_def ch_merged_def by blast
qed

text \<open>A write whose sequence number exceeds those of its key becomes the value of the key.\<close>

lemma ch_insert_newest:
  assumes "\<forall>v' q'. (k, v', q') \<in> R \<longrightarrow> q' < q"
  shows "ch_newest (insert (k, v, q) R) k' v' \<longleftrightarrow> (if k' = k then v' = v else ch_newest R k' v')"
proof (cases "k' = k")
  case True
  have "ch_newest (insert (k, v, q) R) k v"
    using assms by (fastforce simp: ch_newest_def)
  moreover have "v' = v" if "ch_newest (insert (k, v, q) R) k v'"
    using that assms by (fastforce simp: ch_newest_def)
  ultimately show ?thesis
    using True by auto
qed (simp add: ch_newest_def)

lemma ch_insert_store:
  assumes "ch_versions R" "\<forall>v' q'. (k, v', q') \<in> R \<longrightarrow> q' < q"
  shows "ch_store (insert (k, v, q) R) = (ch_store R)(k \<mapsto> v)"
proof
  fix x
  have e: "ch_newest (insert (k, v, q) R) x = (if x = k then (\<lambda>v'. v' = v) else ch_newest R x)"
    using ch_insert_newest [OF assms(2)] by auto
  show "ch_store (insert (k, v, q) R) x = ((ch_store R)(k \<mapsto> v)) x"
    unfolding ch_store_def e by auto
qed

lemma ch_row_target:
  assumes "ch_lawful cl (ch_conn c) tab up"
  shows "row_target (ch_Execute cl c) (\<lambda>w. ch_store (tab w)) (ch_ready tab up) {''read'', ''r''} (ch_adm tab)"
proof
  fix s op res s'
  assume s: "ch_ready tab up s" and e: "ch_Execute cl c op s = (res, s')"
  note rdy = s [unfolded ch_ready_def]
  note law = assms [unfolded ch_lawful_def, THEN spec, THEN mp, OF conjunct1 [OF rdy]]
  show "ch_ready tab up s' \<and> r_Err res = None \<and> ch_store (tab s') = ch_store (tab s) \<and>
      coerceBytes (r_Observed res) = (case ch_store (tab s) (op_Key op) of Some b \<Rightarrow> (b, True) | None \<Rightarrow> ([], False))"
    if t: "op_Type op \<in> {''read'', ''r''}" "op_Value op = []"
  proof -
    obtain r w' where r: "sq_QueryRow cl (ch_conn c) ch_readSQL [AInt64 (op_Key op)] s = (r, w')" "up w'" "ch_merged (tab s) (tab w')"
        "if \<exists>v q. (op_Key op, v, q) \<in> tab s then \<exists>v. r = Scanned (Some v) \<and> ch_newest (tab s) (op_Key op) v else r = ErrNoRows"
      using law unfolding ch_readSQL_def by blast
    have "ch_ready tab up w'" "ch_store (tab w') = ch_store (tab s)"
      using ch_ready_merged [of "tab s" tab w' up] ch_merged_store [OF r(3)] r(2,3) rdy by blast+
    moreover have "ch_store (tab s) (op_Key op) = None" if "\<not> (\<exists>v q. (op_Key op, v, q) \<in> tab s)"
      using that by (auto simp: ch_store_None ch_newest_def)
    moreover have "ch_Execute cl c op s = ch_execRead cl c (op_Type op) \<lparr>pn_stmt = ch_readSQL, pn_args = [AInt64 (op_Key op)], pn_kind = kindRead\<rparr> s"
      using t(1) by (auto simp: ch_Execute_def ch_planFor_def Let_def)
    ultimately show ?thesis
      using r(1,4) e ch_store_newest [OF conjunct1 [OF conjunct2 [OF rdy]]]
      by (auto simp: ch_execRead_def ch_bytes_def op_result_def split: if_splits)
  qed
  show "ch_ready tab up s' \<and> r_Err res = None \<and> ch_store (tab s') = (ch_store (tab s))(op_Key op \<mapsto> op_Value op)"
    if adm: "ch_adm tab op s" "op_Value op \<noteq> []"
  proof -
    note t = adm [unfolded ch_adm_def]
    let ?R = "insert (op_Key op, op_Value op, op_Seq op) (tab s)"
    obtain n w' where r: "sq_Exec cl (ch_conn c) ch_insertSQL [AInt64 (op_Key op), AStr (string_of (op_Value op)), AInt64 (op_Seq op)] s = (Inr n, w')"
        "up w'" "ch_merged ?R (tab w')"
      using law unfolding ch_insertSQL_def by (metis bytes_of_string_of)
    have fresh: "\<forall>v' q'. (op_Key op, v', q') \<in> tab s \<longrightarrow> q' < op_Seq op"
      using t(1) by blast
    have v: "ch_versions ?R"
      using rdy fresh unfolding ch_versions_def by (metis insert_iff less_irrefl prod.inject)
    have n: "\<forall>k v q. (k, v, q) \<in> ?R \<longrightarrow> (\<exists>v'. ch_newest ?R k v')"
      using rdy ch_insert_newest [OF fresh] by (metis insert_iff prod.inject)
    have "ch_store (tab w') = (ch_store (tab s))(op_Key op \<mapsto> op_Value op)" "ch_ready tab up w'"
      using ch_merged_store [OF r(3) v] ch_insert_store [OF _ fresh] rdy ch_ready_merged [of ?R tab w' up, OF v n r(3,2)] by simp_all
    moreover have "(res, s') = ((op_result (op_Type op))\<lparr>r_Rows := 1\<rparr>, w')"
      using t(1) r(1) e by (auto simp: ch_Execute_def ch_planFor_def ch_execWrite_def Let_def)
    ultimately show ?thesis
      by (simp add: op_result_def)
  qed
qed

text \<open>The operations of a run: reads without a value and writes with one.\<close>

definition ch_op :: "Operation \<Rightarrow> bool" where
  "ch_op op \<longleftrightarrow> (if op_Value op = [] then op_Type op \<in> {''read'', ''r''} else op_Type op \<in> {''insert'', ''w'', ''update''})"

lemma ch_Execute_rows:
  assumes "ch_lawful cl (ch_conn c) tab up" "up w" "ch_op op"
    "ch_Execute cl c op w = (res, w')"
  shows "up w' \<and> tab w' \<subseteq> (if op_Value op = [] then tab w else insert (op_Key op, op_Value op, op_Seq op) (tab w))"
proof (cases "op_Value op = []")
  case True
  obtain r w1 where "sq_QueryRow cl (ch_conn c) ch_readSQL [AInt64 (op_Key op)] w = (r, w1)" "up w1" "ch_merged (tab w) (tab w1)"
    using assms(1,2) unfolding ch_lawful_def ch_readSQL_def by meson
  thus ?thesis
    using assms(3,4) True by (cases r) (auto simp: ch_op_def ch_Execute_def ch_planFor_def ch_execRead_def ch_merged_def Let_def)
next
  case False
  obtain n w1 where "sq_Exec cl (ch_conn c) ch_insertSQL [AInt64 (op_Key op), AStr (string_of (op_Value op)), AInt64 (op_Seq op)] w = (Inr n, w1)"
      "up w1" "ch_merged (insert (op_Key op, op_Value op, op_Seq op) (tab w)) (tab w1)"
    using assms(1,2) unfolding ch_lawful_def ch_insertSQL_def by (metis bytes_of_string_of)
  thus ?thesis
    using assms(3,4) False by (auto simp: ch_op_def ch_Execute_def ch_planFor_def ch_execWrite_def ch_merged_def Let_def)
qed

text \<open>Increasing sequence numbers make every write of a run admissible.\<close>

lemma ch_fits:
  assumes "ch_lawful cl (ch_conn c) tab up" "up w" "sorted_wrt (<) (map op_Seq ops)" "\<forall>k v q. (k, v, q) \<in> tab w \<longrightarrow> (\<forall>op\<in>set ops. q < op_Seq op)"
    "\<forall>op\<in>set ops. ch_op op"
  shows "row_target.fits (ch_Execute cl c) {''read'', ''r''} (ch_adm tab) ops w"
  using assms(2-5)
proof (induction ops arbitrary: w)
  case Nil
  show ?case
    by (simp add: row_target.fits.simps [OF ch_row_target [OF assms(1)]])
next
  case (Cons op ops)
  obtain res w1 where e: "ch_Execute cl c op w = (res, w1)"
    by fastforce
  have w1: "up w1" "tab w1 \<subseteq> (if op_Value op = [] then tab w else insert (op_Key op, op_Value op, op_Seq op) (tab w))"
    using ch_Execute_rows [OF assms(1) Cons.prems(1) bspec [OF Cons.prems(4)] e] by simp_all
  have "\<forall>k v q. (k, v, q) \<in> tab w1 \<longrightarrow> (\<forall>op\<in>set ops. q < op_Seq op)"
    using w1(2) Cons.prems(2,3) by (fastforce split: if_splits)
  hence "row_target.fits (ch_Execute cl c) {''read'', ''r''} (ch_adm tab) ops w1"
    using Cons.IH [OF w1(1)] Cons.prems(2,4) by simp
  moreover have "if op_Value op = [] then op_Type op \<in> {''read'', ''r''} else ch_adm tab op w"
    using Cons.prems(3,4) by (simp add: ch_adm_def ch_op_def split: if_splits)
  ultimately show ?case
    unfolding row_target.fits.simps [OF ch_row_target [OF assms(1)]] using e by simp
qed

text \<open>A write with a smaller sequence number than one already stored for its key is acknowledged, but a later read
  returns the older write.\<close>

lemma ch_lower_seq_hidden:
  assumes "ch_lawful cl (ch_conn c) tab up" "ch_ready tab up w" "ch_newest (tab w) k v0" "(k, v0, q0) \<in> tab w" "op_Type op = ''insert''" "op_Key op = k"
    "op_Seq op < q0" "op_Value op \<noteq> v0" "op_Type rd = ''read''" "op_Key rd = k"
  shows "\<exists>res w1. ch_Execute cl c op w = (res, w1) \<and> r_Err res = None \<and> r_Observed (fst (ch_Execute cl c rd w1)) = ABytes v0"
proof -
  let ?R = "insert (k, op_Value op, op_Seq op) (tab w)"
  obtain n w1 where w1: "sq_Exec cl (ch_conn c) ch_insertSQL [AInt64 k, AStr (string_of (op_Value op)), AInt64 (op_Seq op)] w = (Inr n, w1)"
      "up w1" "ch_merged ?R (tab w1)"
    using assms(1,2) unfolding ch_lawful_def ch_insertSQL_def ch_ready_def by (metis bytes_of_string_of)
  have "(k, v0, q0) \<in> ?R"
    using assms(4) by simp
  then obtain v' q' where q': "(k, v', q') \<in> tab w1"
    using w1(3) unfolding ch_merged_def by blast
  obtain r w2 v where r: "sq_QueryRow cl (ch_conn c) ch_readSQL [AInt64 k] w1 = (r, w2)" "r = Scanned (Some v)" "ch_newest (tab w1) k v"
    using assms(1) w1(2) q' unfolding ch_lawful_def ch_readSQL_def by (metis (full_types))
  obtain q where q: "(k, v, q) \<in> ?R" "\<forall>v' q'. (k, v', q') \<in> ?R \<longrightarrow> q' \<le> q"
    using ch_merged_newestD [OF w1(3) r(3)] by (auto simp: ch_newest_def)
  have "op_Seq op < q"
    using q(2) \<open>(k, v0, q0) \<in> ?R\<close> assms(7) by fastforce
  hence "ch_newest (tab w) k v"
    using q unfolding ch_newest_def by (intro exI [of _ q]) auto
  hence "v = v0"
    using assms(2,3) ch_newest_unique unfolding ch_ready_def by blast
  thus ?thesis
    using w1(1) r(1,2) assms(5,6,9,10)
    by (auto simp: ch_Execute_def ch_planFor_def ch_execWrite_def ch_execRead_def op_result_def ch_bytes_def Let_def)
qed

text \<open>Every way out of \<open>Schema\<close>, \<open>Connect\<close> and \<open>ReadKeyFrom\<close> closes the connections it does not hand out.\<close>

lemma ch_open_live:
  assumes "sql_tracks cl live"
  shows "ch_open getenv cl cfg ep w = (Inr c, w') \<Longrightarrow> live w' = add_mset c (live w)"
    and "ch_open getenv cl cfg ep w = (Inl e, w') \<Longrightarrow> live w' = live w"
proof -
  obtain x w1 where x: "sq_Connect cl (projr (buildOptions getenv cfg ep)) w = (x, w1)"
    by fastforce
  obtain y w2 where y: "sq_Ping cl (projr x) w1 = (y, w2)"
    by fastforce
  have l: "live w2 = live w1"
    using sql_tracksD(4) [OF assms] y by (metis snd_conv)
  note l = l sql_tracksD(1-3) [OF assms]
  show "ch_open getenv cl cfg ep w = (Inr c, w') \<Longrightarrow> live w' = add_mset c (live w)"
    using x y l by (cases "buildOptions getenv cfg ep"; cases x; cases y) (auto simp: ch_open_def)
  show "ch_open getenv cl cfg ep w = (Inl e, w') \<Longrightarrow> live w' = live w"
    using x y l by (cases "buildOptions getenv cfg ep"; cases x; cases y) (auto simp: ch_open_def)
qed

lemma ch_Connect_live:
  assumes "sql_tracks cl live"
  shows "ch_Connect getenv cl cfg w = (Inr c, w') \<Longrightarrow> live w' = add_mset (ch_conn c) (live w)"
    and "ch_Connect getenv cl cfg w = (Inl e, w') \<Longrightarrow> live w' = live w"
  using ch_open_live [OF assms] by (auto simp: ch_Connect_def split: prod.splits sum.splits)

lemma ch_Schema_live:
  assumes "sql_tracks cl live" "ch_Schema getenv cl cfg w = (r, w')"
  shows "live w' = live w"
proof -
  obtain x w1 where o: "ch_open getenv cl cfg (firstEndpoint defaultCHPort (cfg_Endpoints cfg)) w = (x, w1)"
    by fastforce
  obtain y w2 where q: "sq_Exec cl (projr x) (ch_createTableSQL (isClustered cfg)) [] w1 = (y, w2)"
    by fastforce
  have "live w2 = live w1"
    using sql_tracksD(6) [OF assms(1)] q by (metis snd_conv)
  thus ?thesis
    using assms(2) o q ch_open_live [OF assms(1)] sql_tracksD(3) [OF assms(1)] by (cases x; cases y) (auto simp: ch_Schema_def)
qed

lemma ch_ReadKeyFrom_live:
  assumes "sql_tracks cl live" "ch_ReadKeyFrom getenv cl n k w = (r, w')"
  shows "live w' = live w"
proof -
  obtain x w1 where x: "sq_Connect cl (projr (buildOptions getenv (level_Config '''') (n_Client n))) w = (x, w1)"
    by fastforce
  obtain y w2 where y: "sq_QueryRow cl (projr x) ch_readSQL [AInt64 k] w1 = (y, w2)"
    by fastforce
  have "live w2 = live w1"
    using sql_tracksD(7) [OF assms(1)] y by (metis snd_conv)
  thus ?thesis
    using assms(2) x y sql_tracksD(1-3) [OF assms(1)]
    by (cases "buildOptions getenv (level_Config '''') (n_Client n)"; cases x; cases y) (auto simp: ch_ReadKeyFrom_def split: if_splits)
qed

section \<open>A server in memory\<close>

text \<open>A server that merges at once: it keeps the newest row of each key.\<close>

definition mem_rows :: "kv_table \<Rightarrow> ch_rows" where
  "mem_rows t = {(k, v, q). t k = Some (v, q)}"

fun mem_int :: "any \<Rightarrow> int" where
  "mem_int (AInt64 n) = n"
| "mem_int _ = 0"

fun mem_str :: "any \<Rightarrow> string" where
  "mem_str (AStr s) = s"
| "mem_str _ = []"

definition mem_insert :: "any list \<Rightarrow> kv_table \<Rightarrow> kv_table" where
  "mem_insert args t =
     (let k = mem_int (args ! 0); q = mem_int (args ! 2) in
      case t k of Some (v', q') \<Rightarrow> if q \<le> q' then t else t(k \<mapsto> (bytes_of (mem_str (args ! 1)), q))
      | None \<Rightarrow> t(k \<mapsto> (bytes_of (mem_str (args ! 1)), q)))"

definition mem_ch :: "(ch_Options, unit, kv_table) sql_client" where
  "mem_ch = \<lparr>sq_Connect = (\<lambda>d w. (Inr (), w)), sq_Close = (\<lambda>c w. (None, w)), sq_Ping = (\<lambda>c w. (None, w)),
     sq_Prepare = (\<lambda>c n q w. (None, w)), sq_Exec = (\<lambda>c q args w. (Inr 0, mem_insert args w)),
     sq_QueryRow = (\<lambda>c q args w. (case w (mem_int (args ! 0)) of Some (v, _) \<Rightarrow> Scanned (Some v) | None \<Rightarrow> ErrNoRows, w)),
     sq_Query = (\<lambda>c q args w. (Inr ([], None), w))\<rparr>"

lemma mem_merged_insert: "ch_merged (insert (k, bytes_of s, q) (mem_rows t)) (mem_rows (mem_insert [AInt64 k, AStr s, AInt64 q] t))"
proof (cases "\<exists>v' q'. t k = Some (v', q') \<and> q \<le> q'")
  case True
  thus ?thesis
    by (fastforce simp: ch_merged_def mem_rows_def mem_insert_def)
next
  case False
  hence t: "mem_insert [AInt64 k, AStr s, AInt64 q] t = t(k \<mapsto> (bytes_of s, q))"
    by (auto simp: mem_insert_def split: option.splits)
  have "\<exists>v' q''. (k', v', q'') \<in> mem_rows (t(k \<mapsto> (bytes_of s, q))) \<and> q' \<le> q''" if "(k', v, q') \<in> insert (k, bytes_of s, q) (mem_rows t)" for k' v q'
    using that False by (cases "k' = k") (fastforce simp: mem_rows_def)+
  thus ?thesis
    unfolding t by (auto simp: ch_merged_def mem_rows_def split: if_splits)
qed

lemma mem_ch_lawful: "ch_lawful mem_ch () mem_rows (\<lambda>_. True)"
proof -
  have "ch_merged R R" for R
    by (auto simp: ch_merged_def)
  moreover have "ch_newest (mem_rows t) k v" if "t k = Some (v, q)" for t k v q
    using that by (auto simp: ch_newest_def mem_rows_def)
  ultimately show ?thesis
    unfolding ch_lawful_def using mem_merged_insert by (auto simp: mem_ch_def split: option.splits) (auto simp: mem_rows_def)
qed

definition mem_chConn :: "unit chConn" where
  "mem_chConn = \<lparr>ch_conn = (), ch_scanLimit = defaultScanLimit\<rparr>"

interpretation mem_ch: row_target "ch_Execute mem_ch mem_chConn" "\<lambda>w. ch_store (mem_rows w)" "ch_ready mem_rows (\<lambda>_. True)" "{''read'', ''r''}" "ch_adm mem_rows"
  by (rule ch_row_target) (simp add: mem_chConn_def mem_ch_lawful)

section \<open>Properties\<close>



end
