(* ===== verification/Redis.thy ===== *)
theory Redis
  imports Target_Driver
begin

text \<open>
  The Redis target (\<open>targets/redis/redisdriver\<close>): keys, commands and consistency
  levels (\<open>cmd.go\<close>), addresses and options (\<open>options.go\<close>), the session (\<open>conn.go\<close>),
  connect (\<open>driver.go\<close>) and node-local reads (\<open>cluster.go\<close>). The client library and the
  server are an argument; \<open>redis_lawful\<close> states what \<open>GET\<close>, \<open>SET\<close> and \<open>MGET\<close> promise.
\<close>

section \<open>Definitions\<close>

subsection \<open>Commands\<close>

definition keyName :: "int \<Rightarrow> string" where
  "keyName k = ''proofload:{'' @ fmt_int k @ ''}''"

datatype cmdKind = cmdGet | cmdSet | cmdScan

record redis_opPlan =
  rp_kind :: cmdKind
  rp_key :: string
  rp_keys :: "string list"
  rp_value :: "u8 list"

definition scanKeys :: "int \<Rightarrow> int \<Rightarrow> string list" where
  "scanKeys start n = map (\<lambda>i. keyName (i64 (start + int i))) [0..<nat n]"

definition redis_planFor :: "Operation \<Rightarrow> int \<Rightarrow> err + redis_opPlan" where
  "redis_planFor op scanLimit =
     (let t = op_Type op in
      if t \<in> {''read'', ''r''} then Inr \<lparr>rp_kind = cmdGet, rp_key = keyName (op_Key op), rp_keys = [], rp_value = []\<rparr>
      else if t \<in> {''insert'', ''w'', ''update''}
        then Inr \<lparr>rp_kind = cmdSet, rp_key = keyName (op_Key op), rp_keys = [], rp_value = op_Value op\<rparr>
      else if t = ''scan''
        then Inr \<lparr>rp_kind = cmdScan, rp_key = [], rp_keys = scanKeys (op_Key op) (if scanLimit \<le> 0 then defaultScanLimit else scanLimit), rp_value = []\<rparr>
      else Inl (''redisdriver: unsupported op type '' @ fmt_q t))"

record redis_consistency =
  rcs_level :: string
  rcs_replicas :: int
  rcs_timeout :: duration

definition waitReplicas :: "params \<Rightarrow> int" where
  "waitReplicas ps =
     (if paramInt ps ''wait_replicas'' 0 > 0 then paramInt ps ''wait_replicas'' 0
      else if paramInt ps ''numreplicas'' 0 > 0 then paramInt ps ''numreplicas'' 0 else 1)"

definition waitTimeout :: "params \<Rightarrow> duration" where
  "waitTimeout ps = (let n = paramInt ps ''wait_timeout_ms'' 0 in if n > 0 then i64 (n * 1000000) else 100 * 1000000)"

definition parseConsistency :: "string \<Rightarrow> params \<Rightarrow> err + redis_consistency" where
  "parseConsistency level ps =
     (if level \<in> {'''', ''none''} then Inr \<lparr>rcs_level = ''none'', rcs_replicas = 0, rcs_timeout = 0\<rparr>
      else if level \<in> {''wait'', ''waitN''} then Inr \<lparr>rcs_level = ''wait'', rcs_replicas = waitReplicas ps, rcs_timeout = waitTimeout ps\<rparr>
      else Inl (''redisdriver: unsupported consistency '' @ fmt_q level))"

definition redis_consistencyLevels :: "string list" where
  "redis_consistencyLevels = [''none'', ''wait'']"

definition redis_scanLimit :: "Workload \<Rightarrow> int" where
  "redis_scanLimit wl =
     (let n = paramInt (w_Params wl) ''scan_limit'' 0; m = paramInt (w_Params wl) ''limit'' 0
      in if n > 0 then n else if m > 0 then m else defaultScanLimit)"

subsection \<open>Options\<close>

definition defaultRedisPort :: string where
  "defaultRedisPort = ''6379''"

record clientOptions =
  cl_Addr :: string
  cl_Password :: string
  cl_DB :: int

definition redis_normalizeAddr :: "string \<Rightarrow> string" where
  "redis_normalizeAddr endpoint = (let (host, port) = splitHostPort defaultRedisPort (trim_space endpoint) in host @ '':'' @ port)"

definition redis_resolveOptions :: "(string \<Rightarrow> string) \<Rightarrow> string \<Rightarrow> clientOptions" where
  "redis_resolveOptions getenv endpoint =
     \<lparr>cl_Addr = redis_normalizeAddr endpoint,
      cl_Password = firstNonEmpty [getenv ''PROOFLOAD_REDIS_PASSWORD'', getenv ''REDIS_PASSWORD''], cl_DB = 0\<rparr>"

record redis_Options =
  ro_Addr :: string
  ro_Password :: string
  ro_DB :: int
  ro_PoolSize :: int

definition optionsFor :: "clientOptions \<Rightarrow> redis_Options" where
  "optionsFor o1 = \<lparr>ro_Addr = cl_Addr o1, ro_Password = cl_Password o1, ro_DB = cl_DB o1, ro_PoolSize = 1\<rparr>"

subsection \<open>The session\<close>

text \<open>The client's calls: \<open>Get\<close> of a missing key is \<open>Inr None\<close> (the library's \<open>Nil\<close>), \<open>Wait\<close> returns the number of
  replicas that acknowledged, \<open>MGet\<close> one value for each key.\<close>

record ('c, 'w) redis_client =
  rd_NewClient :: "redis_Options \<Rightarrow> 'w \<Rightarrow> 'c \<times> 'w"
  rd_Close :: "'c \<Rightarrow> 'w \<Rightarrow> err option \<times> 'w"
  rd_Ping :: "'c \<Rightarrow> 'w \<Rightarrow> err option \<times> 'w"
  rd_Get :: "'c \<Rightarrow> string \<Rightarrow> 'w \<Rightarrow> (err + u8 list option) \<times> 'w"
  rd_Set :: "'c \<Rightarrow> string \<Rightarrow> u8 list \<Rightarrow> 'w \<Rightarrow> err option \<times> 'w"
  rd_Wait :: "'c \<Rightarrow> int \<Rightarrow> duration \<Rightarrow> 'w \<Rightarrow> (err + int) \<times> 'w"
  rd_MGet :: "'c \<Rightarrow> string list \<Rightarrow> 'w \<Rightarrow> (err + any list) \<times> 'w"

record 'c redisConn =
  rdc_client :: 'c
  rdc_scanLimit :: int
  rdc_cons :: redis_consistency

definition redis_Prepare :: "('c, 'w) redis_client \<Rightarrow> 'c redisConn \<Rightarrow> Workload \<Rightarrow> 'w \<Rightarrow> (err option \<times> 'c redisConn) \<times> 'w" where
  "redis_Prepare cl c wl w =
     (let c' = c\<lparr>rdc_scanLimit := redis_scanLimit wl\<rparr> in
      case rd_Ping cl (rdc_client c) w of
        (Some e, w') \<Rightarrow> ((Some (''redisdriver: ping: '' @ e), c'), w')
      | (None, w') \<Rightarrow> ((None, c'), w'))"

definition execGet :: "('c, 'w) redis_client \<Rightarrow> 'c redisConn \<Rightarrow> OpType \<Rightarrow> redis_opPlan \<Rightarrow> 'w \<Rightarrow> OpResult \<times> 'w" where
  "execGet cl c t plan w = (case rd_Get cl (rdc_client c) (rp_key plan) w of
      (Inr None, w') \<Rightarrow> (op_result t, w')
    | (Inl e, w') \<Rightarrow> ((op_result t)\<lparr>r_Err := Some e\<rparr>, w')
    | (Inr (Some v), w') \<Rightarrow> ((op_result t)\<lparr>r_Observed := ABytes v, r_Rows := 1\<rparr>, w'))"

definition execSet :: "('c, 'w) redis_client \<Rightarrow> 'c redisConn \<Rightarrow> OpType \<Rightarrow> redis_opPlan \<Rightarrow> 'w \<Rightarrow> OpResult \<times> 'w" where
  "execSet cl c t plan w = (case rd_Set cl (rdc_client c) (rp_key plan) (rp_value plan) w of
      (Some e, w1) \<Rightarrow> ((op_result t)\<lparr>r_Err := Some e\<rparr>, w1)
    | (None, w1) \<Rightarrow>
        (let res = (op_result t)\<lparr>r_Rows := 1\<rparr> in
         if rcs_level (rdc_cons c) = ''wait''
         then case rd_Wait cl (rdc_client c) (rcs_replicas (rdc_cons c)) (rcs_timeout (rdc_cons c)) w1 of
             (Inl e, w2) \<Rightarrow> (res\<lparr>r_Err := Some e\<rparr>, w2)
           | (Inr _, w2) \<Rightarrow> (res, w2)
         else (res, w1)))"

fun mget_values :: "any list \<Rightarrow> u8 list list" where
  "mget_values [] = []"
| "mget_values (v # vs) = (case v of AStr s \<Rightarrow> bytes_of s # mget_values vs | ABytes b \<Rightarrow> b # mget_values vs | _ \<Rightarrow> mget_values vs)"

definition redis_execScan :: "('c, 'w) redis_client \<Rightarrow> 'c redisConn \<Rightarrow> OpType \<Rightarrow> redis_opPlan \<Rightarrow> 'w \<Rightarrow> OpResult \<times> 'w" where
  "redis_execScan cl c t plan w = (case rd_MGet cl (rdc_client c) (rp_keys plan) w of
      (Inl e, w') \<Rightarrow> ((op_result t)\<lparr>r_Err := Some e\<rparr>, w')
    | (Inr vals, w') \<Rightarrow> (let out = mget_values vals in ((op_result t)\<lparr>r_Observed := AByteSlices out, r_Rows := int (length out)\<rparr>, w')))"

definition redis_Execute :: "('c, 'w) redis_client \<Rightarrow> 'c redisConn \<Rightarrow> Operation \<Rightarrow> 'w \<Rightarrow> OpResult \<times> 'w" where
  "redis_Execute cl c op w = (case redis_planFor op (rdc_scanLimit c) of
      Inl e \<Rightarrow> ((op_result (op_Type op))\<lparr>r_Err := Some e\<rparr>, w)
    | Inr plan \<Rightarrow> (case rp_kind plan of
          cmdGet \<Rightarrow> execGet cl c (op_Type op) plan w
        | cmdScan \<Rightarrow> redis_execScan cl c (op_Type op) plan w
        | cmdSet \<Rightarrow> execSet cl c (op_Type op) plan w))"

definition redis_Close :: "('c, 'w) redis_client \<Rightarrow> 'c redisConn option \<Rightarrow> 'w \<Rightarrow> err option \<times> 'w" where
  "redis_Close cl c w = (case c of None \<Rightarrow> (None, w) | Some c \<Rightarrow> rd_Close cl (rdc_client c) w)"

subsection \<open>The driver\<close>

definition redis_open :: "(string \<Rightarrow> string) \<Rightarrow> ('c, 'w) redis_client \<Rightarrow> string \<Rightarrow> 'w \<Rightarrow> 'c \<times> 'w" where
  "redis_open getenv cl endpoint w = rd_NewClient cl (optionsFor (redis_resolveOptions getenv endpoint)) w"

definition redis_Schema :: "'w \<Rightarrow> err option \<times> 'w" where
  "redis_Schema w = (None, w)"

definition redis_Connect :: "(string \<Rightarrow> string) \<Rightarrow> ('c, 'w) redis_client \<Rightarrow> Config \<Rightarrow> 'w \<Rightarrow> (err + 'c redisConn) \<times> 'w" where
  "redis_Connect getenv cl cfg w = (case parseConsistency (cfg_Consistency cfg) (cfg_Params cfg) of
      Inl e \<Rightarrow> (Inl e, w)
    | Inr cons \<Rightarrow> (let (client, w') = redis_open getenv cl (firstEndpoint defaultRedisPort (cfg_Endpoints cfg)) w
        in (Inr \<lparr>rdc_client = client, rdc_scanLimit = defaultScanLimit, rdc_cons = cons\<rparr>, w')))"

definition redis_ReadKeyFrom :: "(string \<Rightarrow> string) \<Rightarrow> ('c, 'w) redis_client \<Rightarrow> Node \<Rightarrow> int \<Rightarrow> 'w \<Rightarrow> (err + OpResult) \<times> 'w" where
  "redis_ReadKeyFrom getenv cl node key w =
     (if n_Client node = '''' then (Inl (''redisdriver: node '' @ fmt_q (n_ID node) @ '' has no client endpoint''), w)
      else let (client, w1) = rd_NewClient cl (optionsFor (redis_resolveOptions getenv (n_Client node))) w in
        case rd_Get cl client (keyName key) w1 of
          (Inr None, w2) \<Rightarrow> (Inr (op_result ''read''), snd (rd_Close cl client w2))
        | (Inl e, w2) \<Rightarrow>
            (Inl (''redisdriver: read key '' @ fmt_int key @ '' from node '' @ fmt_q (n_ID node) @ '': '' @ e), snd (rd_Close cl client w2))
        | (Inr (Some v), w2) \<Rightarrow> (Inr ((op_result ''read'')\<lparr>r_Observed := ABytes v, r_Rows := 1\<rparr>), snd (rd_Close cl client w2)))"

section \<open>The server\<close>

text \<open>Redis as a map from strings to strings of bytes. \<open>WAIT\<close> changes nothing and reports how many replicas
  acknowledged by its timeout, which may be fewer than asked for.\<close>

definition redis_lawful :: "('c, 'w) redis_client \<Rightarrow> 'c \<Rightarrow> ('w \<Rightarrow> string \<Rightarrow> u8 list option) \<Rightarrow> ('w \<Rightarrow> bool) \<Rightarrow> bool" where
  "redis_lawful cl c db up \<longleftrightarrow> (\<forall>w. up w \<longrightarrow>
     (\<forall>key. \<exists>w'. rd_Get cl c key w = (Inr (db w key), w') \<and> up w' \<and> db w' = db w) \<and>
     (\<forall>key v. \<exists>w'. rd_Set cl c key v w = (None, w') \<and> up w' \<and> db w' = (db w)(key \<mapsto> v)) \<and>
     (\<forall>n t. \<exists>m w'. rd_Wait cl c n t w = (Inr m, w') \<and> up w' \<and> db w' = db w) \<and>
     (\<forall>keys. \<exists>w'. rd_MGet cl c keys w = (Inr (map (\<lambda>k. case db w k of Some b \<Rightarrow> AStr (string_of b) | None \<Rightarrow> ANil) keys), w') \<and>
        up w' \<and> db w' = db w))"

definition redis_tracks :: "('c, 'w) redis_client \<Rightarrow> ('w \<Rightarrow> 'c multiset) \<Rightarrow> bool" where
  "redis_tracks cl live \<longleftrightarrow>
     (\<forall>o1 w. live (snd (rd_NewClient cl o1 w)) = add_mset (fst (rd_NewClient cl o1 w)) (live w)) \<and>
     (\<forall>c w. live (snd (rd_Close cl c w)) = live w - {#c#}) \<and>
     (\<forall>c key w. live (snd (rd_Get cl c key w)) = live w)"

definition redis_store :: "('w \<Rightarrow> string \<Rightarrow> u8 list option) \<Rightarrow> 'w \<Rightarrow> int \<Rightarrow> u8 list option" where
  "redis_store db w k = db w (keyName k)"

text \<open>The values present among \<open>n\<close> consecutive keys.\<close>

definition redis_range :: "(int \<Rightarrow> u8 list option) \<Rightarrow> int \<Rightarrow> int \<Rightarrow> u8 list list" where
  "redis_range m k n = map (\<lambda>i. the (m (i64 (k + int i)))) (filter (\<lambda>i. m (i64 (k + int i)) \<noteq> None) [0..<nat n])"

section \<open>Lemmas\<close>

lemma fmt_int_inj [simp]: "fmt_int a = fmt_int b \<longleftrightarrow> a = b"
proof
  assume e: "fmt_int a = fmt_int b"
  have "CHR ''-'' \<in> set (fmt_int x) \<longleftrightarrow> x < 0" for x
    by (simp add: fmt_int_def)
  hence "a < 0 \<longleftrightarrow> b < 0"
    using e by metis
  thus "a = b"
    using e by (auto simp: fmt_int_def split: if_splits)
qed simp

lemma keyName_inj [simp]: "keyName a = keyName b \<longleftrightarrow> a = b"
  by (simp add: keyName_def)

lemma mget_values_range:
  "mget_values (map (\<lambda>k. case d k of Some b \<Rightarrow> AStr (string_of b) | None \<Rightarrow> ANil) ks) = map (\<lambda>k. the (d k)) (filter (\<lambda>k. d k \<noteq> None) ks)"
proof (induction ks)
  case (Cons k ks)
  have "bytes_of (string_of b) = b" for b
    by (rule bytes_of_string_of)
  thus ?case
    using Cons by (cases "d k") simp_all
qed simp

lemma redis_scan_range:
  "mget_values (map (\<lambda>k. case db w k of Some b \<Rightarrow> AStr (string_of b) | None \<Rightarrow> ANil) (scanKeys k n)) = redis_range (redis_store db w) k n"
  unfolding mget_values_range scanKeys_def redis_range_def redis_store_def by (simp add: filter_map comp_def)

text \<open>What the driver does with each operation.\<close>

lemma redis_Execute_get:
  assumes "redis_lawful cl (rdc_client c) db up" "up w" "op_Type op \<in> {''read'', ''r''}"
  shows "\<exists>w'. redis_Execute cl c op w = (case redis_store db w (op_Key op) of
      Some v \<Rightarrow> (op_result (op_Type op))\<lparr>r_Observed := ABytes v, r_Rows := 1\<rparr> | None \<Rightarrow> op_result (op_Type op), w') \<and> up w' \<and> db w' = db w"
proof -
  obtain w' where "rd_Get cl (rdc_client c) (keyName (op_Key op)) w = (Inr (db w (keyName (op_Key op))), w')" "up w'" "db w' = db w"
    using assms(1,2) unfolding redis_lawful_def by blast
  thus ?thesis
    using assms(3) by (cases "db w (keyName (op_Key op))") (auto simp: redis_Execute_def redis_planFor_def execGet_def redis_store_def Let_def)
qed

lemma redis_Execute_set:
  assumes "redis_lawful cl (rdc_client c) db up" "up w" "op_Type op \<in> {''insert'', ''w'', ''update''}"
  shows "\<exists>w'. redis_Execute cl c op w = ((op_result (op_Type op))\<lparr>r_Rows := 1\<rparr>, w') \<and> up w' \<and> db w' = (db w)(keyName (op_Key op) \<mapsto> op_Value op)"
proof -
  obtain w1 where s: "rd_Set cl (rdc_client c) (keyName (op_Key op)) (op_Value op) w = (None, w1)" "up w1" "db w1 = (db w)(keyName (op_Key op) \<mapsto> op_Value op)"
    using assms(1,2) unfolding redis_lawful_def by blast
  obtain m w2 where "rd_Wait cl (rdc_client c) (rcs_replicas (rdc_cons c)) (rcs_timeout (rdc_cons c)) w1 = (Inr m, w2)" "up w2" "db w2 = db w1"
    using assms(1) s(2) unfolding redis_lawful_def by blast
  thus ?thesis
    using s assms(3) by (auto simp: redis_Execute_def redis_planFor_def execSet_def Let_def)
qed

lemma redis_Execute_scan:
  assumes "redis_lawful cl (rdc_client c) db up" "up w" "op_Type op = ''scan''" "0 < rdc_scanLimit c"
  shows "\<exists>w'. redis_Execute cl c op w = (let vs = redis_range (redis_store db w) (op_Key op) (rdc_scanLimit c)
      in ((op_result (op_Type op))\<lparr>r_Observed := AByteSlices vs, r_Rows := int (length vs)\<rparr>, w')) \<and> up w' \<and> db w' = db w"
proof -
  obtain w' where "rd_MGet cl (rdc_client c) (scanKeys (op_Key op) (rdc_scanLimit c)) w =
      (Inr (map (\<lambda>k. case db w k of Some b \<Rightarrow> AStr (string_of b) | None \<Rightarrow> ANil) (scanKeys (op_Key op) (rdc_scanLimit c))), w')" "up w'" "db w' = db w"
    using assms(1,2) unfolding redis_lawful_def by blast
  thus ?thesis
    using assms(3,4) by (simp add: redis_Execute_def redis_planFor_def redis_execScan_def redis_scan_range Let_def)
qed

lemma redis_row_target:
  assumes "redis_lawful cl (rdc_client c) db up"
  shows "row_target (redis_Execute cl c) (redis_store db) up {''read'', ''r''} (\<lambda>op w. op_Type op \<in> {''insert'', ''w'', ''update''})"
proof
  fix s op res s'
  assume s: "up s" and e: "redis_Execute cl c op s = (res, s')"
  show "up s' \<and> r_Err res = None \<and> redis_store db s' = redis_store db s \<and>
      coerceBytes (r_Observed res) = (case redis_store db s (op_Key op) of Some b \<Rightarrow> (b, True) | None \<Rightarrow> ([], False))"
    if "op_Type op \<in> {''read'', ''r''}" "op_Value op = []"
    using redis_Execute_get [OF assms s that(1)] e by (cases "redis_store db s (op_Key op)") (auto simp: op_result_def redis_store_def)
  show "up s' \<and> r_Err res = None \<and> redis_store db s' = (redis_store db s)(op_Key op \<mapsto> op_Value op)"
    if "op_Type op \<in> {''insert'', ''w'', ''update''}" "op_Value op \<noteq> []"
    using redis_Execute_set [OF assms s that(1)] e by (auto simp: op_result_def redis_store_def fun_eq_iff)
qed

text \<open>A write at the level \<open>wait\<close> is acknowledged however few replicas confirmed it.\<close>

lemma redis_wait_shortfall:
  assumes "rd_Set cl (rdc_client c) (keyName (op_Key op)) (op_Value op) w = (None, w1)" "rcs_level (rdc_cons c) = ''wait''"
    "rd_Wait cl (rdc_client c) (rcs_replicas (rdc_cons c)) (rcs_timeout (rdc_cons c)) w1 = (Inr m, w2)" "m < rcs_replicas (rdc_cons c)"
    "op_Type op = ''insert''" "op_Value op \<noteq> []"
  shows "\<exists>res. redis_Execute cl c op w = (res, w2) \<and> r_Err res = None \<and>
    writeLogObserver_Observe encode op res ls = ls @ [encode \<lparr>wr_Key = op_Key op, wr_Checksum = Checksum (op_Value op), wr_Seq = op_Seq op\<rparr>]"
  using assms by (simp add: redis_Execute_def redis_planFor_def execSet_def op_result_def writeLogObserver_Observe_def LogWriter_Record_def Let_def)

text \<open>The hash tag of a key is what stands between its first opening brace and the next closing one. Each key has a
  tag of its own, so the keys of a scan do not share a slot.\<close>

definition hash_tag :: "string \<Rightarrow> string" where
  "hash_tag s = takeWhile (\<lambda>c. c \<noteq> CHR ''}'') (tl (dropWhile (\<lambda>c. c \<noteq> CHR ''{'') s))"

lemma keyName_tags: "hash_tag (keyName a) = hash_tag (keyName b) \<longleftrightarrow> a = b"
proof -
  have "CHR ''}'' \<notin> set (fmt_int x)" for x
    using digit_val_fmt_nat [of "CHR ''}''"] by (auto simp: fmt_int_def digit_val_def)
  hence "takeWhile (\<lambda>c. c \<noteq> CHR ''}'') (fmt_int x @ ''}'') = fmt_int x" for x
    by (subst takeWhile_append2) auto
  hence "hash_tag (keyName x) = fmt_int x" for x
    by (simp add: hash_tag_def keyName_def)
  thus ?thesis
    by simp
qed

lemma redis_Connect_live:
  assumes "redis_tracks cl live"
  shows "redis_Connect getenv cl cfg w = (Inr c, w') \<Longrightarrow> live w' = add_mset (rdc_client c) (live w)"
    and "redis_Connect getenv cl cfg w = (Inl e, w') \<Longrightarrow> live w' = live w"
proof -
  have "live (snd (rd_NewClient cl o1 w)) = add_mset (fst (rd_NewClient cl o1 w)) (live w)" for o1
    using assms by (simp add: redis_tracks_def)
  thus "redis_Connect getenv cl cfg w = (Inr c, w') \<Longrightarrow> live w' = add_mset (rdc_client c) (live w)"
    and "redis_Connect getenv cl cfg w = (Inl e, w') \<Longrightarrow> live w' = live w"
    by (auto simp: redis_Connect_def redis_open_def case_prod_beta split: sum.splits)
qed

lemma redis_ReadKeyFrom_live:
  assumes "redis_tracks cl live" "redis_ReadKeyFrom getenv cl n k w = (r, w')"
  shows "live w' = live w"
proof -
  obtain c w1 where c: "rd_NewClient cl (optionsFor (redis_resolveOptions getenv (n_Client n))) w = (c, w1)"
    by fastforce
  obtain y w2 where y: "rd_Get cl c (keyName k) w1 = (y, w2)"
    by fastforce
  have "live w1 = add_mset c (live w)" "live w2 = live w1" "live (snd (rd_Close cl c w2)) = live w2 - {#c#}"
    using assms(1) c y unfolding redis_tracks_def by (metis fst_conv snd_conv)+
  thus ?thesis
    using assms(2) c y by (cases y; cases "projr y") (auto simp: redis_ReadKeyFrom_def split: if_splits)
qed

section \<open>A server in memory\<close>

definition mem_redis :: "(nat, string \<Rightarrow> u8 list option) redis_client" where
  "mem_redis = \<lparr>rd_NewClient = (\<lambda>o1 w. (0, w)), rd_Close = (\<lambda>c w. (None, w)), rd_Ping = (\<lambda>c w. (None, w)),
     rd_Get = (\<lambda>c key w. (Inr (w key), w)), rd_Set = (\<lambda>c key v w. (None, w(key \<mapsto> v))), rd_Wait = (\<lambda>c n t w. (Inr 0, w)),
     rd_MGet = (\<lambda>c keys w. (Inr (map (\<lambda>k. case w k of Some b \<Rightarrow> AStr (string_of b) | None \<Rightarrow> ANil) keys), w))\<rparr>"

definition mem_redisConn :: "nat redisConn" where
  "mem_redisConn = \<lparr>rdc_client = 0, rdc_scanLimit = 4, rdc_cons = \<lparr>rcs_level = ''wait'', rcs_replicas = 1, rcs_timeout = 100000000\<rparr>\<rparr>"

lemma mem_redis_lawful: "redis_lawful mem_redis 0 (\<lambda>w. w) (\<lambda>_. True)"
  by (simp add: redis_lawful_def mem_redis_def)

interpretation mem_redis: row_target "redis_Execute mem_redis mem_redisConn" "redis_store (\<lambda>w. w)" "\<lambda>_. True" "{''read'', ''r''}"
    "\<lambda>op w. op_Type op \<in> {''insert'', ''w'', ''update''}"
  by (rule redis_row_target) (simp add: mem_redisConn_def mem_redis_lawful)

section \<open>Properties\<close>

text \<open>The abstract meaning of an operation on a map from keys to values, for a scan of \<open>n\<close> keys.\<close>

definition redis_op :: "int \<Rightarrow> Operation \<Rightarrow> (int \<Rightarrow> u8 list option) \<Rightarrow> OpResult \<times> (int \<Rightarrow> u8 list option)" where
  "redis_op n op m =
     (let k = op_Key op; res = op_result (op_Type op) in
      if op_Type op \<in> {''read'', ''r''}
        then (case m k of Some v \<Rightarrow> res\<lparr>r_Observed := ABytes v, r_Rows := 1\<rparr> | None \<Rightarrow> res, m)
      else if op_Type op \<in> {''insert'', ''w'', ''update''} then (res\<lparr>r_Rows := 1\<rparr>, m(k \<mapsto> op_Value op))
      else if op_Type op = ''scan''
        then (res\<lparr>r_Observed := AByteSlices (redis_range m k n), r_Rows := int (length (redis_range m k n))\<rparr>, m)
      else (res\<lparr>r_Err := Some (''redisdriver: unsupported op type '' @ fmt_q (op_Type op))\<rparr>, m))"

lemma redis_Execute_refines:
  assumes "redis_lawful cl (rdc_client c) db up" "up w" "0 < rdc_scanLimit c"
  shows "\<exists>w'. redis_Execute cl c op w = (fst (redis_op (rdc_scanLimit c) op (redis_store db w)), w') \<and>
    redis_store db w' = snd (redis_op (rdc_scanLimit c) op (redis_store db w)) \<and> up w'"
proof -
  consider "op_Type op \<in> {''read'', ''r''}" | "op_Type op \<in> {''insert'', ''w'', ''update''}" | "op_Type op = ''scan''"
    | "op_Type op \<notin> {''read'', ''r'', ''insert'', ''w'', ''update'', ''scan''}"
    by blast
  thus ?thesis
  proof cases
    case 1
    show ?thesis
      using redis_Execute_get [OF assms(1,2) 1] 1 by (auto simp: redis_op_def redis_store_def fun_eq_iff Let_def)
  next
    case 2
    show ?thesis
      using redis_Execute_set [OF assms(1,2) 2] 2 by (auto simp: redis_op_def redis_store_def fun_eq_iff Let_def)
  next
    case 3
    show ?thesis
      using redis_Execute_scan [OF assms(1,2) 3 assms(3)] 3 by (auto simp: redis_op_def redis_store_def fun_eq_iff Let_def)
  next
    case 4
    thus ?thesis
      using assms(2) by (simp add: redis_op_def redis_Execute_def redis_planFor_def Let_def)
  qed
qed



end
