(* ===== verification/Targets.thy ===== *)
theory Targets
  imports Kafka Postgres Cassandra Clickhouse Redis
begin

text \<open>
  What holds of all database drivers alike: verification by reconciliation decides
  what their databases hold, and no driver, Kafka's included, leaves a session open
  that it did not hand out.
\<close>

section \<open>Sessions of the drivers\<close>

text \<open>\<open>driver_session exec s m\<close>: \<open>exec\<close> is the \<open>Execute\<close> of a connection of one of the drivers to a server that follows its
  documentation, and \<open>m\<close> is what the database holds in state \<open>s\<close>.\<close>

inductive driver_session :: "(Operation \<Rightarrow> 's \<Rightarrow> OpResult \<times> 's) \<Rightarrow> 's \<Rightarrow> (int \<Rightarrow> u8 list option) \<Rightarrow> bool" where
  session_pg: "pg_lawful cl (pg_conn c :: nat) tab prep up \<Longrightarrow> pg_ready prep up s \<Longrightarrow>
    driver_session (pg_Execute cl c) s (table_store (tab s))"
| session_cass: "cass_lawful cl (ca_session c :: nat) tab scan up \<Longrightarrow> 0 < ca_scanLimit c \<Longrightarrow> up s \<Longrightarrow>
    driver_session (cass_Execute cl c) s (table_store (tab s))"
| session_ch: "ch_lawful cl (ch_conn c :: nat) rws up \<Longrightarrow> ch_ready rws up s \<Longrightarrow>
    driver_session (ch_Execute cl c) s (ch_store (rws s))"
| session_redis: "redis_lawful cl (rdc_client c :: nat) db up \<Longrightarrow> up s \<Longrightarrow>
    driver_session (redis_Execute cl c) s (redis_store db s)"

lemma driver_session_row_target:
  assumes "driver_session exec s m"
  shows "\<exists>store inv adm. row_target exec store inv {''read'', ''r''} adm \<and> inv s \<and> store s = m"
  using assms
proof cases
  case (session_pg cl c tab prep up)
  thus ?thesis
    using refines_row_target [OF pg_Execute_refines [OF session_pg(3)]] by blast
next
  case (session_cass cl c tab scan up)
  thus ?thesis
    using refines_row_target [OF cass_Execute_refines [OF session_cass(3,4)]] by blast
next
  case (session_ch cl c rws up)
  thus ?thesis
    using ch_row_target [OF session_ch(3)] by blast
next
  case (session_redis cl c db up)
  thus ?thesis
    using redis_row_target [OF session_redis(3)] by blast
qed

section \<open>Opening and closing\<close>

definition hands_out :: "('w \<Rightarrow> (err + 'k) \<times> 'w) \<Rightarrow> ('k \<Rightarrow> 'c) \<Rightarrow> ('w \<Rightarrow> 'c multiset) \<Rightarrow> bool" where
  "hands_out connect conn live \<longleftrightarrow>
     (\<forall>w. live (snd (connect w)) = (case fst (connect w) of Inr c \<Rightarrow> add_mset (conn c) (live w) | Inl _ \<Rightarrow> live w))"

definition leaves_none :: "('w \<Rightarrow> 'r \<times> 'w) \<Rightarrow> ('w \<Rightarrow> 'c multiset) \<Rightarrow> bool" where
  "leaves_none f live \<longleftrightarrow> (\<forall>w. live (snd (f w)) = live w)"

lemma hands_outI:
  assumes "\<And>w c w'. connect w = (Inr c, w') \<Longrightarrow> live w' = add_mset (conn c) (live w)" "\<And>w e w'. connect w = (Inl e, w') \<Longrightarrow> live w' = live w"
  shows "hands_out connect conn live"
  unfolding hands_out_def
proof
  fix w
  show "live (snd (connect w)) = (case fst (connect w) of Inr c \<Rightarrow> add_mset (conn c) (live w) | Inl _ \<Rightarrow> live w)"
    using assms by (cases "connect w"; cases "fst (connect w)") auto
qed

lemma leaves_noneI:
  assumes "\<And>w r w'. f w = (r, w') \<Longrightarrow> live w' = live w"
  shows "leaves_none f live"
  unfolding leaves_none_def using assms by (metis prod.collapse)

text \<open>A client that only counts its sessions.\<close>

definition counting_sql :: "('o, nat, nat multiset) sql_client" where
  "counting_sql = \<lparr>sq_Connect = (\<lambda>d w. (Inr (size w), add_mset (size w) w)), sq_Close = (\<lambda>c w. (None, w - {#c#})), sq_Ping = (\<lambda>c w. (Some ''down'', w)),
     sq_Prepare = (\<lambda>c n q w. (None, w)), sq_Exec = (\<lambda>c q as w. (Inl ''down'', w)), sq_QueryRow = (\<lambda>c q as w. (ErrNoRows, w)),
     sq_Query = (\<lambda>c q as w. (Inl ''down'', w))\<rparr>"

definition counting_redis :: "(nat, nat multiset) redis_client" where
  "counting_redis = \<lparr>rd_NewClient = (\<lambda>o1 w. (size w, add_mset (size w) w)), rd_Close = (\<lambda>c w. (None, w - {#c#})), rd_Ping = (\<lambda>c w. (None, w)),
     rd_Get = (\<lambda>c key w. (Inl ''down'', w)), rd_Set = (\<lambda>c key v w. (Some ''down'', w)), rd_Wait = (\<lambda>c n t w. (Inr 0, w)),
     rd_MGet = (\<lambda>c keys w. (Inl ''down'', w))\<rparr>"

definition counting_kgo :: "(nat, nat multiset) kgo_api" where
  "counting_kgo = \<lparr>kg_NewClient = (\<lambda>os w. (Inr (size w), add_mset (size w) w)), kg_Close = (\<lambda>c w. w - {#c#}),
     kg_CreateTopics = (\<lambda>c tc w. (RequestError ''down'', w))\<rparr>"

lemma counting_tracks: "sql_tracks counting_sql (\<lambda>w. w)" "redis_tracks counting_redis (\<lambda>w. w)" "kgo_tracks counting_kgo (\<lambda>w. w)"
  by (simp_all add: sql_tracks_def redis_tracks_def kgo_tracks_def counting_sql_def counting_redis_def counting_kgo_def)

section \<open>Properties\<close>

text \<open>C34: reconciliation works against every driver. Whichever of PostgreSQL, Cassandra, ClickHouse and Redis the run used, when its server follows its
  documentation and its clock advances, reading back the expectation log terminates, checks every key, and passes exactly when the database
  holds bytes of the expected checksum for every expected key and the sampled keys converged on all replicas.\<close>

theorem drivers_reconcile:
  assumes "polling_clock env clk" "order_of expected order" "te_Connect env s = (None, s1)" "te_Prepare env (o_Workload o1) s1 = (None, s2)"
    "driver_session (te_Execute env) s2 m" "o_ReadOp o1 \<in> {''read'', ''r''}"
  shows "\<exists>rep s'. Reconcile env expected order order' o1 s = Some (Inr rep, s') \<and> vr_Checked rep = int (card (dom expected)) \<and>
    (vr_Verdict rep = VerdictPass \<longleftrightarrow> (\<forall>k r. expected k = Some r \<longrightarrow> (\<exists>b. m k = Some b \<and> Checksum b = wr_Checksum r)) \<and>
       replicas_ok env order' o1 (snd (read_results env o1 order s2)))"
proof -
  obtain store inv adm where r: "row_target (te_Execute env) store inv {''read'', ''r''} adm" "inv s2" "store s2 = m"
    using driver_session_row_target [OF assms(5)] by blast
  show ?thesis
    using row_target.Reconcile_agrees [OF r(1) refl assms(1-4) r(2) assms(6), of order'] unfolding r(3) .
qed

theorem drivers_reconcile_witness:
  "\<exists>rep s'. Reconcile
      \<lparr>te_Connect = (\<lambda>s. (None, s)), te_Prepare = (\<lambda>w s. (None, s)), te_Execute = redis_Execute mem_redis mem_redisConn, te_Close = (\<lambda>s. s),
       te_Nodes = None, te_ReadKeyFrom = (\<lambda>n k s. (Inl ''unused'', s)), te_Now = (\<lambda>s. (0, s)), te_Poll = (\<lambda>s. (Some ''cancelled'', s))\<rparr>
      [7 \<mapsto> \<lparr>wr_Key = 7, wr_Checksum = Checksum [1, 2], wr_Seq = 1\<rparr>] [7] [7]
      \<lparr>o_ReadOp = ''read'', o_Workload = \<lparr>w_Name = [], w_Mode = [], w_Operations = [], w_KeySpace = 10,
         w_KeyDist = [], w_ValueSize = 0, w_VerifyModel = [], w_Params = Map.empty\<rparr>,
       o_ConvergenceSample = 200, o_ConvergenceTimeout = 5000000000\<rparr> [keyName 7 \<mapsto> [1, 2]] = Some (Inr rep, s') \<and>
    vr_Verdict rep = VerdictPass \<and> vr_Checked rep = 1"
  (is "\<exists>rep s'. Reconcile ?env ?exp ?ks ?ks ?o ?s = _ \<and> _")
proof -
  have d: "driver_session (te_Execute ?env) ?s (redis_store (\<lambda>w. w) ?s)"
    using session_redis [of mem_redis mem_redisConn "\<lambda>w. w" "\<lambda>_. True" ?s] mem_redis_lawful by (simp add: mem_redisConn_def)
  have c: "polling_clock ?env (\<lambda>_. 0)"
    by (simp add: polling_clock_def)
  obtain rep s' where "Reconcile ?env ?exp ?ks ?ks ?o ?s = Some (Inr rep, s')" "vr_Checked rep = 1" "vr_Verdict rep = VerdictPass"
    using drivers_reconcile [OF c _ _ _ d, of ?exp ?ks ?s ?s ?o ?ks] by (auto simp: order_of_def replicas_ok_def redis_store_def split: if_splits)
  thus ?thesis
    by blast
qed



end
