(* ===== verification/Provision.thy ===== *)
theory Provision
  imports Domain
begin

text \<open>
  \<open>core/provision\<close> and the registry of \<open>core/driver\<close>: the port of the provisioners and the two registries. A registry is a map
  from names to implementations; \<open>Register\<close> panics (\<^const>\<open>None\<close>) on a nil argument and on a duplicate.
\<close>

section \<open>Definitions\<close>

text \<open>An operation that may not return gives an option; the result carries the error or the value and the world it leaves.\<close>

record 'w Provisioner =
  pv_Backend :: string
  pv_Up :: "Topology \<Rightarrow> 'w \<Rightarrow> ((err + ClusterSpec) \<times> 'w) option"
  pv_Down :: "Topology \<Rightarrow> 'w \<Rightarrow> err option \<times> 'w"
  pv_Nodes :: "Topology \<Rightarrow> 'w \<Rightarrow> (err + Node list) \<times> 'w"

type_synonym 'p registry = "string \<Rightarrow> 'p option"

subsection \<open>Provisioners\<close>

definition provision_Register :: "'w Provisioner option \<Rightarrow> 'w Provisioner registry \<Rightarrow> 'w Provisioner registry option" where
  "provision_Register p reg =
     (case p of
        None \<Rightarrow> None
      | Some q \<Rightarrow> if reg (pv_Backend q) \<noteq> None then None else Some (reg(pv_Backend q \<mapsto> q)))"

text \<open>\<open>ks\<close> is the order in which the registry is ranged over.\<close>

definition Backends :: "string list \<Rightarrow> string list" where
  "Backends ks = sort ks"

definition provision_Get :: "'w Provisioner registry \<Rightarrow> string list \<Rightarrow> string \<Rightarrow> err + 'w Provisioner" where
  "provision_Get reg ks b =
     (case reg b of
        None \<Rightarrow> Inl (''provision: no backend registered as '' @ fmt_q b @ '' (have '' @ fmt_strs (Backends ks) @ '')'')
      | Some p \<Rightarrow> Inr p)"

subsection \<open>Drivers\<close>

text \<open>A driver is its name and what the registry does not look at.\<close>

definition driver_Register :: "(string \<times> 'd) option \<Rightarrow> (string \<times> 'd) registry \<Rightarrow> (string \<times> 'd) registry option" where
  "driver_Register d reg =
     (case d of
        None \<Rightarrow> None
      | Some q \<Rightarrow> if fst q = '''' then None else if reg (fst q) \<noteq> None then None else Some (reg(fst q \<mapsto> q)))"

definition Names :: "string list \<Rightarrow> string list" where
  "Names ks = sort ks"

definition driver_Get :: "(string \<times> 'd) registry \<Rightarrow> string list \<Rightarrow> string \<Rightarrow> err + string \<times> 'd" where
  "driver_Get reg ks nm =
     (case reg nm of
        None \<Rightarrow> Inl (''driver: no target registered as '' @ fmt_q nm @ '' (have '' @ fmt_strs (Names ks) @ '')'')
      | Some p \<Rightarrow> Inr p)"

section \<open>Registries\<close>

text \<open>The contract of both: what was registered under a name is what \<open>Get\<close> returns, nothing is replaced, and the names listed are
  those of the registrations, sorted.\<close>

locale registry =
  fixes register :: "'p option \<Rightarrow> 'p registry \<Rightarrow> 'p registry option" and nm :: "'p \<Rightarrow> string"
    and get :: "'p registry \<Rightarrow> string list \<Rightarrow> string \<Rightarrow> err + 'p" and listed :: "string list \<Rightarrow> string list" and valid :: "string \<Rightarrow> bool"
  assumes register_new: "register (Some p) reg = (if valid (nm p) \<and> reg (nm p) = None then Some (reg(nm p \<mapsto> p)) else None)"
    and register_nil: "register None reg = None"
    and get_iff: "get reg ks k = Inr p \<longleftrightarrow> reg k = Some p"
    and listed_sort: "listed ks = sort ks"
begin

fun register_all :: "'p option list \<Rightarrow> 'p registry \<Rightarrow> 'p registry option" where
  "register_all [] reg = Some reg"
| "register_all (p # ps) reg = (case register p reg of None \<Rightarrow> None | Some reg' \<Rightarrow> register_all ps reg')"

lemma register_all_val:
  "register_all ps reg = Some reg' \<Longrightarrow> \<exists>qs. ps = map Some qs \<and> distinct (map nm qs) \<and> (\<forall>q\<in>set qs. valid (nm q) \<and> reg (nm q) = None) \<and>
     reg' = reg ++ map_of (map (\<lambda>q. (nm q, q)) qs)"
proof (induction ps arbitrary: reg)
  case (Cons p ps)
  obtain reg1 where r: "register p reg = Some reg1" "register_all ps reg1 = Some reg'"
    using Cons.prems by (auto split: option.splits)
  obtain q where q: "p = Some q" "valid (nm q)" "reg (nm q) = None" "reg1 = reg(nm q \<mapsto> q)"
    using r(1) by (cases p) (auto simp: register_new register_nil split: if_splits)
  obtain qs where qs: "ps = map Some qs" "distinct (map nm qs)" "\<forall>x\<in>set qs. valid (nm x) \<and> reg1 (nm x) = None"
      "reg' = reg1 ++ map_of (map (\<lambda>q. (nm q, q)) qs)"
    using Cons.IH [OF r(2)] by blast
  have new: "nm q \<notin> nm ` set qs"
    using qs(3) q(4) by (metis fun_upd_same imageE option.distinct(1))
  have "\<forall>x\<in>set qs. reg (nm x) = None"
    using qs(3) q(4) new by (metis fun_upd_other image_eqI)
  moreover have "reg' = reg ++ map_of (map (\<lambda>q. (nm q, q)) (q # qs))"
    using qs(4) q(4) new by (auto simp: map_add_def fun_eq_iff map_of_eq_None_iff image_image dest!: map_of_SomeD split: option.splits)
  moreover have "p # ps = map Some (q # qs)" "distinct (map nm (q # qs))" "\<forall>x\<in>set (q # qs). valid (nm x) \<and> reg (nm x) = None"
    using q(1-3) qs(1-3) new \<open>\<forall>x\<in>set qs. reg (nm x) = None\<close> by simp_all
  ultimately show ?case
    by - (rule exI [of _ "q # qs"], intro conjI)
qed auto

lemma get_registered:
  assumes "register_all (map Some qs) Map.empty = Some reg" "q \<in> set qs"
  shows "get reg ks (nm q) = Inr q"
proof -
  have d: "distinct (map nm qs)" "reg = map_of (map (\<lambda>q. (nm q, q)) qs)"
    using register_all_val [OF assms(1)] by (auto simp: inj_map_eq_map)
  hence "reg (nm q) = Some q"
    using assms(2) by (auto simp: o_def intro!: map_of_is_SomeI)
  thus ?thesis
    by (simp add: get_iff)
qed

lemma get_unregistered: "reg k = None \<Longrightarrow> \<exists>e. get reg ks k = Inl e"
  using get_iff [of reg ks k] by (cases "get reg ks k") auto

lemma listed_names:
  assumes "register_all (map Some qs) Map.empty = Some reg" "order_of reg ks"
  shows "listed ks = sort (map nm qs)"
proof -
  have d: "distinct (map nm qs)" "reg = map_of (map (\<lambda>q. (nm q, q)) qs)"
    using register_all_val [OF assms(1)] by (auto simp: inj_map_eq_map)
  have "set ks = set (map nm qs)" "distinct ks"
    using assms(2) d(2) by (auto simp: order_of_def dom_map_of_conv_image_fst image_image)
  hence "mset ks = mset (map nm qs)"
    using d(1) by (metis set_eq_iff_mset_eq_distinct)
  thus ?thesis
    unfolding listed_sort by (metis properties_for_sort mset_sort sorted_sort)
qed

end

interpretation backends: registry provision_Register pv_Backend provision_Get Backends "\<lambda>_. True"
  by unfold_locales (auto simp: provision_Register_def provision_Get_def Backends_def split: option.splits)

interpretation drivers: registry driver_Register fst driver_Get Names "\<lambda>n. n \<noteq> ''''"
  by unfold_locales (auto simp: driver_Register_def driver_Get_def Names_def split: option.splits)

end
