(* ===== verification/Emit.thy ===== *)
theory Emit
  imports Domain
begin

text \<open>
  \<open>core/emit\<close>: the layout of a run directory, the atomic writer, the JSON artifacts and the rows of
  the time series. A file system maps a path to the bytes of the file there. What each system call of a write
  does is chosen by the environment (\<open>sys_outcomes\<close>), and \<open>writeAtomic\<close> returns every state the file system
  goes through, so that a crash or a concurrent reader at any point can be spoken of. JSON and Parquet are codecs
  given as arguments.
\<close>

section \<open>Definitions\<close>

subsection \<open>Paths\<close>

text \<open>\<open>filepath.Clean\<close> and \<open>filepath.Join\<close> on Unix.\<close>

fun clean_parts :: "bool \<Rightarrow> string list \<Rightarrow> string list \<Rightarrow> string list" where
  "clean_parts rooted [] acc = rev acc"
| "clean_parts rooted (p # ps) acc =
     (if p = '''' \<or> p = ''.'' then clean_parts rooted ps acc
      else if p = ''..'' then
        (case acc of
           a # as \<Rightarrow> if a = ''..'' then clean_parts rooted ps (p # acc) else clean_parts rooted ps as
         | [] \<Rightarrow> clean_parts rooted ps (if rooted then [] else [p]))
      else clean_parts rooted ps (p # acc))"

definition path_Clean :: "string \<Rightarrow> string" where
  "path_Clean s =
     (let rooted = (s \<noteq> [] \<and> hd s = CHR ''/''); body = join ''/'' (clean_parts rooted (split_on CHR ''/'' s) [])
      in if rooted then CHR ''/'' # body else if body = [] then ''.'' else body)"

definition path_Join :: "string list \<Rightarrow> string" where
  "path_Join es = (let ne = filter (\<lambda>e. e \<noteq> []) es in if ne = [] then '''' else path_Clean (join ''/'' ne))"

record Paths =
  ph_Dir :: string
  ph_Manifest :: string
  ph_Summary :: string
  ph_TimeseriesNDJSON :: string
  ph_TimeseriesParquet :: string
  ph_HLog :: string
  ph_VerifyJSON :: string
  ph_ServerStats :: string

definition Layout :: "string \<Rightarrow> string \<Rightarrow> string \<Rightarrow> Paths" where
  "Layout base target rid =
     (let dir = path_Join [base, ''results'', target, rid]
      in \<lparr>ph_Dir = dir, ph_Manifest = path_Join [dir, ''manifest.json''], ph_Summary = path_Join [dir, ''summary.json''],
          ph_TimeseriesNDJSON = path_Join [dir, ''timeseries.ndjson''], ph_TimeseriesParquet = path_Join [dir, ''timeseries.parquet''],
          ph_HLog = path_Join [dir, ''latency.hlog''], ph_VerifyJSON = path_Join [dir, ''verify.json''],
          ph_ServerStats = path_Join [dir, ''server_stats.json'']\<rparr>)"

subsection \<open>The atomic writer\<close>

type_synonym fsys = "string \<Rightarrow> u8 list option"

text \<open>A failing write leaves a prefix of the data; a failing \<open>Remove\<close> leaves the file.\<close>

record sys_outcomes =
  sy_MkdirAll :: "err option"
  sy_CreateTemp :: "err + string"
  sy_Write :: "(err \<times> nat) option"
  sy_Sync :: "err option"
  sy_Close :: "err option"
  sy_Rename :: "err option"
  sy_Remove :: bool

text \<open>The states are in order; the last one is the state at the return.\<close>

definition writeAndSync :: "sys_outcomes \<Rightarrow> string \<Rightarrow> u8 list \<Rightarrow> fsys \<Rightarrow> err option \<times> fsys list" where
  "writeAndSync oc tmp data fs =
     (case sy_Write oc of
        Some (e, n) \<Rightarrow> (Some e, [fs(tmp \<mapsto> take n data)])
      | None \<Rightarrow>
          (let fs1 = fs(tmp \<mapsto> data)
           in case sy_Sync oc of
                Some e \<Rightarrow> (Some e, [fs1])
              | None \<Rightarrow> (sy_Close oc, [fs1])))"

definition sys_remove :: "sys_outcomes \<Rightarrow> string \<Rightarrow> fsys \<Rightarrow> fsys" where
  "sys_remove oc p fs = (if sy_Remove oc then fs(p := None) else fs)"

definition writeAtomic :: "sys_outcomes \<Rightarrow> string \<Rightarrow> u8 list \<Rightarrow> fsys \<Rightarrow> err option \<times> fsys list" where
  "writeAtomic oc path data fs =
     (case sy_MkdirAll oc of
        Some e \<Rightarrow> (Some e, [fs])
      | None \<Rightarrow>
          (case sy_CreateTemp oc of
             Inl e \<Rightarrow> (Some e, [fs])
           | Inr tmp \<Rightarrow>
               (let fs1 = fs(tmp \<mapsto> [])
                in case writeAndSync oc tmp data fs1 of
                     (Some e, tr) \<Rightarrow> (Some e, [fs, fs1] @ tr @ [sys_remove oc tmp (last tr)])
                   | (None, tr) \<Rightarrow>
                       (case sy_Rename oc of
                          Some e \<Rightarrow> (Some e, [fs, fs1] @ tr @ [sys_remove oc tmp (last tr)])
                        | None \<Rightarrow> (None, [fs, fs1] @ tr @ [(last tr)(tmp := None, path \<mapsto> data)])))))"

subsection \<open>JSON artifacts\<close>

record 'a json_codec =
  js_Marshal :: "'a \<Rightarrow> err + u8 list"
  js_Unmarshal :: "u8 list \<Rightarrow> err + 'a"

definition writeJSON :: "'a json_codec \<Rightarrow> sys_outcomes \<Rightarrow> string \<Rightarrow> 'a \<Rightarrow> fsys \<Rightarrow> err option \<times> fsys list" where
  "writeJSON js oc path v fs = (case js_Marshal js v of Inl e \<Rightarrow> (Some e, [fs]) | Inr data \<Rightarrow> writeAtomic oc path data fs)"

definition readJSON :: "'a json_codec \<Rightarrow> string \<Rightarrow> fsys \<Rightarrow> err + 'a" where
  "readJSON js path fs = (case fs path of None \<Rightarrow> Inl (''open '' @ path @ '': no such file or directory'') | Some data \<Rightarrow> js_Unmarshal js data)"

definition WriteManifest :: "Manifest json_codec \<Rightarrow> sys_outcomes \<Rightarrow> Paths \<Rightarrow> Manifest \<Rightarrow> fsys \<Rightarrow> err option \<times> fsys list" where
  "WriteManifest js oc p m fs = writeJSON js oc (ph_Manifest p) m fs"

definition ReadManifest :: "Manifest json_codec \<Rightarrow> Paths \<Rightarrow> fsys \<Rightarrow> err + Manifest" where
  "ReadManifest js p fs = readJSON js (ph_Manifest p) fs"

definition WriteSummary :: "RunResult json_codec \<Rightarrow> sys_outcomes \<Rightarrow> Paths \<Rightarrow> RunResult \<Rightarrow> fsys \<Rightarrow> err option \<times> fsys list" where
  "WriteSummary js oc p r fs = writeJSON js oc (ph_Summary p) r fs"

definition ReadSummary :: "RunResult json_codec \<Rightarrow> Paths \<Rightarrow> fsys \<Rightarrow> err + RunResult" where
  "ReadSummary js p fs = readJSON js (ph_Summary p) fs"

definition WriteVerify :: "VerifyReport json_codec \<Rightarrow> sys_outcomes \<Rightarrow> Paths \<Rightarrow> VerifyReport \<Rightarrow> fsys \<Rightarrow> err option \<times> fsys list" where
  "WriteVerify js oc p v fs = writeJSON js oc (ph_VerifyJSON p) v fs"

definition ReadVerify :: "VerifyReport json_codec \<Rightarrow> Paths \<Rightarrow> fsys \<Rightarrow> err + VerifyReport" where
  "ReadVerify js p fs = readJSON js (ph_VerifyJSON p) fs"

subsection \<open>Time series\<close>

record tsRow =
  tr_TUnixMicros :: int
  tr_Op :: string
  tr_Throughput :: rat
  tr_InFlight :: int
  tr_Errors :: int
  tr_Count :: int
  tr_MeanMs :: rat
  tr_P50Ms :: rat
  tr_P90Ms :: rat
  tr_P95Ms :: rat
  tr_P99Ms :: rat
  tr_P999Ms :: rat
  tr_P9999Ms :: rat
  tr_MaxMs :: rat

definition toRow :: "LatencySnapshot \<Rightarrow> tsRow" where
  "toRow s = \<lparr>tr_TUnixMicros = ls_T s div 1000, tr_Op = ls_OpType s, tr_Throughput = ls_Throughput s, tr_InFlight = ls_InFlight s,
     tr_Errors = ls_Errors s, tr_Count = pc_Count (ls_Pct s), tr_MeanMs = pc_Mean (ls_Pct s), tr_P50Ms = pc_P50 (ls_Pct s),
     tr_P90Ms = pc_P90 (ls_Pct s), tr_P95Ms = pc_P95 (ls_Pct s), tr_P99Ms = pc_P99 (ls_Pct s), tr_P999Ms = pc_P999 (ls_Pct s),
     tr_P9999Ms = pc_P9999 (ls_Pct s), tr_MaxMs = pc_Max (ls_Pct s)\<rparr>"

definition fromRow :: "tsRow \<Rightarrow> LatencySnapshot" where
  "fromRow r = \<lparr>ls_T = tr_TUnixMicros r * 1000, ls_OpType = tr_Op r, ls_Throughput = tr_Throughput r, ls_InFlight = tr_InFlight r,
     ls_Errors = tr_Errors r, ls_Pct = \<lparr>pc_Count = tr_Count r, pc_Mean = tr_MeanMs r, pc_P50 = tr_P50Ms r, pc_P90 = tr_P90Ms r,
       pc_P95 = tr_P95Ms r, pc_P99 = tr_P99Ms r, pc_P999 = tr_P999Ms r, pc_P9999 = tr_P9999Ms r, pc_Max = tr_MaxMs r\<rparr>\<rparr>"

fun encode_lines :: "(LatencySnapshot \<Rightarrow> err + u8 list) \<Rightarrow> LatencySnapshot list \<Rightarrow> u8 list \<Rightarrow> err + u8 list" where
  "encode_lines enc [] buf = Inr buf"
| "encode_lines enc (s # ss) buf = (case enc s of Inl e \<Rightarrow> Inl e | Inr l \<Rightarrow> encode_lines enc ss (buf @ l))"

definition WriteTimeseriesNDJSON :: "(LatencySnapshot \<Rightarrow> err + u8 list) \<Rightarrow> sys_outcomes \<Rightarrow> Paths \<Rightarrow> LatencySnapshot list \<Rightarrow> fsys \<Rightarrow>
    err option \<times> fsys list" where
  "WriteTimeseriesNDJSON enc oc p snaps fs =
     (case encode_lines enc snaps [] of
        Inl e \<Rightarrow> (Some e, [fs])
      | Inr buf \<Rightarrow> writeAtomic oc (ph_TimeseriesNDJSON p) buf fs)"

definition WriteTimeseriesParquet :: "tsRow list json_codec \<Rightarrow> sys_outcomes \<Rightarrow> Paths \<Rightarrow> LatencySnapshot list \<Rightarrow> fsys \<Rightarrow> err option \<times> fsys list" where
  "WriteTimeseriesParquet pq oc p snaps fs =
     (case js_Marshal pq (map toRow snaps) of
        Inl e \<Rightarrow> (Some e, [fs])
      | Inr buf \<Rightarrow> writeAtomic oc (ph_TimeseriesParquet p) buf fs)"

definition ReadTimeseriesParquet :: "tsRow list json_codec \<Rightarrow> Paths \<Rightarrow> fsys \<Rightarrow> err + LatencySnapshot list" where
  "ReadTimeseriesParquet pq p fs =
     (case readJSON pq (ph_TimeseriesParquet p) fs of Inl e \<Rightarrow> Inl e | Inr rows \<Rightarrow> Inr (map fromRow rows))"

section \<open>Atomicity\<close>

lemma writeAndSync_states:
  assumes "writeAndSync oc tmp data fs = (r, tr)"
  shows "\<exists>d. tr = [fs(tmp \<mapsto> d)] \<and> (r = None \<longrightarrow> d = data)"
  using assms by (auto simp: writeAndSync_def Let_def split: option.splits prod.splits)

text \<open>A temporary name is one \<open>CreateTemp\<close> may return: a file that did not exist, and not the target.\<close>

definition fresh_temp :: "sys_outcomes \<Rightarrow> string \<Rightarrow> fsys \<Rightarrow> bool" where
  "fresh_temp oc path fs \<longleftrightarrow> (\<forall>tmp. sy_CreateTemp oc = Inr tmp \<longrightarrow> fs tmp = None \<and> tmp \<noteq> path)"

lemma writeAtomic_states:
  assumes "writeAtomic oc path data fs = (r, tr)" "fresh_temp oc path fs"
  shows "tr \<noteq> [] \<and> (\<forall>fs'\<in>set tr. fs' path \<in> {fs path, Some data}) \<and>
    (case r of
       None \<Rightarrow> last tr = fs(path \<mapsto> data)
     | Some e \<Rightarrow> last tr path = fs path \<and> (sy_Remove oc \<longrightarrow> last tr = fs))"
proof (cases "sy_MkdirAll oc = None \<and> (\<exists>tmp. sy_CreateTemp oc = Inr tmp)")
  case False
  thus ?thesis
    using assms(1) by (auto simp: writeAtomic_def split: option.splits sum.splits)
next
  case True
  then obtain tmp where t: "sy_MkdirAll oc = None" "sy_CreateTemp oc = Inr tmp" "fs tmp = None" "tmp \<noteq> path"
    using assms(2) by (auto simp: fresh_temp_def)
  obtain r1 tr1 where w: "writeAndSync oc tmp data (fs(tmp \<mapsto> [])) = (r1, tr1)"
    by (cases "writeAndSync oc tmp data (fs(tmp \<mapsto> []))")
  then obtain d where d: "tr1 = [fs(tmp \<mapsto> d)]" "r1 = None \<longrightarrow> d = data"
    using writeAndSync_states [OF w] by auto
  have "fs(tmp := None) = fs"
    using t(3) by (auto simp: fun_upd_idem)
  thus ?thesis
    using assms(1) t w d by (auto simp: writeAtomic_def Let_def sys_remove_def fun_upd_twist split: option.splits if_splits)
qed

text \<open>A value that its codec round-trips.\<close>

definition codec_ok :: "'a json_codec \<Rightarrow> 'a \<Rightarrow> bool" where
  "codec_ok js v \<longleftrightarrow> (\<forall>data. js_Marshal js v = Inr data \<longrightarrow> js_Unmarshal js data = Inr v)"

lemma writeJSON_readJSON:
  assumes "codec_ok js v" "fresh_temp oc path fs" "fst (writeJSON js oc path v fs) = None"
  shows "readJSON js path (last (snd (writeJSON js oc path v fs))) = Inr v"
proof -
  obtain data tr where d: "js_Marshal js v = Inr data" "writeAtomic oc path data fs = (None, tr)" "snd (writeJSON js oc path v fs) = tr"
    using assms(3) by (cases "js_Marshal js v") (auto simp: writeJSON_def prod_eq_iff)
  thus ?thesis
    using writeAtomic_states [OF d(2) assms(2)] assms(1) by (simp add: readJSON_def codec_ok_def)
qed

lemma fromRow_toRow: "fromRow (toRow s) = s\<lparr>ls_T := ls_T s div 1000 * 1000\<rparr>"
  by (simp add: fromRow_def toRow_def)

section \<open>Properties\<close>

text \<open>C27: a run's artifacts are never torn. In every state the file system goes through, at whatever call
  the process dies or an error strikes, the target holds its old content or all of the new; success leaves exactly
  the new file and nothing else changed, and failure leaves the file system as it was when the clean-up
  succeeds.\<close>

theorem writeAtomic_atomic:
  assumes "writeAtomic oc path data fs = (r, tr)" "fresh_temp oc path fs"
  shows "(\<forall>fs'\<in>set tr. fs' path = fs path \<or> fs' path = Some data) \<and> (r = None \<longrightarrow> last tr = fs(path \<mapsto> data)) \<and>
    (r \<noteq> None \<longrightarrow> last tr path = fs path \<and> (sy_Remove oc \<longrightarrow> last tr = fs))"
  using writeAtomic_states [OF assms] by (auto split: option.splits)

theorem writeAtomic_atomic_witness:
  "\<exists>r tr. writeAtomic \<lparr>sy_MkdirAll = None, sy_CreateTemp = Inr ''.m.tmp'', sy_Write = None, sy_Sync = Some ''io error'', sy_Close = None,
      sy_Rename = None, sy_Remove = True\<rparr> ''m'' [1, 2] [''m'' \<mapsto> [7]] = (r, tr) \<and> r = Some ''io error'' \<and> last tr = [''m'' \<mapsto> [7]]"
proof -
  let ?oc = "\<lparr>sy_MkdirAll = None, sy_CreateTemp = Inr ''.m.tmp'', sy_Write = None, sy_Sync = Some ''io error'', sy_Close = None,
      sy_Rename = None, sy_Remove = True\<rparr>"
  obtain r tr where w: "writeAtomic ?oc ''m'' [1, 2] [''m'' \<mapsto> [7]] = (r, tr)"
    by (cases "writeAtomic ?oc ''m'' [1, 2] [''m'' \<mapsto> [7]]")
  moreover have "r = Some ''io error''"
    using w by (auto simp: writeAtomic_def writeAndSync_def Let_def)
  ultimately show ?thesis
    using writeAtomic_atomic [OF w] by (auto simp: fresh_temp_def)
qed



end
