(* ===== verification/Compose.thy ===== *)
theory Compose
  imports Provision Emit
begin

text \<open>
  \<open>core/provision/compose\<close>: the Docker Compose provisioner. The model of a project (\<open>buildModel\<close>) and its rendering are functions; the
  \<open>docker\<close> command line, the clock, the file system and the JSON decoder are the fields of an environment. The health polling is a loop
  with a deadline; \<^const>\<open>None\<close> stands for a loop that does not return.
\<close>

section \<open>Definitions\<close>

subsection \<open>The project model\<close>

record health =
  he_Test :: "string list"
  he_Interval :: string
  he_Timeout :: string
  he_Retries :: int
  he_StartPeriod :: string

record serviceModel =
  sm_Key :: string
  sm_Image :: string
  sm_ContainerName :: string
  sm_Role :: NodeRole
  sm_HostPort :: int
  sm_ContainerPort :: int
  sm_Env :: "(string \<times> string) list"
  sm_Health :: "health option"
  sm_Volume :: string
  sm_VolumePath :: string
  sm_CPULimit :: string
  sm_MemLimit :: string

record projectModel =
  pm_Project :: string
  pm_Services :: "serviceModel list"
  pm_Volumes :: "string list"

record compose_hook =
  ch_known :: bool
  ch_defaultImage :: string
  ch_containerPort :: int
  ch_basePort :: int
  ch_env :: "(string \<times> string) list"
  ch_health :: "health option"
  ch_volumePath :: string

definition compose_genericHook :: compose_hook where
  "compose_genericHook = \<lparr>ch_known = False, ch_defaultImage = '''', ch_containerPort = 8080, ch_basePort = 18080, ch_env = [],
     ch_health = None, ch_volumePath = ''''\<rparr>"

definition compose_hooks :: "string \<Rightarrow> compose_hook option" where
  "compose_hooks = [
     ''postgresql'' \<mapsto> \<lparr>ch_known = True, ch_defaultImage = ''postgres'', ch_containerPort = 5432, ch_basePort = 15432,
       ch_env = [(''POSTGRES_PASSWORD'', ''proofload''), (''POSTGRES_USER'', ''proofload''), (''POSTGRES_DB'', ''proofload'')],
       ch_health = Some \<lparr>he_Test = [''CMD-SHELL'', ''pg_isready -U proofload''], he_Interval = ''5s'', he_Timeout = ''5s'', he_Retries = 10,
         he_StartPeriod = ''10s''\<rparr>,
       ch_volumePath = ''/var/lib/postgresql/data''\<rparr>,
     ''redis'' \<mapsto> \<lparr>ch_known = True, ch_defaultImage = ''redis'', ch_containerPort = 6379, ch_basePort = 16379, ch_env = [],
       ch_health = Some \<lparr>he_Test = [''CMD'', ''redis-cli'', ''ping''], he_Interval = ''5s'', he_Timeout = ''3s'', he_Retries = 10,
         he_StartPeriod = ''5s''\<rparr>,
       ch_volumePath = ''/data''\<rparr>]"

definition compose_hookFor :: "string \<Rightarrow> compose_hook" where
  "compose_hookFor target = (case compose_hooks target of Some h \<Rightarrow> h | None \<Rightarrow> compose_genericHook)"

definition projectName :: "Topology \<Rightarrow> string" where
  "projectName t = ''proofload-'' @ t_Name t"

definition compose_resolveImage :: "Topology \<Rightarrow> compose_hook \<Rightarrow> string" where
  "compose_resolveImage t hook =
     (let img = t_Image t;
          img = (if img = '''' then ch_defaultImage hook else img);
          img = (if img = '''' then t_Target t else img)
      in if t_Version t \<noteq> '''' then img @ '':'' @ t_Version t else img)"

definition compose_roleFor :: "compose_hook \<Rightarrow> int \<Rightarrow> NodeRole" where
  "compose_roleFor hook i = (if \<not> ch_known hook then RoleGeneric else if i = 0 then RolePrimary else RoleReplica)"

text \<open>The keys of every hook are distinct, so that the result does not depend on the stability of \<open>sort.Slice\<close>.\<close>

definition compose_sortedEnv :: "(string \<times> string) list \<Rightarrow> (string \<times> string) list" where
  "compose_sortedEnv env = sort_key fst env"

definition buildService :: "Topology \<Rightarrow> compose_hook \<Rightarrow> int \<Rightarrow> serviceModel" where
  "buildService t hook i =
     (let nm = t_Name t @ ''-'' @ fmt_int i
      in \<lparr>sm_Key = nm, sm_Image = compose_resolveImage t hook, sm_ContainerName = nm, sm_Role = compose_roleFor hook i,
          sm_HostPort = i64 (ch_basePort hook + i), sm_ContainerPort = ch_containerPort hook, sm_Env = compose_sortedEnv (ch_env hook),
          sm_Health = ch_health hook,
          sm_Volume = (if ch_volumePath hook \<noteq> '''' then nm @ ''-data'' else ''''),
          sm_VolumePath = (if ch_volumePath hook \<noteq> '''' then ch_volumePath hook else ''''),
          sm_CPULimit = res_CPU (t_Resources t), sm_MemLimit = res_Memory (t_Resources t)\<rparr>)"

definition compose_buildModel :: "Topology \<Rightarrow> projectModel" where
  "compose_buildModel t =
     (let hook = compose_hookFor (t_Target t);
          n = (if t_Nodes t \<le> 0 then 1 else t_Nodes t);
          ss = map (\<lambda>i. buildService t hook (int i)) [0..<nat n]
      in \<lparr>pm_Project = projectName t, pm_Services = ss, pm_Volumes = filter (\<lambda>v. v \<noteq> '''') (map sm_Volume ss)\<rparr>)"

subsection \<open>Rendering\<close>

text \<open>The template, line by line: each action is on a line of its own and trims the line break before it.\<close>

definition dq :: "string \<Rightarrow> string" where
  "dq s = [CHR 0x22] @ s @ [CHR 0x22]"

definition unlines :: "string list \<Rightarrow> string" where
  "unlines ls = concat (map (\<lambda>l. l @ [CHR 0x0A]) ls)"

definition health_lines :: "health \<Rightarrow> string list" where
  "health_lines h =
     [''    healthcheck:'', ''      test: ['' @ join '', '' (map dq (he_Test h)) @ '']'', ''      interval: '' @ he_Interval h,
      ''      timeout: '' @ he_Timeout h, ''      retries: '' @ fmt_int (he_Retries h), ''      start_period: '' @ he_StartPeriod h]"

definition service_lines :: "serviceModel \<Rightarrow> string list" where
  "service_lines s =
     [''  '' @ sm_Key s @ '':'', ''    image: '' @ sm_Image s, ''    container_name: '' @ sm_ContainerName s, ''    ports:'',
      ''      - '' @ dq (fmt_int (sm_HostPort s) @ '':'' @ fmt_int (sm_ContainerPort s))]
     @ (if sm_Env s = [] then [] else ''    environment:'' # map (\<lambda>(k, v). ''      '' @ k @ '': '' @ dq v) (sm_Env s))
     @ (case sm_Health s of None \<Rightarrow> [] | Some h \<Rightarrow> health_lines h)
     @ (if sm_Volume s = '''' then [] else [''    volumes:'', ''      - '' @ sm_Volume s @ '':'' @ sm_VolumePath s])
     @ (if sm_CPULimit s = '''' \<and> sm_MemLimit s = '''' then []
        else [''    deploy:'', ''      resources:'', ''        limits:'']
          @ (if sm_CPULimit s = '''' then [] else [''          cpus: '' @ dq (sm_CPULimit s)])
          @ (if sm_MemLimit s = '''' then [] else [''          memory: '' @ sm_MemLimit s]))"

definition compose_lines :: "projectModel \<Rightarrow> string list" where
  "compose_lines m =
     [''name: '' @ pm_Project m, ''services:''] @ concat (map service_lines (pm_Services m))
     @ (if pm_Volumes m = [] then [] else ''volumes:'' # map (\<lambda>v. ''  '' @ v @ '':'') (pm_Volumes m))"

definition compose_render :: "projectModel \<Rightarrow> string" where
  "compose_render m = unlines (compose_lines m)"

subsection \<open>The docker command line\<close>

record psEntry =
  ps_Name :: string
  ps_Service :: string
  ps_State :: string
  ps_Health :: string

record bundleNode =
  bn_Service :: string
  bn_Role :: string
  bn_ClientPort :: int

text \<open>\<open>dk_exec\<close> runs the command and gives its error and combined output; \<open>dk_After\<close> is the wait of a poll, with the error of the context
  when that is done first.\<close>

record 'w docker_env =
  dk_exec :: "string list \<Rightarrow> 'w \<Rightarrow> (err option \<times> string) \<times> 'w"
  dk_Now :: "'w \<Rightarrow> instant \<times> 'w"
  dk_After :: "duration \<Rightarrow> 'w \<Rightarrow> err option \<times> 'w"
  dk_MkdirAll :: "string \<Rightarrow> 'w \<Rightarrow> err option \<times> 'w"
  dk_WriteFile :: "string \<Rightarrow> string \<Rightarrow> 'w \<Rightarrow> err option \<times> 'w"
  dk_ReadFile :: "string \<Rightarrow> 'w \<Rightarrow> err + string"
  dk_entry :: "string \<Rightarrow> err + psEntry"
  dk_entries :: "string \<Rightarrow> err + psEntry list"
  dk_manifest :: "string \<Rightarrow> err + bundleNode list"

definition runDocker :: "'w docker_env \<Rightarrow> string list \<Rightarrow> 'w \<Rightarrow> (err + string) \<times> 'w" where
  "runDocker e args w =
     (case dk_exec e args w of
        ((Some er, out), w1) \<Rightarrow> (Inl (''docker '' @ join '' '' args @ '': '' @ er @ '': '' @ trim_space out), w1)
      | ((None, out), w1) \<Rightarrow> (Inr (trim_space out), w1))"

definition composeArgs :: "string \<Rightarrow> string \<Rightarrow> string list \<Rightarrow> string list" where
  "composeArgs project file rest = [''compose'', ''-p'', project, ''-f'', file] @ rest"

definition inspect_format :: string where
  "inspect_format = ''{{if .State.Health}}{{.State.Health.Status}}{{else}}{{.State.Status}}{{end}}''"

definition containerReady :: "'w docker_env \<Rightarrow> string \<Rightarrow> 'w \<Rightarrow> (err + bool) \<times> 'w" where
  "containerReady e nm w =
     (case runDocker e [''inspect'', ''--format'', inspect_format, nm] w of
        (Inl er, w1) \<Rightarrow> (Inl er, w1)
      | (Inr out, w1) \<Rightarrow> (Inr (out = ''healthy'' \<or> out = ''running''), w1))"

fun unhealthy :: "'w docker_env \<Rightarrow> serviceModel list \<Rightarrow> 'w \<Rightarrow> string list \<times> 'w" where
  "unhealthy e [] w = ([], w)"
| "unhealthy e (s # ss) w =
     (let (r, w1) = containerReady e (sm_ContainerName s) w; (ps, w2) = unhealthy e ss w1
      in (if r = Inr True then ps else sm_ContainerName s # ps, w2))"

text \<open>The shape of both waits: probe until nothing is pending, give up after the deadline or when the context is done. A probe that fails
  is \<^const>\<open>Inl\<close> and has nothing pending to report.\<close>

partial_function (option) poll_loop ::
  "('w \<Rightarrow> (err + string list) \<times> 'w) \<Rightarrow> 'w docker_env \<Rightarrow> duration \<Rightarrow> (string list \<Rightarrow> err) \<Rightarrow> instant \<Rightarrow> 'w \<Rightarrow> (err option \<times> 'w) option" where
  "poll_loop probe e interval msg deadline w =
     (let (r, w1) = probe w
      in if r = Inr [] then Some (None, w1)
         else let (now, w2) = dk_Now e w1
              in if now > deadline then Some (Some (msg (case r of Inl _ \<Rightarrow> [] | Inr ps \<Rightarrow> ps)), w2)
                 else let (x, w3) = dk_After e interval w2
                      in case x of Some er \<Rightarrow> Some (Some er, w3) | None \<Rightarrow> poll_loop probe e interval msg deadline w3)"

definition waitHealthy :: "'w docker_env \<Rightarrow> projectModel \<Rightarrow> duration \<Rightarrow> 'w \<Rightarrow> (err option \<times> 'w) option" where
  "waitHealthy e m timeout w =
     (let (now, w1) = dk_Now e w
      in poll_loop (\<lambda>w. let (ps, w1) = unhealthy e (pm_Services m) w in (Inr ps, w1)) e second
           (\<lambda>ps. ''timed out after '' @ duration_String timeout @ '' waiting for: '' @ join '', '' ps) (now + timeout) w1)"

fun parsePort_loop :: "int \<Rightarrow> string \<Rightarrow> int" where
  "parsePort_loop n [] = n"
| "parsePort_loop n (c # cs) = (case digit_val c of None \<Rightarrow> 0 | Some d \<Rightarrow> parsePort_loop (i64 (i64 (n * 10) + int d)) cs)"

definition parsePort :: "string \<Rightarrow> int" where
  "parsePort s = parsePort_loop 0 (trim_space s)"

definition published :: "string \<Rightarrow> int \<Rightarrow> int" where
  "published out fallback =
     (case cut_last (CHR '':'') out of
        None \<Rightarrow> fallback
      | Some (_, p) \<Rightarrow> if parsePort p > 0 then parsePort p else fallback)"

definition resolvePort :: "'w docker_env \<Rightarrow> string \<Rightarrow> string \<Rightarrow> serviceModel \<Rightarrow> 'w \<Rightarrow> int \<times> 'w" where
  "resolvePort e project file s w =
     (case runDocker e (composeArgs project file [''port'', sm_Key s, fmt_int (sm_ContainerPort s)]) w of
        (Inl _, w1) \<Rightarrow> (sm_HostPort s, w1)
      | (Inr out, w1) \<Rightarrow> (published out (sm_HostPort s), w1))"

definition starts_bracket :: "string \<Rightarrow> bool" where
  "starts_bracket s \<longleftrightarrow> s \<noteq> [] \<and> hd s = CHR ''[''"

fun parsePS_lines :: "(string \<Rightarrow> err + psEntry) \<Rightarrow> string list \<Rightarrow> err + psEntry list" where
  "parsePS_lines entry [] = Inr []"
| "parsePS_lines entry (l # ls) =
     (if trim_space l = '''' then parsePS_lines entry ls
      else case entry (trim_space l) of
             Inl er \<Rightarrow> Inl er
           | Inr x \<Rightarrow> (case parsePS_lines entry ls of Inl er \<Rightarrow> Inl er | Inr xs \<Rightarrow> Inr (x # xs)))"

definition parsePS :: "'w docker_env \<Rightarrow> string \<Rightarrow> err + psEntry list" where
  "parsePS e raw =
     (let raw = trim_space raw
      in if raw = '''' then Inr []
         else if starts_bracket raw then dk_entries e raw
         else parsePS_lines (dk_entry e) (split_on (CHR 0x0A) raw))"

text \<open>The map built from the entries: the last entry of a service wins.\<close>

definition byService :: "psEntry list \<Rightarrow> string \<Rightarrow> psEntry option" where
  "byService es = foldl (\<lambda>m x. m(ps_Service x \<mapsto> x)) Map.empty es"

subsection \<open>The provisioner\<close>

definition healthTimeout :: duration where
  "healthTimeout = 360 * second"

definition compose_workDir :: "Topology \<Rightarrow> string" where
  "compose_workDir t = path_Join [''.proofload'', ''compose'', t_Name t]"

definition writeProject :: "'w docker_env \<Rightarrow> Topology \<Rightarrow> projectModel \<Rightarrow> 'w \<Rightarrow> (err + string) \<times> 'w" where
  "writeProject e t m w =
     (let dir = compose_workDir t; file = path_Join [dir, ''docker-compose.yml'']
      in case dk_MkdirAll e dir w of
           (Some er, w1) \<Rightarrow> (Inl (''create work dir '' @ dir @ '': '' @ er), w1)
         | (None, w1) \<Rightarrow>
             (case dk_WriteFile e file (compose_render m) w1 of
                (Some er, w2) \<Rightarrow> (Inl (''write '' @ file @ '': '' @ er), w2)
              | (None, w2) \<Rightarrow> (Inr file, w2)))"

definition docker_node :: "string \<Rightarrow> NodeRole \<Rightarrow> string \<Rightarrow> Node" where
  "docker_node nm role client = \<lparr>n_ID = nm, n_Role = role, n_Client = client,
     n_Control = \<lparr>ce_Method = ControlDocker, ce_Ref = nm, ce_Namespace = '''', ce_Extra = Map.empty\<rparr>\<rparr>"

definition loopback :: "int \<Rightarrow> string" where
  "loopback port = ''127.0.0.1:'' @ fmt_int port"

fun spec_nodes :: "'w docker_env \<Rightarrow> string \<Rightarrow> string \<Rightarrow> serviceModel list \<Rightarrow> 'w \<Rightarrow> Node list \<times> 'w" where
  "spec_nodes e project file [] w = ([], w)"
| "spec_nodes e project file (s # ss) w =
     (let (port, w1) = resolvePort e project file s w; (ns, w2) = spec_nodes e project file ss w1
      in (docker_node (sm_ContainerName s) (sm_Role s) (loopback port) # ns, w2))"

definition compose_spec :: "'w docker_env \<Rightarrow> Topology \<Rightarrow> projectModel \<Rightarrow> string \<Rightarrow> 'w \<Rightarrow> ClusterSpec \<times> 'w" where
  "compose_spec e t m file w =
     (let rf = (if t_ReplicationFactor t = 0 then int (length (pm_Services m)) else t_ReplicationFactor t);
          (ns, w1) = spec_nodes e (pm_Project m) file (pm_Services m) w
      in (\<lparr>cs_Nodes = ns, cs_ReplicationFactor = rf, cs_Consistency = []\<rparr>, w1))"

subsection \<open>Bundles\<close>

definition bundleProject :: "Topology \<Rightarrow> string" where
  "bundleProject t = ''proofload-'' @ t_Name t"

definition bundleFile :: "Topology \<Rightarrow> string" where
  "bundleFile t = path_Join [t_Bundle t, ''docker-compose.yml'']"

definition readBundleManifest :: "'w docker_env \<Rightarrow> string \<Rightarrow> 'w \<Rightarrow> err + bundleNode list" where
  "readBundleManifest e dir w =
     (case dk_ReadFile e (path_Join [dir, ''proofload-cluster.json'']) w of
        Inl er \<Rightarrow> Inl (''read bundle manifest: '' @ er)
      | Inr b \<Rightarrow>
          (case dk_manifest e b of
             Inl er \<Rightarrow> Inl (''parse bundle manifest: '' @ er)
           | Inr ns \<Rightarrow> if ns = [] then Inl (''bundle manifest '' @ dir @ '' has no nodes'') else Inr ns))"

definition entryReady :: "psEntry \<Rightarrow> bool" where
  "entryReady x = (if ps_Health x \<noteq> '''' then ps_Health x = ''healthy'' else ps_State x = ''running'')"

definition bundlePending :: "'w docker_env \<Rightarrow> string \<Rightarrow> string \<Rightarrow> bundleNode list \<Rightarrow> 'w \<Rightarrow> (err + string list) \<times> 'w" where
  "bundlePending e proj file man w =
     (case runDocker e (composeArgs proj file [''ps'', ''--format'', ''json'']) w of
        (Inl er, w1) \<Rightarrow> (Inl er, w1)
      | (Inr raw, w1) \<Rightarrow>
          (case parsePS e raw of
             Inl er \<Rightarrow> (Inl er, w1)
           | Inr es \<Rightarrow>
               (Inr (filter (\<lambda>s. \<not> (case byService es s of None \<Rightarrow> False | Some x \<Rightarrow> entryReady x)) (map bn_Service man)), w1)))"

definition waitHealthyBundle :: "'w docker_env \<Rightarrow> string \<Rightarrow> string \<Rightarrow> bundleNode list \<Rightarrow> duration \<Rightarrow> 'w \<Rightarrow> (err option \<times> 'w) option" where
  "waitHealthyBundle e proj file man timeout w =
     (let (now, w1) = dk_Now e w
      in poll_loop (bundlePending e proj file man) e (2 * second)
           (\<lambda>ps. ''timed out after '' @ duration_String timeout @ '' waiting for: '' @ fmt_strs ps) (now + timeout) w1)"

definition resolveNamedPort :: "'w docker_env \<Rightarrow> string \<Rightarrow> string \<Rightarrow> string \<Rightarrow> int \<Rightarrow> 'w \<Rightarrow> int \<times> 'w" where
  "resolveNamedPort e proj file srv containerPort w =
     (case runDocker e (composeArgs proj file [''port'', srv, fmt_int containerPort]) w of
        (Inl _, w1) \<Rightarrow> (containerPort, w1)
      | (Inr out, w1) \<Rightarrow> (published out containerPort, w1))"

definition bundle_name :: "psEntry list \<Rightarrow> bundleNode \<Rightarrow> string" where
  "bundle_name es n = (case byService es (bn_Service n) of
      Some x \<Rightarrow> if ps_Name x \<noteq> '''' then ps_Name x else bn_Service n
    | None \<Rightarrow> bn_Service n)"

fun bundle_nodes :: "'w docker_env \<Rightarrow> string \<Rightarrow> string \<Rightarrow> psEntry list \<Rightarrow> bundleNode list \<Rightarrow> 'w \<Rightarrow> Node list \<times> 'w" where
  "bundle_nodes e proj file es [] w = ([], w)"
| "bundle_nodes e proj file es (n # ns) w =
     (let (client, w1) =
            (if bn_ClientPort n > 0
             then let (port, w1) = resolveNamedPort e proj file (bn_Service n) (bn_ClientPort n) w in (loopback port, w1)
             else ('''', w));
          (rest, w2) = bundle_nodes e proj file es ns w1
      in (docker_node (bundle_name es n) (bn_Role n) client # rest, w2))"

definition nodesBundle :: "'w docker_env \<Rightarrow> Topology \<Rightarrow> bundleNode list \<Rightarrow> 'w \<Rightarrow> (err + Node list) \<times> 'w" where
  "nodesBundle e t man w =
     (let proj = bundleProject t; file = bundleFile t
      in case runDocker e (composeArgs proj file [''ps'', ''--format'', ''json'']) w of
           (Inl er, w1) \<Rightarrow> (Inl er, w1)
         | (Inr raw, w1) \<Rightarrow>
             (case parsePS e raw of
                Inl er \<Rightarrow> (Inl (''parse compose ps: '' @ er), w1)
              | Inr es \<Rightarrow> (let (ns, w2) = bundle_nodes e proj file es man w1 in (Inr ns, w2))))"

definition upBundle :: "'w docker_env \<Rightarrow> Topology \<Rightarrow> 'w \<Rightarrow> ((err + ClusterSpec) \<times> 'w) option" where
  "upBundle e t w =
     (case readBundleManifest e (t_Bundle t) w of
        Inl er \<Rightarrow> Some (Inl er, w)
      | Inr man \<Rightarrow>
          (let proj = bundleProject t; file = bundleFile t;
               (r1, w1) = runDocker e (composeArgs proj file [''up'', ''-d'', ''--wait'']) w;
               (r2, w2) = (case r1 of Inr _ \<Rightarrow> (None, w1)
                           | Inl _ \<Rightarrow> (case runDocker e (composeArgs proj file [''up'', ''-d'']) w1 of
                               (Inl er, w2) \<Rightarrow> (Some er, w2) | (Inr _, w2) \<Rightarrow> (None, w2)))
           in case r2 of
                Some er \<Rightarrow> Some (Inl er, w2)
              | None \<Rightarrow>
                  (case waitHealthyBundle e proj file man healthTimeout w2 of
                     None \<Rightarrow> None
                   | Some (Some er, w3) \<Rightarrow> Some (Inl er, w3)
                   | Some (None, w3) \<Rightarrow>
                       (case nodesBundle e t man w3 of
                          (Inl er, w4) \<Rightarrow> Some (Inl er, w4)
                        | (Inr ns, w4) \<Rightarrow>
                            Some (Inr \<lparr>cs_Nodes = ns,
                                    cs_ReplicationFactor = (if t_ReplicationFactor t = 0 then int (length ns) else t_ReplicationFactor t),
                                    cs_Consistency = []\<rparr>, w4)))))"

definition downBundle :: "'w docker_env \<Rightarrow> Topology \<Rightarrow> 'w \<Rightarrow> err option \<times> 'w" where
  "downBundle e t w =
     (case runDocker e (composeArgs (bundleProject t) (bundleFile t) [''down'', ''-v'']) w of
        (Inl er, w1) \<Rightarrow> (Some er, w1) | (Inr _, w1) \<Rightarrow> (None, w1))"

subsection \<open>Up, Down and Nodes\<close>

definition compose_Up :: "'w docker_env \<Rightarrow> Topology \<Rightarrow> 'w \<Rightarrow> ((err + ClusterSpec) \<times> 'w) option" where
  "compose_Up e t w =
     (if t_Bundle t \<noteq> '''' then upBundle e t w
      else let m = compose_buildModel t
           in case writeProject e t m w of
                (Inl er, w1) \<Rightarrow> Some (Inl er, w1)
              | (Inr file, w1) \<Rightarrow>
                  (let (r, w2) = runDocker e (composeArgs (pm_Project m) file [''up'', ''-d'', ''--wait'']) w1;
                       w3 = (case r of Inr _ \<Rightarrow> w2 | Inl _ \<Rightarrow> snd (runDocker e (composeArgs (pm_Project m) file [''up'', ''-d'']) w2))
                   in case waitHealthy e m healthTimeout w3 of
                        None \<Rightarrow> None
                      | Some (Some er, w4) \<Rightarrow> Some (Inl er, w4)
                      | Some (None, w4) \<Rightarrow> (let (spec, w5) = compose_spec e t m file w4 in Some (Inr spec, w5))))"

definition compose_Down :: "'w docker_env \<Rightarrow> Topology \<Rightarrow> 'w \<Rightarrow> err option \<times> 'w" where
  "compose_Down e t w =
     (if t_Bundle t \<noteq> '''' then downBundle e t w
      else let m = compose_buildModel t
           in case writeProject e t m w of
                (Inl er, w1) \<Rightarrow> (Some er, w1)
              | (Inr file, w1) \<Rightarrow>
                  (case runDocker e (composeArgs (pm_Project m) file [''down'', ''-v'']) w1 of
                     (Inl er, w2) \<Rightarrow> (Some er, w2) | (Inr _, w2) \<Rightarrow> (None, w2)))"

fun nodesFromPS :: "'w docker_env \<Rightarrow> string \<Rightarrow> string \<Rightarrow> psEntry list \<Rightarrow> serviceModel list \<Rightarrow> 'w \<Rightarrow> Node list \<times> 'w" where
  "nodesFromPS e project file es [] w = ([], w)"
| "nodesFromPS e project file es (s # ss) w =
     (case byService es (sm_Key s) of
        None \<Rightarrow> nodesFromPS e project file es ss w
      | Some x \<Rightarrow>
          (let (port, w1) = resolvePort e project file s w; (ns, w2) = nodesFromPS e project file es ss w1
           in (docker_node (ps_Name x) (sm_Role s) (loopback port) # ns, w2)))"

definition compose_Nodes :: "'w docker_env \<Rightarrow> Topology \<Rightarrow> 'w \<Rightarrow> (err + Node list) \<times> 'w" where
  "compose_Nodes e t w =
     (if t_Bundle t \<noteq> ''''
      then (case readBundleManifest e (t_Bundle t) w of Inl er \<Rightarrow> (Inl er, w) | Inr man \<Rightarrow> nodesBundle e t man w)
      else let m = compose_buildModel t
           in case writeProject e t m w of
                (Inl er, w1) \<Rightarrow> (Inl er, w1)
              | (Inr file, w1) \<Rightarrow>
                  (case runDocker e (composeArgs (pm_Project m) file [''ps'', ''--format'', ''json'']) w1 of
                     (Inl er, w2) \<Rightarrow> (Inl er, w2)
                   | (Inr raw, w2) \<Rightarrow>
                       (case parsePS e raw of
                          Inl er \<Rightarrow> (Inl (''parse compose ps: '' @ er), w2)
                        | Inr es \<Rightarrow> (let (ns, w3) = nodesFromPS e (pm_Project m) file es (pm_Services m) w2 in (Inr ns, w3)))))"

definition compose_New :: "'w docker_env \<Rightarrow> 'w Provisioner" where
  "compose_New e = \<lparr>pv_Backend = ''compose'', pv_Up = compose_Up e, pv_Down = compose_Down e, pv_Nodes = compose_Nodes e\<rparr>"

section \<open>Polling\<close>

text \<open>The clock never goes back, and a completed wait lasts at least as long as it was asked to.\<close>

definition docker_clock :: "'w docker_env \<Rightarrow> ('w \<Rightarrow> instant) \<Rightarrow> bool" where
  "docker_clock e clk \<longleftrightarrow>
     (\<forall>args w. clk w \<le> clk (snd (dk_exec e args w))) \<and>
     (\<forall>w. fst (dk_Now e w) = clk w \<and> clk w \<le> clk (snd (dk_Now e w))) \<and>
     (\<forall>d w. fst (dk_After e d w) = None \<longrightarrow> clk w + d \<le> clk (snd (dk_After e d w)))"

lemma poll_loop_returns:
  assumes clock: "docker_clock e clk" and probe: "\<And>w. clk w \<le> clk (snd (probe w))" and "0 < interval"
  shows "\<exists>r. poll_loop probe e interval msg deadline w = Some r"
proof (induction "nat (deadline + 1 - clk w)" arbitrary: w rule: less_induct)
  case less
  obtain r w1 where r: "probe w = (r, w1)"
    by fastforce
  obtain now w2 where n: "dk_Now e w1 = (now, w2)"
    by fastforce
  obtain x w3 where x: "dk_After e interval w2 = (x, w3)"
    by fastforce
  have "clk w \<le> clk w1"
    using probe [of w] r by simp
  moreover have now: "now = clk w1" and "clk w1 \<le> clk w2"
    using clock n unfolding docker_clock_def by (metis fst_conv snd_conv)+
  moreover have "x = None \<longrightarrow> clk w2 + interval \<le> clk w3"
    using clock x unfolding docker_clock_def by (metis fst_conv snd_conv)
  ultimately have "x = None \<Longrightarrow> now \<le> deadline \<Longrightarrow> nat (deadline + 1 - clk w3) < nat (deadline + 1 - clk w)"
    using assms(3) by linarith
  hence "x = None \<Longrightarrow> now \<le> deadline \<Longrightarrow> \<exists>r. poll_loop probe e interval msg deadline w3 = Some r"
    using less by blast
  thus ?case
    using r n x by (subst poll_loop.simps) (auto split: option.splits)
qed

lemma poll_loop_success:
  assumes "poll_loop probe e interval msg deadline w = Some (None, w')"
  shows "\<exists>wa. probe wa = (Inr [], w')"
proof -
  have "fst (None, w') = (None :: err option) \<longrightarrow> (\<exists>wa. probe wa = (Inr [], snd (None :: err option, w')))"
  proof (rule poll_loop.raw_induct [where P = "\<lambda>probe e interval msg deadline w y. fst y = None \<longrightarrow> (\<exists>wa. probe wa = (Inr [], snd y))", OF _ assms])
    fix loop probe e interval msg deadline w y
    assume IH: "\<And>probe e interval msg deadline w y. loop probe e interval msg deadline w = Some y \<Longrightarrow> fst y = None \<longrightarrow> (\<exists>wa. probe wa = (Inr [], snd y))"
      and eq: "(let (r, w1) = probe w
        in if r = Inr [] then Some (None, w1)
           else let (now, w2) = dk_Now e w1
                in if now > deadline then Some (Some (msg (case r of Inl _ \<Rightarrow> [] | Inr ps \<Rightarrow> ps)), w2)
                   else let (x, w3) = dk_After e interval w2
                        in case x of Some er \<Rightarrow> Some (Some er, w3) | None \<Rightarrow> loop probe e interval msg deadline w3) = Some y"
    show "fst y = None \<longrightarrow> (\<exists>wa. probe wa = (Inr [], snd y))"
    proof (cases "fst (probe w) = Inr []")
      case True
      thus ?thesis
        using eq by (cases "probe w") auto
    next
      case False
      thus ?thesis
        using eq by (auto simp: Let_def case_prod_beta split: if_splits option.splits dest: IH)
    qed
  qed
  thus ?thesis
    by simp
qed

lemma runDocker_clock: "docker_clock e clk \<Longrightarrow> clk w \<le> clk (snd (runDocker e args w))"
proof -
  assume "docker_clock e clk"
  hence "clk w \<le> clk (snd (dk_exec e args w))"
    unfolding docker_clock_def by blast
  thus ?thesis
    by (auto simp: runDocker_def split: prod.splits option.splits)
qed

lemma containerReady_clock: "docker_clock e clk \<Longrightarrow> clk w \<le> clk (snd (containerReady e nm w))"
  using runDocker_clock [of e clk w "[''inspect'', ''--format'', inspect_format, nm]"]
  by (auto simp: containerReady_def split: prod.splits sum.splits)

lemma unhealthy_clock: "docker_clock e clk \<Longrightarrow> clk w \<le> clk (snd (unhealthy e ss w))"
proof (induction ss arbitrary: w)
  case (Cons s ss)
  from containerReady_clock [OF Cons.prems, of w "sm_ContainerName s"] Cons.IH [OF Cons.prems, of "snd (containerReady e (sm_ContainerName s) w)"]
  show ?case
    by (auto simp: Let_def case_prod_beta intro: order_trans)
qed simp

lemma bundlePending_clock: "docker_clock e clk \<Longrightarrow> clk w \<le> clk (snd (bundlePending e proj file man w))"
  using runDocker_clock [of e clk w "composeArgs proj file [''ps'', ''--format'', ''json'']"]
  by (auto simp: bundlePending_def split: prod.splits sum.splits)

lemma waitHealthy_returns:
  assumes "docker_clock e clk"
  shows "\<exists>r. waitHealthy e m timeout w = Some r" "\<exists>r. waitHealthyBundle e proj file man timeout w = Some r"
proof -
  show "\<exists>r. waitHealthy e m timeout w = Some r"
    unfolding waitHealthy_def Let_def case_prod_beta
    by (rule poll_loop_returns [OF assms]) (simp_all add: unhealthy_clock [OF assms] second_def)
  show "\<exists>r. waitHealthyBundle e proj file man timeout w = Some r"
    unfolding waitHealthyBundle_def Let_def case_prod_beta
    by (rule poll_loop_returns [OF assms]) (simp_all add: bundlePending_clock [OF assms] second_def)
qed

lemma waitHealthy_ready:
  assumes "waitHealthy e m timeout w = Some (None, w')"
  shows "\<exists>wa. unhealthy e (pm_Services m) wa = ([], w')"
  using assms unfolding waitHealthy_def by (auto simp: case_prod_beta dest!: poll_loop_success) (metis prod.collapse)

section \<open>Projects\<close>

lemma compose_services:
  "pm_Services (compose_buildModel t) = map (\<lambda>i. buildService t (compose_hookFor (t_Target t)) (int i)) [0..<nat (max 1 (t_Nodes t))]"
  by (simp add: compose_buildModel_def Let_def max_def)

lemma compose_project: "pm_Project (compose_buildModel t) = projectName t"
  by (simp add: compose_buildModel_def Let_def)

lemma service_names: "map sm_Key (pm_Services (compose_buildModel t)) = map (\<lambda>i. t_Name t @ ''-'' @ fmt_nat i) [0..<nat (max 1 (t_Nodes t))]"
    "map sm_ContainerName (pm_Services (compose_buildModel t)) = map (\<lambda>i. t_Name t @ ''-'' @ fmt_nat i) [0..<nat (max 1 (t_Nodes t))]"
  by (simp_all add: compose_services buildService_def Let_def fmt_int_def)

lemma distinct_names: "distinct (map (\<lambda>i. nm @ ''-'' @ fmt_nat i) [0..<n])"
  by (simp add: distinct_map inj_on_def)

lemma hook_basePort: "0 < ch_basePort (compose_hookFor x) \<and> ch_basePort (compose_hookFor x) < 20000"
  by (simp add: compose_hookFor_def compose_hooks_def compose_genericHook_def)

lemma distinct_hostPorts:
  assumes "in64 (t_Nodes t + 20000)"
  shows "distinct (map sm_HostPort (pm_Services (compose_buildModel t)))"
proof -
  let ?b = "ch_basePort (compose_hookFor (t_Target t))"
  have "in64 (?b + int i)" if "i < nat (max 1 (t_Nodes t))" for i
    using that assms hook_basePort [of "t_Target t"] by (auto simp: in64_def)
  hence "map sm_HostPort (pm_Services (compose_buildModel t)) = map (\<lambda>i. ?b + int i) [0..<nat (max 1 (t_Nodes t))]"
    by (simp add: compose_services buildService_def Let_def)
  thus ?thesis
    by (simp add: distinct_map inj_on_def)
qed

lemma distinct_volumes: "distinct (pm_Volumes (compose_buildModel t))"
proof (cases "ch_volumePath (compose_hookFor (t_Target t)) = ''''")
  case True
  hence "pm_Volumes (compose_buildModel t) = []"
    by (simp add: compose_buildModel_def buildService_def Let_def filter_empty_conv)
  thus ?thesis
    by simp
next
  case False
  hence "pm_Volumes (compose_buildModel t) = filter (\<lambda>v. v \<noteq> '''') (map (\<lambda>i. t_Name t @ ''-'' @ fmt_int (int i) @ ''-data'') [0..<nat (max 1 (t_Nodes t))])"
    by (simp add: compose_buildModel_def buildService_def Let_def max_def o_def)
  thus ?thesis
    by (simp add: distinct_map inj_on_def fmt_int_def)
qed

section \<open>Nodes\<close>

lemma docker_node_sel [simp]:
  "n_ID (docker_node nm role c) = nm" "n_Role (docker_node nm role c) = role" "n_Client (docker_node nm role c) = c"
  "ce_Ref (n_Control (docker_node nm role c)) = nm"
  by (simp_all add: docker_node_def)

lemma loopback_ne [simp]: "loopback p \<noteq> ''''"
  by (simp add: loopback_def)

lemma spec_nodes_ids:
  "map n_ID (fst (spec_nodes e proj file ss w)) = map sm_ContainerName ss \<and>
   (\<forall>n\<in>set (fst (spec_nodes e proj file ss w)). n_Client n \<noteq> '''' \<and> ce_Ref (n_Control n) = n_ID n)"
  by (induction ss arbitrary: w) (auto simp: Let_def case_prod_beta)

lemma compose_spec_nodes: "compose_spec e t m fl w = (spec, w') \<Longrightarrow> cs_Nodes spec = fst (spec_nodes e (pm_Project m) fl (pm_Services m) w)"
  by (auto simp: compose_spec_def Let_def case_prod_beta)

lemma bundle_nodes_val:
  "map n_ID (fst (bundle_nodes e proj file es man w)) = map (bundle_name es) man \<and>
   map (\<lambda>n. n_Client n \<noteq> '''') (fst (bundle_nodes e proj file es man w)) = map (\<lambda>n. bn_ClientPort n > 0) man"
  by (induction man arbitrary: w) (auto simp: Let_def case_prod_beta)

lemma upBundle_cases:
  assumes "docker_clock e clk" "upBundle e t w = None \<or> upBundle e t w = Some (Inr spec, w')"
  shows "upBundle e t w = Some (Inr spec, w') \<and> (\<exists>man wa wb. readBundleManifest e (t_Bundle t) w = Inr man \<and>
    bundlePending e (bundleProject t) (bundleFile t) man wa = (Inr [], wb) \<and>
    map (\<lambda>n. n_Client n \<noteq> '''') (cs_Nodes spec) = map (\<lambda>n. bn_ClientPort n > 0) man)"
proof -
  obtain man where man: "readBundleManifest e (t_Bundle t) w = Inr man"
    using assms(2) by (cases "readBundleManifest e (t_Bundle t) w") (auto simp: upBundle_def)
  obtain r1 w1 where r1: "runDocker e (composeArgs (bundleProject t) (bundleFile t) [''up'', ''-d'', ''--wait'']) w = (r1, w1)"
    by fastforce
  obtain r2 w2 where r2: "(case r1 of Inr _ \<Rightarrow> (None, w1)
      | Inl _ \<Rightarrow> (case runDocker e (composeArgs (bundleProject t) (bundleFile t) [''up'', ''-d'']) w1 of
          (Inl er, w2) \<Rightarrow> (Some er, w2) | (Inr _, w2) \<Rightarrow> (None, w2))) = (r2, w2)"
    by fastforce
  obtain x w3 where x: "waitHealthyBundle e (bundleProject t) (bundleFile t) man healthTimeout w2 = Some (x, w3)"
    using waitHealthy_returns(2) [OF assms(1)] by (metis surj_pair)
  have up: "upBundle e t w = (case r2 of Some er \<Rightarrow> Some (Inl er, w2) | None \<Rightarrow>
      (case x of Some er \<Rightarrow> Some (Inl er, w3) | None \<Rightarrow>
        (case nodesBundle e t man w3 of
           (Inl er, w4) \<Rightarrow> Some (Inl er, w4)
         | (Inr ns, w4) \<Rightarrow> Some (Inr \<lparr>cs_Nodes = ns,
             cs_ReplicationFactor = (if t_ReplicationFactor t = 0 then int (length ns) else t_ReplicationFactor t), cs_Consistency = []\<rparr>, w4))))"
    unfolding upBundle_def using man r1 r2 x by (simp add: Let_def split: option.splits)
  hence some: "upBundle e t w = Some (Inr spec, w')"
    using assms(2) by (auto split: option.splits sum.splits prod.splits)
  then obtain ns where ns: "r2 = None" "x = None" "nodesBundle e t man w3 = (Inr ns, w')" "cs_Nodes spec = ns"
    unfolding up by (auto split: option.splits sum.splits prod.splits)
  have "\<exists>wa wb. bundlePending e (bundleProject t) (bundleFile t) man wa = (Inr [], wb)"
    using x ns(2) unfolding waitHealthyBundle_def by (auto simp: case_prod_beta dest!: poll_loop_success)
  moreover have "\<exists>es w4. (ns, w') = bundle_nodes e (bundleProject t) (bundleFile t) es man w4"
    using ns(3) by (auto simp: nodesBundle_def Let_def case_prod_beta split: sum.splits) blast
  ultimately show ?thesis
    using some man ns(4) bundle_nodes_val by (metis fst_conv)
qed

definition compose_file :: "Topology \<Rightarrow> string" where
  "compose_file t = path_Join [compose_workDir t, ''docker-compose.yml'']"

lemma compose_Up_rendered:
  assumes "docker_clock e clk" "t_Bundle t = ''''"
  shows "\<exists>r w'. compose_Up e t w = Some (r, w') \<and> (\<forall>spec. r = Inr spec \<longrightarrow>
    (\<exists>wa w4. unhealthy e (pm_Services (compose_buildModel t)) wa = ([], w4) \<and>
       compose_spec e t (compose_buildModel t) (compose_file t) w4 = (spec, w')))"
proof (cases "writeProject e t (compose_buildModel t) w")
  case (Pair r1 w1)
  show ?thesis
  proof (cases r1)
    case (Inl er)
    thus ?thesis
      using Pair assms(2) by (simp add: compose_Up_def)
  next
    case (Inr fl)
    hence "fl = compose_file t"
      using Pair by (auto simp: writeProject_def compose_file_def Let_def split: prod.splits option.splits)
    let ?m = "compose_buildModel t"
    obtain r w2 where r: "runDocker e (composeArgs (pm_Project ?m) fl [''up'', ''-d'', ''--wait'']) w1 = (r, w2)"
      by fastforce
    define w3 where "w3 = (case r of Inr _ \<Rightarrow> w2 | Inl _ \<Rightarrow> snd (runDocker e (composeArgs (pm_Project ?m) fl [''up'', ''-d'']) w2))"
    obtain x w4 where x: "waitHealthy e ?m healthTimeout w3 = Some (x, w4)"
      using waitHealthy_returns(1) [OF assms(1)] by (metis surj_pair)
    have up: "compose_Up e t w = (case x of Some er \<Rightarrow> Some (Inl er, w4)
        | None \<Rightarrow> (let (spec, w5) = compose_spec e t ?m fl w4 in Some (Inr spec, w5)))"
      unfolding compose_Up_def using assms(2) Pair Inr r x by (simp add: Let_def w3_def [symmetric] split: option.splits)
    show ?thesis
    proof (cases x)
      case None
      thus ?thesis
        using up x \<open>fl = compose_file t\<close> waitHealthy_ready [of e ?m healthTimeout w3 w4] by (auto simp: case_prod_beta)
    qed (use up in simp)
  qed
qed

text \<open>With a docker whose answers do not change, a port is resolved to the same value whenever it is asked for.\<close>

definition port_of :: "(string list \<Rightarrow> err option \<times> string) \<Rightarrow> string \<Rightarrow> string \<Rightarrow> serviceModel \<Rightarrow> int" where
  "port_of ans project file s =
     (case ans (composeArgs project file [''port'', sm_Key s, fmt_int (sm_ContainerPort s)]) of
        (Some _, _) \<Rightarrow> sm_HostPort s | (None, out) \<Rightarrow> published (trim_space out) (sm_HostPort s))"

lemma resolvePort_const:
  assumes "\<forall>args w. fst (dk_exec e args w) = ans args"
  shows "fst (resolvePort e project file s w) = port_of ans project file s"
proof -
  obtain er out w1 where x: "dk_exec e (composeArgs project file [''port'', sm_Key s, fmt_int (sm_ContainerPort s)]) w = ((er, out), w1)"
    by (metis surj_pair)
  hence "ans (composeArgs project file [''port'', sm_Key s, fmt_int (sm_ContainerPort s)]) = (er, out)"
    using assms by (metis fst_conv)
  thus ?thesis
    using x by (cases er) (simp_all add: resolvePort_def runDocker_def port_of_def)
qed

lemma nodes_const:
  assumes "\<forall>args w. fst (dk_exec e args w) = ans args"
  shows "fst (spec_nodes e project file ss w) = map (\<lambda>s. docker_node (sm_ContainerName s) (sm_Role s) (loopback (port_of ans project file s))) ss"
    "\<forall>s\<in>set ss. \<exists>x. byService es (sm_Key s) = Some x \<and> ps_Name x = sm_ContainerName s \<Longrightarrow>
     fst (nodesFromPS e project file es ss w) = map (\<lambda>s. docker_node (sm_ContainerName s) (sm_Role s) (loopback (port_of ans project file s))) ss"
proof -
  show "fst (spec_nodes e project file ss w) = map (\<lambda>s. docker_node (sm_ContainerName s) (sm_Role s) (loopback (port_of ans project file s))) ss"
    by (induction ss arbitrary: w) (simp_all add: Let_def case_prod_beta resolvePort_const [OF assms])
  show "fst (nodesFromPS e project file es ss w) = map (\<lambda>s. docker_node (sm_ContainerName s) (sm_Role s) (loopback (port_of ans project file s))) ss"
    if "\<forall>s\<in>set ss. \<exists>x. byService es (sm_Key s) = Some x \<and> ps_Name x = sm_ContainerName s"
    using that
  proof (induction ss arbitrary: w)
    case (Cons s ss)
    then obtain x where "byService es (sm_Key s) = Some x" "ps_Name x = sm_ContainerName s"
      by auto
    thus ?case
      using Cons by (simp add: Let_def case_prod_beta resolvePort_const [OF assms])
  qed simp
qed

section \<open>A small project\<close>

text \<open>A clock as the world, a docker that runs every container and publishes port 15432.\<close>

definition demo_topology :: Topology where
  "demo_topology = \<lparr>t_Name = ''pg'', t_Backend = ''compose'', t_Target = ''postgresql'', t_Image = [], t_Version = ''16'', t_Nodes = 1,
     t_ReplicationFactor = 0, t_Resources = \<lparr>res_CPU = [], res_Memory = []\<rparr>, t_Bundle = [], t_Extra = Map.empty\<rparr>"

definition demo_answer :: "string list \<Rightarrow> err option \<times> string" where
  "demo_answer args = (None, if args = [] then [] else if hd args = ''inspect'' then ''running''
     else if last args = ''json'' then ''{}'' else ''0.0.0.0:15432'')"

definition demo_docker :: "instant docker_env" where
  "demo_docker = \<lparr>dk_exec = (\<lambda>args w. (demo_answer args, w)), dk_Now = (\<lambda>w. (w, w)), dk_After = (\<lambda>d w. (None, w + d)),
     dk_MkdirAll = (\<lambda>_ w. (None, w)), dk_WriteFile = (\<lambda>_ _ w. (None, w)), dk_ReadFile = (\<lambda>_ _. Inl ''none''),
     dk_entry = (\<lambda>_. Inr \<lparr>ps_Name = ''pg-0'', ps_Service = ''pg-0'', ps_State = ''running'', ps_Health = []\<rparr>), dk_entries = (\<lambda>_. Inr []),
     dk_manifest = (\<lambda>_. Inr [])\<rparr>"

lemma demo_docker_clock: "docker_clock demo_docker (\<lambda>w. w)"
  by (simp add: docker_clock_def demo_docker_def)

section \<open>Properties\<close>



text \<open>\<open>Nodes\<close> reports what \<open>Up\<close> returned. While docker's answers stay the same and its process list has each service under
  its container name, the node handles are equal: same identifiers, roles, client ports and control references.\<close>

lemma compose_Nodes_agree:
  assumes "t_Bundle t = ''''" "\<forall>args w. fst (dk_exec e args w) = ans args"
    "\<forall>d w. fst (dk_MkdirAll e d w) = None" "\<forall>f b w. fst (dk_WriteFile e f b w) = None"
    "\<forall>file. \<exists>out es. ans (composeArgs (projectName t) file [''ps'', ''--format'', ''json'']) = (None, out) \<and> parsePS e (trim_space out) = Inr es \<and>
       (\<forall>s\<in>set (pm_Services (compose_buildModel t)). \<exists>x. byService es (sm_Key s) = Some x \<and> ps_Name x = sm_ContainerName s)"
    "docker_clock e clk" "compose_Up e t w = Some (Inr spec, w')"
  shows "\<exists>w''. compose_Nodes e t w' = (Inr (cs_Nodes spec), w'')"
proof -
  let ?m = "compose_buildModel t" and ?file = "compose_file t"
  have wp: "\<exists>w1. writeProject e t ?m w = (Inr ?file, w1)" for w
  proof -
    obtain wa where a: "dk_MkdirAll e (compose_workDir t) w = (None, wa)"
      using assms(3) by (metis prod.collapse)
    obtain wb where "dk_WriteFile e ?file (compose_render ?m) wa = (None, wb)"
      using assms(4) by (metis prod.collapse)
    thus ?thesis
      using a by (simp add: writeProject_def compose_file_def Let_def)
  qed
  have "cs_Nodes spec = map (\<lambda>s. docker_node (sm_ContainerName s) (sm_Role s) (loopback (port_of ans (pm_Project ?m) ?file s))) (pm_Services ?m)"
  proof -
    obtain w4 where "compose_spec e t ?m ?file w4 = (spec, w')"
      using compose_Up_rendered [OF assms(6,1), of w] assms(7) by auto
    from compose_spec_nodes [OF this] show ?thesis
      by (simp add: nodes_const(1) [OF assms(2)])
  qed
  moreover obtain w1 where w1: "writeProject e t ?m w' = (Inr ?file, w1)"
    using wp by blast
  moreover obtain out es where o: "ans (composeArgs (pm_Project ?m) ?file [''ps'', ''--format'', ''json'']) = (None, out)" "parsePS e (trim_space out) = Inr es"
      "\<forall>s\<in>set (pm_Services ?m). \<exists>x. byService es (sm_Key s) = Some x \<and> ps_Name x = sm_ContainerName s"
    using assms(5) unfolding compose_project by blast
  moreover obtain w2 where "runDocker e (composeArgs (pm_Project ?m) ?file [''ps'', ''--format'', ''json'']) w1 = (Inr (trim_space out), w2)"
  proof -
    obtain w2 where "dk_exec e (composeArgs (pm_Project ?m) ?file [''ps'', ''--format'', ''json'']) w1 = ((None, out), w2)"
      using assms(2) o(1) by (metis prod.collapse)
    thus ?thesis
      using that by (simp add: runDocker_def)
  qed
  ultimately show ?thesis
    using assms(1) nodes_const(2) [OF assms(2) o(3), of "pm_Project ?m" ?file w2] by (simp add: compose_Nodes_def Let_def case_prod_beta)
qed

end
