(* ===== verification/K8s.thy ===== *)
theory K8s
  imports Compose
begin

text \<open>
  \<open>core/provision/k8s\<close>: the Kubernetes provisioner. As for the Compose backend, the manifest model, its rendering and the resolution of nodes are
  functions, and \<open>kubectl\<close>, the file system and the JSON decoder are an environment. \<open>Up\<close> has no loop of its own: \<open>kubectl rollout status\<close>
  waits, with a timeout.
\<close>

section \<open>Definitions\<close>

record probe =
  pb_Exec :: "string list"
  pb_TCPPort :: int
  pb_InitialDelay :: int
  pb_Period :: int

record manifestModel =
  mm_Name :: string
  mm_Namespace :: string
  mm_Container :: string
  mm_Image :: string
  mm_Replicas :: int
  mm_PortName :: string
  mm_ContainerPort :: int
  mm_Env :: "(string \<times> string) list"
  mm_Readiness :: "probe option"
  mm_CPULimit :: string
  mm_MemLimit :: string
  mm_Roles :: "NodeRole list"

record k8s_hook =
  kh_known :: bool
  kh_defaultImage :: string
  kh_portName :: string
  kh_containerPort :: int
  kh_env :: "(string \<times> string) list"
  kh_readiness :: "probe option"

definition k8s_genericHook :: k8s_hook where
  "k8s_genericHook = \<lparr>kh_known = False, kh_defaultImage = '''', kh_portName = ''tcp'', kh_containerPort = 8080, kh_env = [],
     kh_readiness = Some \<lparr>pb_Exec = [], pb_TCPPort = 8080, pb_InitialDelay = 5, pb_Period = 5\<rparr>\<rparr>"

definition k8s_hooks :: "string \<Rightarrow> k8s_hook option" where
  "k8s_hooks = [
     ''postgresql'' \<mapsto> \<lparr>kh_known = True, kh_defaultImage = ''postgres'', kh_portName = ''postgres'', kh_containerPort = 5432,
       kh_env = [(''POSTGRES_PASSWORD'', ''proofload''), (''POSTGRES_USER'', ''proofload''), (''POSTGRES_DB'', ''proofload'')],
       kh_readiness = Some \<lparr>pb_Exec = [''pg_isready'', ''-U'', ''proofload''], pb_TCPPort = 0, pb_InitialDelay = 10, pb_Period = 5\<rparr>\<rparr>,
     ''redis'' \<mapsto> \<lparr>kh_known = True, kh_defaultImage = ''redis'', kh_portName = ''redis'', kh_containerPort = 6379, kh_env = [],
       kh_readiness = Some \<lparr>pb_Exec = [''redis-cli'', ''ping''], pb_TCPPort = 0, pb_InitialDelay = 5, pb_Period = 5\<rparr>\<rparr>,
     ''cassandra'' \<mapsto> \<lparr>kh_known = True, kh_defaultImage = ''cassandra'', kh_portName = ''cql'', kh_containerPort = 9042, kh_env = [],
       kh_readiness = Some \<lparr>pb_Exec = [''cqlsh'', ''-e'', ''describe cluster''], pb_TCPPort = 0, pb_InitialDelay = 30, pb_Period = 10\<rparr>\<rparr>,
     ''kafka'' \<mapsto> \<lparr>kh_known = True, kh_defaultImage = ''kafka'', kh_portName = ''kafka'', kh_containerPort = 9092, kh_env = [],
       kh_readiness = Some \<lparr>pb_Exec = [], pb_TCPPort = 9092, pb_InitialDelay = 15, pb_Period = 10\<rparr>\<rparr>]"

definition k8s_hookFor :: "string \<Rightarrow> k8s_hook" where
  "k8s_hookFor target = (case k8s_hooks target of Some h \<Rightarrow> h | None \<Rightarrow> k8s_genericHook)"

definition namespaceFor :: "Topology \<Rightarrow> string" where
  "namespaceFor t = ''proofload-'' @ t_Name t"

definition k8s_resolveImage :: "Topology \<Rightarrow> k8s_hook \<Rightarrow> string" where
  "k8s_resolveImage t hook =
     (let img = t_Image t;
          img = (if img = '''' then kh_defaultImage hook else img);
          img = (if img = '''' then t_Target t else img)
      in if t_Version t \<noteq> '''' then img @ '':'' @ t_Version t else img)"

definition k8s_roleFor :: "k8s_hook \<Rightarrow> int \<Rightarrow> NodeRole" where
  "k8s_roleFor hook i = (if \<not> kh_known hook then RoleGeneric else if i = 0 then RolePrimary else RoleReplica)"

definition k8s_sortedEnv :: "(string \<times> string) list \<Rightarrow> (string \<times> string) list" where
  "k8s_sortedEnv env = sort_key fst env"

definition k8s_buildModel :: "Topology \<Rightarrow> manifestModel" where
  "k8s_buildModel t =
     (let hook = k8s_hookFor (t_Target t); n = (if t_Nodes t \<le> 0 then 1 else t_Nodes t)
      in \<lparr>mm_Name = t_Name t, mm_Namespace = namespaceFor t, mm_Container = t_Name t, mm_Image = k8s_resolveImage t hook, mm_Replicas = n,
          mm_PortName = kh_portName hook, mm_ContainerPort = kh_containerPort hook, mm_Env = k8s_sortedEnv (kh_env hook),
          mm_Readiness = kh_readiness hook, mm_CPULimit = res_CPU (t_Resources t), mm_MemLimit = res_Memory (t_Resources t),
          mm_Roles = map (\<lambda>i. k8s_roleFor hook (int i)) [0..<nat n]\<rparr>)"

definition podName :: "manifestModel \<Rightarrow> int \<Rightarrow> string" where
  "podName m i = mm_Name m @ ''-'' @ fmt_int i"

definition resolveClient :: "manifestModel \<Rightarrow> string \<Rightarrow> string" where
  "resolveClient m pod = pod @ ''.'' @ mm_Name m @ ''.'' @ mm_Namespace m @ ''.svc.cluster.local:'' @ fmt_int (mm_ContainerPort m)"

definition controlFor :: "manifestModel \<Rightarrow> string \<Rightarrow> ControlEndpoint" where
  "controlFor m pod = \<lparr>ce_Method = ControlK8s, ce_Ref = pod, ce_Namespace = mm_Namespace m, ce_Extra = Map.empty\<rparr>"

definition roleAt :: "manifestModel \<Rightarrow> int \<Rightarrow> NodeRole" where
  "roleAt m ordinal = (if ordinal \<ge> 0 \<and> ordinal < int (length (mm_Roles m)) then mm_Roles m ! nat ordinal else RoleGeneric)"

definition k8s_node :: "manifestModel \<Rightarrow> string \<Rightarrow> int \<Rightarrow> Node" where
  "k8s_node m pod ordinal = \<lparr>n_ID = pod, n_Role = roleAt m ordinal, n_Client = resolveClient m pod, n_Control = controlFor m pod\<rparr>"

definition model_nodes :: "manifestModel \<Rightarrow> Node list" where
  "model_nodes m = map (\<lambda>i. k8s_node m (podName m (int i)) (int i)) [0..<nat (mm_Replicas m)]"

subsection \<open>Rendering\<close>

definition probe_lines :: "probe \<Rightarrow> string list" where
  "probe_lines p =
     [''          readinessProbe:'']
     @ (if pb_Exec p \<noteq> [] then [''            exec:'', ''              command: ['' @ join '', '' (map dq (pb_Exec p)) @ '']'']
        else [''            tcpSocket:'', ''              port: '' @ fmt_int (pb_TCPPort p)])
     @ [''            initialDelaySeconds: '' @ fmt_int (pb_InitialDelay p), ''            periodSeconds: '' @ fmt_int (pb_Period p)]"

definition manifest_lines :: "manifestModel \<Rightarrow> string list" where
  "manifest_lines m =
     [''apiVersion: v1'', ''kind: Namespace'', ''metadata:'', ''  name: '' @ mm_Namespace m, ''  labels:'',
      ''    app.kubernetes.io/managed-by: proofload'', ''---'',
      ''apiVersion: v1'', ''kind: Service'', ''metadata:'', ''  name: '' @ mm_Name m, ''  namespace: '' @ mm_Namespace m, ''  labels:'',
      ''    app: '' @ mm_Name m, ''spec:'', ''  clusterIP: None'', ''  selector:'', ''    app: '' @ mm_Name m, ''  ports:'',
      ''    - name: '' @ mm_PortName m, ''      port: '' @ fmt_int (mm_ContainerPort m), ''      targetPort: '' @ fmt_int (mm_ContainerPort m), ''---'',
      ''apiVersion: apps/v1'', ''kind: StatefulSet'', ''metadata:'', ''  name: '' @ mm_Name m, ''  namespace: '' @ mm_Namespace m, ''  labels:'',
      ''    app: '' @ mm_Name m, ''spec:'', ''  serviceName: '' @ mm_Name m, ''  replicas: '' @ fmt_int (mm_Replicas m), ''  selector:'',
      ''    matchLabels:'', ''      app: '' @ mm_Name m, ''  template:'', ''    metadata:'', ''      labels:'', ''        app: '' @ mm_Name m,
      ''    spec:'', ''      containers:'', ''        - name: '' @ mm_Container m, ''          image: '' @ mm_Image m, ''          ports:'',
      ''            - name: '' @ mm_PortName m, ''              containerPort: '' @ fmt_int (mm_ContainerPort m)]
     @ (if mm_Env m = [] then []
        else ''          env:'' # concat (map (\<lambda>(k, v). [''            - name: '' @ k, ''              value: '' @ dq v]) (mm_Env m)))
     @ (case mm_Readiness m of None \<Rightarrow> [] | Some p \<Rightarrow> probe_lines p)
     @ (if mm_CPULimit m = '''' \<and> mm_MemLimit m = '''' then []
        else [''          resources:'', ''            limits:'']
          @ (if mm_CPULimit m = '''' then [] else [''              cpu: '' @ dq (mm_CPULimit m)])
          @ (if mm_MemLimit m = '''' then [] else [''              memory: '' @ mm_MemLimit m]))"

definition k8s_render :: "manifestModel \<Rightarrow> string" where
  "k8s_render m = unlines (manifest_lines m)"

subsection \<open>The kubectl command line\<close>

text \<open>A pod item is its name and phase.\<close>

record podItem =
  pi_Name :: string
  pi_Phase :: string

record 'w kubectl_env =
  kc_exec :: "string list \<Rightarrow> 'w \<Rightarrow> (err option \<times> string) \<times> 'w"
  kc_MkdirAll :: "string \<Rightarrow> 'w \<Rightarrow> err option \<times> 'w"
  kc_WriteFile :: "string \<Rightarrow> string \<Rightarrow> 'w \<Rightarrow> err option \<times> 'w"
  kc_pods :: "string \<Rightarrow> err + podItem list"

definition runKubectl :: "'w kubectl_env \<Rightarrow> string list \<Rightarrow> 'w \<Rightarrow> (err + string) \<times> 'w" where
  "runKubectl e args w =
     (case kc_exec e args w of
        ((Some er, out), w1) \<Rightarrow> (Inl (''kubectl '' @ join '' '' args @ '': '' @ er @ '': '' @ trim_space out), w1)
      | ((None, out), w1) \<Rightarrow> (Inr (trim_space out), w1))"

definition rolloutTimeout :: duration where
  "rolloutTimeout = 180 * second"

definition rolloutStatus :: "'w kubectl_env \<Rightarrow> manifestModel \<Rightarrow> duration \<Rightarrow> 'w \<Rightarrow> err option \<times> 'w" where
  "rolloutStatus e m timeout w =
     (case runKubectl e [''rollout'', ''status'', ''statefulset/'' @ mm_Name m, ''-n'', mm_Namespace m, ''--timeout='' @ duration_String timeout] w of
        (Inl er, w1) \<Rightarrow> (Some (''rollout status: '' @ er), w1)
      | (Inr _, w1) \<Rightarrow> (None, w1))"

definition parsePods :: "'w kubectl_env \<Rightarrow> string \<Rightarrow> err + podItem list" where
  "parsePods e raw = (let raw = trim_space raw in if raw = '''' then Inr [] else kc_pods e raw)"

definition podOrdinal :: "string \<Rightarrow> int" where
  "podOrdinal nm =
     (case cut_last (CHR ''-'') nm of
        None \<Rightarrow> -1
      | Some (_, d) \<Rightarrow> if d = '''' then -1 else (case parse_int d of None \<Rightarrow> -1 | Some n \<Rightarrow> n))"

subsection \<open>The provisioner\<close>

definition k8s_workDir :: "Topology \<Rightarrow> string" where
  "k8s_workDir t = path_Join [''.proofload'', ''k8s'', t_Name t]"

definition writeManifest :: "'w kubectl_env \<Rightarrow> Topology \<Rightarrow> manifestModel \<Rightarrow> 'w \<Rightarrow> (err + string) \<times> 'w" where
  "writeManifest e t m w =
     (let dir = k8s_workDir t; file = path_Join [dir, ''manifest.yaml'']
      in case kc_MkdirAll e dir w of
           (Some er, w1) \<Rightarrow> (Inl (''create work dir '' @ dir @ '': '' @ er), w1)
         | (None, w1) \<Rightarrow>
             (case kc_WriteFile e file (k8s_render m) w1 of
                (Some er, w2) \<Rightarrow> (Inl (''write '' @ file @ '': '' @ er), w2)
              | (None, w2) \<Rightarrow> (Inr file, w2)))"

definition k8s_spec :: "Topology \<Rightarrow> manifestModel \<Rightarrow> ClusterSpec" where
  "k8s_spec t m = \<lparr>cs_Nodes = model_nodes m,
     cs_ReplicationFactor = (if t_ReplicationFactor t = 0 then mm_Replicas m else t_ReplicationFactor t), cs_Consistency = []\<rparr>"

definition k8s_Up :: "'w kubectl_env \<Rightarrow> Topology \<Rightarrow> 'w \<Rightarrow> (err + ClusterSpec) \<times> 'w" where
  "k8s_Up e t w =
     (let m = k8s_buildModel t
      in case writeManifest e t m w of
           (Inl er, w1) \<Rightarrow> (Inl er, w1)
         | (Inr file, w1) \<Rightarrow>
             (case runKubectl e [''apply'', ''-f'', file] w1 of
                (Inl er, w2) \<Rightarrow> (Inl er, w2)
              | (Inr _, w2) \<Rightarrow>
                  (case rolloutStatus e m rolloutTimeout w2 of
                     (Some er, w3) \<Rightarrow> (Inl er, w3)
                   | (None, w3) \<Rightarrow> (Inr (k8s_spec t m), w3))))"

definition k8s_Down :: "'w kubectl_env \<Rightarrow> Topology \<Rightarrow> 'w \<Rightarrow> err option \<times> 'w" where
  "k8s_Down e t w =
     (case runKubectl e [''delete'', ''namespace'', namespaceFor t, ''--ignore-not-found''] w of
        (Inl er, w1) \<Rightarrow> (Some er, w1) | (Inr _, w1) \<Rightarrow> (None, w1))"

definition nodesFromPods :: "manifestModel \<Rightarrow> podItem list \<Rightarrow> Node list" where
  "nodesFromPods m items = map (\<lambda>it. k8s_node m (pi_Name it) (podOrdinal (pi_Name it))) items"

definition k8s_Nodes :: "'w kubectl_env \<Rightarrow> Topology \<Rightarrow> 'w \<Rightarrow> (err + Node list) \<times> 'w" where
  "k8s_Nodes e t w =
     (let m = k8s_buildModel t
      in case runKubectl e [''get'', ''pods'', ''-n'', mm_Namespace m, ''-l'', ''app='' @ mm_Name m, ''-o'', ''json''] w of
           (Inl er, w1) \<Rightarrow> (Inl er, w1)
         | (Inr raw, w1) \<Rightarrow>
             (case parsePods e raw of
                Inl er \<Rightarrow> (Inl (''parse pods: '' @ er), w1)
              | Inr items \<Rightarrow> (Inr (nodesFromPods m items), w1)))"

definition k8s_New :: "'w kubectl_env \<Rightarrow> 'w Provisioner" where
  "k8s_New e = \<lparr>pv_Backend = ''kubernetes'', pv_Up = (\<lambda>t w. Some (k8s_Up e t w)), pv_Down = k8s_Down e, pv_Nodes = k8s_Nodes e\<rparr>"

text \<open>The built-in backends, in the order of their initialisation.\<close>

definition builtin_backends :: "'w docker_env \<Rightarrow> 'w kubectl_env \<Rightarrow> 'w Provisioner registry option" where
  "builtin_backends d k = (case provision_Register (Some (compose_New d)) Map.empty of
     None \<Rightarrow> None | Some reg \<Rightarrow> provision_Register (Some (k8s_New k)) reg)"

section \<open>Pod names\<close>

lemma podOrdinal_podName: "0 \<le> i \<Longrightarrow> in64 i \<Longrightarrow> podOrdinal (podName m i) = i"
proof -
  assume i: "0 \<le> i" "in64 i"
  have "CHR ''-'' \<notin> set (fmt_int i)" "fmt_int i \<noteq> []"
    using i(1) by (simp_all add: fmt_int_def)
  moreover have "podName m i = mm_Name m @ CHR ''-'' # fmt_int i"
    by (simp add: podName_def)
  ultimately show ?thesis
    using i(2) by (simp add: podOrdinal_def cut_last_append)
qed

lemma podName_inj: "inj_on (\<lambda>i. podName m (int i)) A"
  by (auto simp: inj_on_def podName_def fmt_int_def)

lemma k8s_replicas: "mm_Replicas (k8s_buildModel t) = max 1 (t_Nodes t)"
  by (simp add: k8s_buildModel_def Let_def max_def)

lemma builtin_selectable:
  "\<exists>reg. builtin_backends d k = Some reg \<and> provision_Get reg ks ''compose'' = Inr (compose_New d) \<and> provision_Get reg ks ''kubernetes'' = Inr (k8s_New k)"
proof -
  have "backends.register_all (map Some [compose_New d, k8s_New k]) Map.empty = builtin_backends d k"
    by (simp add: builtin_backends_def split: option.splits)
  moreover have "\<exists>reg. builtin_backends d k = Some reg"
    by (simp add: builtin_backends_def provision_Register_def compose_New_def k8s_New_def)
  ultimately show ?thesis
    using backends.get_registered [of "[compose_New d, k8s_New k]" _ "compose_New d" ks] backends.get_registered [of "[compose_New d, k8s_New k]" _ "k8s_New k" ks]
    by (auto simp: compose_New_def k8s_New_def)
qed

text \<open>A cluster whose two pods are listed in the reverse order.\<close>

definition demo_kubectl :: "unit kubectl_env" where
  "demo_kubectl = \<lparr>kc_exec = (\<lambda>_ w. ((None, ''{}''), w)), kc_MkdirAll = (\<lambda>_ w. (None, w)), kc_WriteFile = (\<lambda>_ _ w. (None, w)),
     kc_pods = (\<lambda>_. Inr [\<lparr>pi_Name = ''pg-1'', pi_Phase = []\<rparr>, \<lparr>pi_Name = ''pg-0'', pi_Phase = []\<rparr>])\<rparr>"

section \<open>Properties\<close>

text \<open>C33: pods are resolved back to the nodes \<open>Up\<close> promised. When the cluster lists exactly the pods of the stateful set, in any order, \<open>Nodes\<close>
  gives the same handles as a successful \<open>Up\<close>, role included: the ordinal is recovered from the pod name whatever the topology is called.\<close>

theorem k8s_Nodes_agree:
  assumes "k8s_Up e t w = (Inr spec, w')" "in64 (t_Nodes t)"
    "runKubectl e [''get'', ''pods'', ''-n'', namespaceFor t, ''-l'', ''app='' @ t_Name t, ''-o'', ''json''] w1 = (Inr raw, w2)" "parsePods e raw = Inr items"
    "mset (map pi_Name items) = mset (map (\<lambda>i. podName (k8s_buildModel t) (int i)) [0..<nat (max 1 (t_Nodes t))])"
  shows "\<exists>ns. k8s_Nodes e t w1 = (Inr ns, w2) \<and> mset ns = mset (cs_Nodes spec) \<and> distinct (map n_ID ns) \<and> length ns = nat (max 1 (t_Nodes t))"
proof -
  let ?m = "k8s_buildModel t" and ?n = "nat (max 1 (t_Nodes t))"
  have m: "mm_Namespace ?m = namespaceFor t" "mm_Name ?m = t_Name t"
    by (simp_all add: k8s_buildModel_def Let_def)
  have spec: "cs_Nodes spec = model_nodes ?m"
    using assms(1) by (auto simp: k8s_Up_def Let_def k8s_spec_def split: prod.splits sum.splits option.splits)
  have ord: "podOrdinal (podName ?m (int i)) = int i" if "i < ?n" for i
    using that assms(2) by (intro podOrdinal_podName) (auto simp: in64_def)
  have "mset (nodesFromPods ?m items) = image_mset (\<lambda>p. k8s_node ?m p (podOrdinal p)) (mset (map pi_Name items))"
    by (simp add: nodesFromPods_def image_mset.compositionality o_def)
  also have "\<dots> = mset (map (\<lambda>i. k8s_node ?m (podName ?m (int i)) (podOrdinal (podName ?m (int i)))) [0..<?n])"
    unfolding assms(5) by (simp add: image_mset.compositionality o_def)
  also have "\<dots> = mset (model_nodes ?m)"
    unfolding model_nodes_def k8s_replicas using ord by (intro arg_cong [where f = mset] map_cong) auto
  finally have nodes: "mset (nodesFromPods ?m items) = mset (cs_Nodes spec)"
    by (simp add: spec)
  have ids: "map n_ID (nodesFromPods ?m items) = map pi_Name items"
    by (simp add: nodesFromPods_def k8s_node_def)
  have "distinct (map pi_Name items)"
    using assms(5) podName_inj [of ?m "{0..<?n}"] by (metis distinct_map distinct_upt mset_eq_imp_distinct_iff set_upt)
  moreover have "length (map pi_Name items) = ?n"
    using arg_cong [OF assms(5), of size] by simp
  ultimately have "distinct (map n_ID (nodesFromPods ?m items))" "length (nodesFromPods ?m items) = ?n"
    by (simp_all add: ids) (simp add: nodesFromPods_def)
  thus ?thesis
    using assms(3,4) nodes by (simp add: k8s_Nodes_def Let_def m)
qed

theorem k8s_Nodes_agree_witness:
  "\<exists>spec ns. k8s_Up demo_kubectl (demo_topology\<lparr>t_Nodes := 2\<rparr>) () = (Inr spec, ()) \<and> k8s_Nodes demo_kubectl (demo_topology\<lparr>t_Nodes := 2\<rparr>) () = (Inr ns, ()) \<and>
     mset ns = mset (cs_Nodes spec) \<and> length ns = 2"
proof -
  let ?t = "demo_topology\<lparr>t_Nodes := 2\<rparr>"
  have up: "\<exists>spec. k8s_Up demo_kubectl ?t () = (Inr spec, ())"
    by (simp add: k8s_Up_def writeManifest_def runKubectl_def rolloutStatus_def demo_kubectl_def Let_def)
  have n: "fmt_int 0 = ''0''" "fmt_int 1 = ''1''" "trim_space ''{}'' = ''{}''"
    by code_simp+
  have get: "runKubectl demo_kubectl args () = (Inr ''{}'', ())" for args
    by (simp add: runKubectl_def demo_kubectl_def n)
  have items: "parsePods demo_kubectl ''{}'' = Inr [\<lparr>pi_Name = ''pg-1'', pi_Phase = []\<rparr>, \<lparr>pi_Name = ''pg-0'', pi_Phase = []\<rparr>]"
    by (simp add: parsePods_def demo_kubectl_def n)
  have "mset (map pi_Name [\<lparr>pi_Name = ''pg-1'', pi_Phase = []\<rparr>, \<lparr>pi_Name = ''pg-0'', pi_Phase = []\<rparr>]) =
      mset (map (\<lambda>i. podName (k8s_buildModel ?t) (int i)) [0..<nat (max 1 (t_Nodes ?t))])"
    by (simp add: podName_def k8s_buildModel_def demo_topology_def Let_def upt_rec n)
  moreover have "in64 (t_Nodes ?t)" "nat (max 1 (t_Nodes ?t)) = 2"
    by (simp_all add: in64_def)
  ultimately show ?thesis
    using up k8s_Nodes_agree [OF _ _ get items] by fastforce
qed

end
