(* ===== verification/Export.thy ===== *)
theory Export
  imports Domain "HOL-Library.AList"
begin

text \<open>
  The exporters to a time-series database (\<open>core/export\<close>) and the run's use of
  them (\<open>core/cli/export.go\<close>): InfluxDB line protocol (\<open>influx.go\<close>) and the
  Prometheus text format for a Pushgateway (\<open>pushgateway.go\<close>). Posting over HTTP and
  the printing of floats are arguments. A set of labels is a list of pairs with
  distinct keys.
\<close>

section \<open>Definitions\<close>

type_synonym labels = "(string \<times> string) list"

subsection \<open>Posting\<close>

text \<open>A post: an error of the transport, or the status code and its text.\<close>

type_synonym 'w http_post = "string \<Rightarrow> string \<Rightarrow> string \<Rightarrow> 'w \<Rightarrow> (err + int \<times> string) \<times> 'w"

definition postBody :: "(string \<Rightarrow> err option) \<Rightarrow> 'w http_post \<Rightarrow> string \<Rightarrow> string \<Rightarrow> string \<Rightarrow> 'w \<Rightarrow> err option \<times> 'w" where
  "postBody badURL post url contentType body w = (case badURL url of
      Some e \<Rightarrow> (Some (''export: build request: '' @ e), w)
    | None \<Rightarrow> (case post url contentType body w of
          (Inl e, w') \<Rightarrow> (Some (''export: post to '' @ url @ '': '' @ e), w')
        | (Inr (code, status), w') \<Rightarrow>
            (if code < 200 \<or> code \<ge> 300 then (Some (''export: '' @ url @ '' returned '' @ status), w') else (None, w'))))"

definition sortedKeys :: "labels \<Rightarrow> string list" where
  "sortedKeys m = sort (map fst m)"

text \<open>The loop \<open>for k, v := range labels\<close> over a map that starts with the operation's label.\<close>

definition op_labels :: "string \<Rightarrow> labels \<Rightarrow> labels" where
  "op_labels op ls = fold (\<lambda>(k, v) m. AList.update k v m) ls [(''op'', op)]"

subsection \<open>Line protocol\<close>

definition escapeInfluxTag :: "string \<Rightarrow> string" where
  "escapeInfluxTag s = concat (map (\<lambda>c. if c \<in> {CHR '','', CHR ''='', CHR '' ''} then [CHR 0x5C, c] else [c]) s)"

definition influx_i :: "int \<Rightarrow> string" where
  "influx_i v = fmt_int v @ ''i''"

definition writeInfluxTags :: "string \<Rightarrow> labels \<Rightarrow> string" where
  "writeInfluxTags op ls =
     (let tags = op_labels op ls in
      concat (map (\<lambda>k. '','' @ escapeInfluxTag k @ ''='' @ escapeInfluxTag (the (map_of tags k))) (sortedKeys tags)))"

definition writeInfluxFields :: "(rat \<Rightarrow> string) \<Rightarrow> LatencySnapshot \<Rightarrow> string" where
  "writeInfluxFields f s =
     (let p = ls_Pct s in
      ''p50='' @ f (pc_P50 p) @ '',p90='' @ f (pc_P90 p) @ '',p95='' @ f (pc_P95 p) @ '',p99='' @ f (pc_P99 p) @
      '',p999='' @ f (pc_P999 p) @ '',p9999='' @ f (pc_P9999 p) @ '',mean='' @ f (pc_Mean p) @ '',max='' @ f (pc_Max p) @
      '',throughput='' @ f (ls_Throughput s) @ '',count='' @ influx_i (pc_Count p) @ '',in_flight='' @ influx_i (ls_InFlight s) @
      '',errors='' @ influx_i (ls_Errors s))"

definition writeInfluxLine :: "(rat \<Rightarrow> string) \<Rightarrow> labels \<Rightarrow> LatencySnapshot \<Rightarrow> string" where
  "writeInfluxLine f ls s =
     ''proofload_latency'' @ writeInfluxTags (ls_OpType s) ls @ '' '' @ writeInfluxFields f s @ '' '' @ fmt_int (ls_T s) @ [CHR 0x0A]"

definition influx_Export ::
  "(rat \<Rightarrow> string) \<Rightarrow> (string \<Rightarrow> err option) \<Rightarrow> 'w http_post \<Rightarrow> string \<Rightarrow> LatencySnapshot list \<Rightarrow> labels \<Rightarrow> 'w \<Rightarrow> err option \<times> 'w" where
  "influx_Export f badURL post writeURL snaps ls w =
     (if length snaps = 0 then (None, w)
      else postBody badURL post writeURL ''text/plain; charset=utf-8'' (concat (map (writeInfluxLine f ls) snaps)) w)"

subsection \<open>Exposition format\<close>

definition escapePromLabelValue :: "string \<Rightarrow> string" where
  "escapePromLabelValue s = concat (map (\<lambda>c.
     if c = CHR 0x5C then [CHR 0x5C, CHR 0x5C] else if c = CHR 0x22 then [CHR 0x5C, CHR 0x22]
     else if c = CHR 0x0A then [CHR 0x5C, CHR ''n''] else [c]) s)"

definition prom_set :: "string \<Rightarrow> labels \<Rightarrow> string \<Rightarrow> labels" where
  "prom_set op ls q = (let m = op_labels op ls in if q \<noteq> '''' then AList.update ''quantile'' q m else m)"

definition promLabels :: "string \<Rightarrow> labels \<Rightarrow> string \<Rightarrow> string" where
  "promLabels op ls q =
     (let m = prom_set op ls q in
      ''{'' @ join '','' (map (\<lambda>k. k @ ''='' @ [CHR 0x22] @ escapePromLabelValue (the (map_of m k)) @ [CHR 0x22]) (sortedKeys m)) @ ''}'')"

definition quantiles :: "(string \<times> (Percentiles \<Rightarrow> rat)) list" where
  "quantiles = [(''0.5'', pc_P50), (''0.9'', pc_P90), (''0.95'', pc_P95), (''0.99'', pc_P99), (''0.999'', pc_P999), (''0.9999'', pc_P9999)]"

definition writeQuantileFamily :: "(rat \<Rightarrow> string) \<Rightarrow> labels \<Rightarrow> LatencySnapshot list \<Rightarrow> string" where
  "writeQuantileFamily f ls snaps =
     ''# TYPE proofload_latency_ms gauge'' @ [CHR 0x0A] @
     concat (map (\<lambda>s. concat (map (\<lambda>(q, value).
       ''proofload_latency_ms'' @ promLabels (ls_OpType s) ls q @ '' '' @ f (value (ls_Pct s)) @ [CHR 0x0A]) quantiles)) snaps)"

definition writeScalarFamily :: "string \<Rightarrow> labels \<Rightarrow> (LatencySnapshot \<Rightarrow> string) \<Rightarrow> LatencySnapshot list \<Rightarrow> string" where
  "writeScalarFamily name ls val snaps =
     ''# TYPE '' @ name @ '' gauge'' @ [CHR 0x0A] @
     concat (map (\<lambda>s. name @ promLabels (ls_OpType s) ls '''' @ '' '' @ val s @ [CHR 0x0A]) snaps)"

definition buildExposition :: "(rat \<Rightarrow> string) \<Rightarrow> labels \<Rightarrow> LatencySnapshot list \<Rightarrow> string" where
  "buildExposition f ls snaps =
     writeQuantileFamily f ls snaps @
     writeScalarFamily ''proofload_latency_max_ms'' ls (\<lambda>s. f (pc_Max (ls_Pct s))) snaps @
     writeScalarFamily ''proofload_throughput'' ls (\<lambda>s. f (ls_Throughput s)) snaps @
     writeScalarFamily ''proofload_in_flight'' ls (\<lambda>s. fmt_int (ls_InFlight s)) snaps @
     writeScalarFamily ''proofload_errors'' ls (\<lambda>s. fmt_int (ls_Errors s)) snaps"

definition latestPerOp :: "LatencySnapshot list \<Rightarrow> LatencySnapshot list" where
  "latestPerOp snaps =
     (let byOp = fold (\<lambda>s m. AList.update (ls_OpType s) s m) snaps []; ops = sort (map fst byOp)
      in map (\<lambda>op. the (map_of byOp op)) ops)"

fun trim_right_slash :: "string \<Rightarrow> string" where
  "trim_right_slash s = rev (dropWhile (\<lambda>c. c = CHR ''/'') (rev s))"

definition NewPushgateway :: "string \<Rightarrow> string \<Rightarrow> string" where
  "NewPushgateway baseURL job = trim_right_slash baseURL @ ''/metrics/job/'' @ job"

definition pushgw_Export ::
  "(rat \<Rightarrow> string) \<Rightarrow> (string \<Rightarrow> err option) \<Rightarrow> 'w http_post \<Rightarrow> string \<Rightarrow> LatencySnapshot list \<Rightarrow> labels \<Rightarrow> 'w \<Rightarrow> err option \<times> 'w" where
  "pushgw_Export f badURL post pushURL snaps ls w =
     (if length snaps = 0 then (None, w)
      else postBody badURL post pushURL ''text/plain; version=0.0.4'' (buildExposition f ls (latestPerOp snaps)) w)"

subsection \<open>Exporters of a run\<close>

datatype Exporter = influxExporter string | pushgwExporter string

definition export_New :: "string \<Rightarrow> string \<Rightarrow> err + Exporter" where
  "export_New kind url =
     (if kind = ''influx'' then Inr (influxExporter url)
      else if kind = ''pushgateway'' then Inr (pushgwExporter (NewPushgateway url ''proofload''))
      else Inl (''export: unknown kind '' @ fmt_q kind @ '' (want '' @ fmt_q ''influx'' @ '' or '' @ fmt_q ''pushgateway'' @ '')''))"

definition Exporter_Export ::
  "(rat \<Rightarrow> string) \<Rightarrow> (string \<Rightarrow> err option) \<Rightarrow> 'w http_post \<Rightarrow> Exporter \<Rightarrow> LatencySnapshot list \<Rightarrow> labels \<Rightarrow> 'w \<Rightarrow> err option \<times> 'w" where
  "Exporter_Export f badURL post e snaps ls w = (case e of
      influxExporter url \<Rightarrow> influx_Export f badURL post url snaps ls w
    | pushgwExporter url \<Rightarrow> pushgw_Export f badURL post url snaps ls w)"

text \<open>The flag \<open>--export kind=url\<close>: the message printed and the world after it.\<close>

definition exportMetrics ::
  "(rat \<Rightarrow> string) \<Rightarrow> (string \<Rightarrow> err option) \<Rightarrow> 'w http_post \<Rightarrow> string \<Rightarrow> Manifest \<Rightarrow> RunResult \<Rightarrow> LatencySnapshot list \<Rightarrow> 'w \<Rightarrow> string \<times> 'w" where
  "exportMetrics f badURL post flag man summary snaps w =
     (if flag = '''' then ('''', w)
      else let kind = takeWhile (\<lambda>c. c \<noteq> CHR ''='') flag in
        case dropWhile (\<lambda>c. c \<noteq> CHR ''='') flag of
          [] \<Rightarrow> (''  (export skipped: expected kind=url, got '' @ fmt_q flag @ '')'' @ [CHR 0x0A], w)
        | _ # url \<Rightarrow> (case export_New kind url of
            Inl e \<Rightarrow> (''  (export skipped: '' @ e @ '')'' @ [CHR 0x0A], w)
          | Inr ex \<Rightarrow>
              (case Exporter_Export f badURL post ex snaps
                  [(''target'', m_Target man), (''workload'', m_Workload man), (''run_id'', rr_RunID summary)] w of
                 (Some e, w') \<Rightarrow> (''  (export failed: '' @ e @ '')'' @ [CHR 0x0A], w')
               | (None, w') \<Rightarrow>
                   (''  exported     '' @ fmt_nat (length snaps) @ '' snapshots to '' @ url @ '' ('' @ kind @ '')'' @ [CHR 0x0A], w'))))"

section \<open>Reading the formats\<close>

text \<open>A quoted label value is read up to its closing quote, undoing the escapes.\<close>

fun prom_value :: "string \<Rightarrow> (string \<times> string) option" where
  "prom_value [] = None"
| "prom_value (c # s) =
     (if c = CHR 0x22 then Some ([], s)
      else if c = CHR 0x5C then (case s of [] \<Rightarrow> None
        | d # s' \<Rightarrow> map_option (map_prod ((#) (if d = CHR ''n'' then CHR 0x0A else d)) id) (prom_value s'))
      else map_option (map_prod ((#) c) id) (prom_value s))"

text \<open>A body as families of samples, each a series and a value.\<close>

type_synonym family = "string \<times> (string \<times> string) list"

definition family_text :: "family \<Rightarrow> string" where
  "family_text fam = ''# TYPE '' @ fst fam @ '' gauge'' @ [CHR 0x0A] @ concat (map (\<lambda>(series, v). series @ '' '' @ v @ [CHR 0x0A]) (snd fam))"

definition scalar_family :: "string \<Rightarrow> labels \<Rightarrow> (LatencySnapshot \<Rightarrow> string) \<Rightarrow> LatencySnapshot list \<Rightarrow> family" where
  "scalar_family name ls val snaps = (name, map (\<lambda>s. (name @ promLabels (ls_OpType s) ls '''', val s)) snaps)"

definition quantile_family :: "string \<Rightarrow> (rat \<Rightarrow> string) \<Rightarrow> labels \<Rightarrow> LatencySnapshot list \<Rightarrow> family" where
  "quantile_family name f ls snaps = (name, concat (map (\<lambda>s. map (\<lambda>(q, value).
     (name @ promLabels (ls_OpType s) ls q, f (value (ls_Pct s)))) quantiles) snaps))"

definition families :: "(rat \<Rightarrow> string) \<Rightarrow> labels \<Rightarrow> LatencySnapshot list \<Rightarrow> family list" where
  "families f ls snaps =
     [quantile_family ''proofload_latency_ms'' f ls snaps,
      scalar_family ''proofload_latency_max_ms'' ls (\<lambda>s. f (pc_Max (ls_Pct s))) snaps,
      scalar_family ''proofload_throughput'' ls (\<lambda>s. f (ls_Throughput s)) snaps,
      scalar_family ''proofload_in_flight'' ls (\<lambda>s. fmt_int (ls_InFlight s)) snaps,
      scalar_family ''proofload_errors'' ls (\<lambda>s. fmt_int (ls_Errors s)) snaps]"

text \<open>The map \<open>byOp\<close> of the latest snapshots.\<close>

definition by_op :: "LatencySnapshot list \<Rightarrow> (OpType \<times> LatencySnapshot) list" where
  "by_op snaps = fold (\<lambda>s m. AList.update (ls_OpType s) s m) snaps []"

text \<open>An interval with one sample, for the evaluated inputs.\<close>

definition pct1 :: Percentiles where
  "pct1 = \<lparr>pc_Count = 1, pc_Mean = 1, pc_P50 = 1, pc_P90 = 1, pc_P95 = 1, pc_P99 = 1, pc_P999 = 1, pc_P9999 = 1, pc_Max = 1\<rparr>"

section \<open>Lemmas\<close>

lemma fold_update_map_of:
  "map_of (fold (\<lambda>x m. AList.update (g x) (h x) m) xs m) k =
     (if filter (\<lambda>x. g x = k) xs = [] then map_of m k else Some (h (last (filter (\<lambda>x. g x = k) xs))))"
  by (induction xs arbitrary: m) (auto simp: update_conv')

lemma fold_update_keys:
  "fst ` set (fold (\<lambda>x m. AList.update (g x) (h x) m) xs m) = fst ` set m \<union> g ` set xs"
  by (induction xs arbitrary: m) (auto simp: dom_update)

lemma fold_update_distinct:
  "distinct (map fst m) \<Longrightarrow> distinct (map fst (fold (\<lambda>x m. AList.update (g x) (h x) m) xs m))"
  by (induction xs arbitrary: m) (simp_all add: distinct_update)

lemma op_labels_fold: "op_labels op ls = fold (\<lambda>x m. AList.update (fst x) (snd x) m) ls [(''op'', op)]"
  by (simp add: op_labels_def case_prod_beta')

lemma prom_set_map:
  assumes "''op'' \<notin> fst ` set ls" "''quantile'' \<notin> fst ` set ls"
  shows "map_of (prom_set op ls q) ''op'' = Some op" "q \<noteq> '''' \<Longrightarrow> map_of (prom_set op ls q) ''quantile'' = Some q"
    "set (sortedKeys (prom_set op ls q)) = insert ''op'' (fst ` set ls) \<union> (if q = '''' then {} else {''quantile''})"
    "distinct (sortedKeys (prom_set op ls q))"
proof -
  have e: "filter (\<lambda>x. fst x = ''op'') ls = []"
    using assms(1) by (force simp: filter_empty_conv)
  show "map_of (prom_set op ls q) ''op'' = Some op"
    using e by (simp add: prom_set_def op_labels_fold fold_update_map_of update_conv' Let_def)
  show "q \<noteq> '''' \<Longrightarrow> map_of (prom_set op ls q) ''quantile'' = Some q"
    by (simp add: prom_set_def update_conv' Let_def)
  show "set (sortedKeys (prom_set op ls q)) = insert ''op'' (fst ` set ls) \<union> (if q = '''' then {} else {''quantile''})"
    by (simp add: sortedKeys_def prom_set_def op_labels_fold dom_update fold_update_keys Let_def)
  show "distinct (sortedKeys (prom_set op ls q))"
    by (simp add: sortedKeys_def prom_set_def op_labels_fold fold_update_distinct distinct_update Let_def)
qed

lemma prom_value_escape: "prom_value (escapePromLabelValue v @ CHR 0x22 # r) = Some (v, r)"
  by (induction v) (simp_all add: escapePromLabelValue_def)

lemma escape_prefix:
  assumes "escapePromLabelValue v @ CHR 0x22 # r = escapePromLabelValue v' @ CHR 0x22 # r'"
  shows "v = v' \<and> r = r'"
proof -
  have "prom_value (escapePromLabelValue v' @ CHR 0x22 # r') = Some (v, r)"
    using prom_value_escape [of v r] unfolding assms .
  thus ?thesis
    by (simp only: prom_value_escape option.inject prod.inject)
qed

lemma label_join_inj:
  assumes "join '','' (map (\<lambda>k. k @ ''='' @ [CHR 0x22] @ escapePromLabelValue (g k) @ [CHR 0x22]) ks) @ t =
    join '','' (map (\<lambda>k. k @ ''='' @ [CHR 0x22] @ escapePromLabelValue (h k) @ [CHR 0x22]) ks) @ t" "k \<in> set ks"
  shows "g k = h k"
  using assms
proof (induction ks rule: induct_list012)
  case (2 x)
  thus ?case
    using escape_prefix [of "g x" t "h x" t] by simp
next
  case (3 x y ks)
  let ?j = "\<lambda>g. join '','' (map (\<lambda>k. k @ ''='' @ [CHR 0x22] @ escapePromLabelValue (g k) @ [CHR 0x22]) (y # ks)) @ t"
  have "escapePromLabelValue (g x) @ CHR 0x22 # CHR '','' # ?j g = escapePromLabelValue (h x) @ CHR 0x22 # CHR '','' # ?j h"
    using 3(3) by simp
  hence "g x = h x" "?j g = ?j h"
    using escape_prefix by blast+
  thus ?case
    using 3(2,4) by auto
qed simp

lemma promLabels_inj:
  assumes "''op'' \<notin> fst ` set ls" "''quantile'' \<notin> fst ` set ls" "promLabels op ls q = promLabels op' ls q'" "q = '''' \<longleftrightarrow> q' = ''''"
  shows "op = op' \<and> q = q'"
proof -
  note m = prom_set_map [OF assms(1,2)]
  have k: "sortedKeys (prom_set op ls q) = sortedKeys (prom_set op' ls q')"
  proof (rule sorted_distinct_set_unique)
    show "set (sortedKeys (prom_set op ls q)) = set (sortedKeys (prom_set op' ls q'))"
      using assms(4) unfolding m(3) by simp
  qed (use m(4) in \<open>simp_all add: sortedKeys_def\<close>)
  let ?ks = "sortedKeys (prom_set op' ls q')"
  let ?g = "\<lambda>x. the (map_of (prom_set op ls q) x)" and ?h = "\<lambda>x. the (map_of (prom_set op' ls q') x)"
  have j: "join '','' (map (\<lambda>k. k @ ''='' @ [CHR 0x22] @ escapePromLabelValue (?g k) @ [CHR 0x22]) ?ks) @ ''}'' =
      join '','' (map (\<lambda>k. k @ ''='' @ [CHR 0x22] @ escapePromLabelValue (?h k) @ [CHR 0x22]) ?ks) @ ''}''"
    using assms(3) unfolding promLabels_def Let_def k by (simp only: append.simps list.inject)
  have v: "?g x = ?h x" if "x \<in> set (sortedKeys (prom_set op ls q))" for x
    using that unfolding k by (rule label_join_inj [OF j])
  have "op = op'"
    using v [of "''op''"] unfolding m(1,3) by simp
  moreover have "q = q'" if "q \<noteq> ''''"
  proof -
    have "map_of (prom_set op ls q) ''quantile'' = Some q" "map_of (prom_set op' ls q') ''quantile'' = Some q'"
      using that assms(4) by (simp_all add: m(2))
    thus ?thesis
      using v [of "''quantile''"] that unfolding m(3) by simp
  qed
  ultimately show ?thesis
    using assms(4) by blast
qed

text \<open>The name of a series ends at its brace.\<close>

lemma series_name: "CHR ''{'' \<notin> set n \<Longrightarrow> takeWhile (\<lambda>c. c \<noteq> CHR ''{'') (n @ promLabels op ls q) = n"
  by (subst takeWhile_append2) (auto simp: promLabels_def Let_def)

lemma by_op_keys: "fst ` set (by_op snaps) = ls_OpType ` set snaps" "distinct (map fst (by_op snaps))"
  unfolding by_op_def by (simp_all add: fold_update_keys fold_update_distinct)

lemma by_op_last:
  assumes "op \<in> ls_OpType ` set snaps"
  shows "\<exists>s pre post. map_of (by_op snaps) op = Some s \<and> snaps = pre @ s # post \<and> op \<notin> ls_OpType ` set post \<and> ls_OpType s = op"
proof -
  obtain pre s post where s: "snaps = pre @ s # post" "ls_OpType s = op" "\<forall>y\<in>set post. ls_OpType y \<noteq> op"
    by (rule split_list_last_propE [of snaps "\<lambda>s. ls_OpType s = op"]) (use assms in auto)
  have "filter (\<lambda>s. ls_OpType s = op) snaps = filter (\<lambda>s. ls_OpType s = op) pre @ [s]"
    unfolding s(1) using s(2,3) by simp
  hence "map_of (by_op snaps) op = Some s"
    unfolding by_op_def fold_update_map_of by simp
  moreover have "op \<notin> ls_OpType ` set post"
    using s(3) by auto
  ultimately show ?thesis
    using s(1,2) by (intro exI conjI)
qed

lemma latestPerOp_last:
  "sorted (map ls_OpType (latestPerOp snaps)) \<and> distinct (map ls_OpType (latestPerOp snaps)) \<and>
   set (map ls_OpType (latestPerOp snaps)) = ls_OpType ` set snaps \<and>
   (\<forall>s\<in>set (latestPerOp snaps). \<exists>pre post. snaps = pre @ s # post \<and> ls_OpType s \<notin> ls_OpType ` set post)"
proof -
  have eq: "latestPerOp snaps = map (\<lambda>op. the (map_of (by_op snaps) op)) (sort (map fst (by_op snaps)))"
    by (simp add: latestPerOp_def by_op_def Let_def)
  have l: "ls_OpType (the (map_of (by_op snaps) op)) = op"
    "\<exists>pre post. snaps = pre @ the (map_of (by_op snaps) op) # post \<and> op \<notin> ls_OpType ` set post" if "op \<in> fst ` set (by_op snaps)" for op
    using by_op_last [of op snaps] that unfolding by_op_keys(1) by force+
  have types: "map ls_OpType (latestPerOp snaps) = sort (map fst (by_op snaps))"
    unfolding eq map_map by (rule map_idI) (simp add: l(1))
  have "\<exists>pre post. snaps = pre @ s # post \<and> ls_OpType s \<notin> ls_OpType ` set post" if "s \<in> set (latestPerOp snaps)" for s
    using that l unfolding eq by force
  thus ?thesis
    unfolding types using by_op_keys [of snaps] by simp
qed

subsection \<open>Distinct series\<close>

lemma distinct_concat_named:
  assumes "distinct (map fst fams)" "\<And>fam. fam \<in> set fams \<Longrightarrow> distinct (g fam)"
    "\<And>fam x. fam \<in> set fams \<Longrightarrow> x \<in> set (g fam) \<Longrightarrow> name_of x = fst fam"
  shows "distinct (concat (map g fams))"
  using assms
proof (induction fams)
  case (Cons fam fams)
  have "x \<notin> set (g fam')" if "x \<in> set (g fam)" "fam' \<in> set fams" for x fam'
    using Cons.prems(1) Cons.prems(3) [of fam x] Cons.prems(3) [of fam' x] that by (force simp: image_iff)
  moreover have "distinct (concat (map g fams))"
    using Cons.prems by (intro Cons.IH) auto
  ultimately show ?case
    using Cons.prems(2) [of fam] by auto
qed simp

lemma op_inj: "distinct (map ls_OpType snaps) \<Longrightarrow> s \<in> set snaps \<Longrightarrow> s' \<in> set snaps \<Longrightarrow> ls_OpType s = ls_OpType s' \<Longrightarrow> s = s'"
  by (auto simp: distinct_map inj_on_def)

lemma scalar_distinct:
  assumes "''op'' \<notin> fst ` set ls" "''quantile'' \<notin> fst ` set ls" "distinct (map ls_OpType snaps)"
  shows "distinct (map fst (snd (scalar_family n ls val snaps)))"
proof -
  have "inj_on (\<lambda>s. n @ promLabels (ls_OpType s) ls '''') (set snaps)"
  proof (rule inj_onI)
    fix s s'
    assume a: "s \<in> set snaps" "s' \<in> set snaps" "n @ promLabels (ls_OpType s) ls '''' = n @ promLabels (ls_OpType s') ls ''''"
    show "s = s'"
      using promLabels_inj [OF assms(1,2) a(3) [unfolded same_append_eq]] op_inj [OF assms(3) a(1,2)] by blast
  qed
  thus ?thesis
    using assms(3) by (simp add: scalar_family_def distinct_map comp_def)
qed

lemma quantile_distinct:
  assumes "''op'' \<notin> fst ` set ls" "''quantile'' \<notin> fst ` set ls" "distinct (map ls_OpType snaps)"
  shows "distinct (map fst (snd (quantile_family n f ls snaps)))"
proof -
  have qs: "distinct (map fst quantiles)" "'''' \<notin> fst ` set quantiles"
    by (simp_all add: quantiles_def)
  have "inj_on (\<lambda>(s, q). n @ promLabels (ls_OpType s) ls q) (set (List.product snaps (map fst quantiles)))"
  proof (rule inj_onI, clarsimp)
    fix s q v s' q' v'
    assume a: "s \<in> set snaps" "(q, v) \<in> set quantiles" "s' \<in> set snaps" "(q', v') \<in> set quantiles"
      "promLabels (ls_OpType s) ls q = promLabels (ls_OpType s') ls q'"
    have "q \<noteq> ''''" "q' \<noteq> ''''"
      using a(2,4) qs(2) by force+
    thus "s = s' \<and> q = q'"
      using promLabels_inj [OF assms(1,2) a(5)] op_inj [OF assms(3) a(1,3)] by blast
  qed
  moreover have "distinct (List.product snaps (map fst quantiles))"
    using assms(3) qs(1) by (intro distinct_product) (auto simp: distinct_map)
  ultimately have "distinct (map (\<lambda>(s, q). n @ promLabels (ls_OpType s) ls q) (List.product snaps (map fst quantiles)))"
    by (simp add: distinct_map)
  thus ?thesis
    by (simp add: quantile_family_def product_concat_map map_concat comp_def case_prod_beta')
qed

lemma family_name: "fst (scalar_family n ls val snaps) = n" "fst (quantile_family n f ls snaps) = n"
  by (simp_all add: scalar_family_def quantile_family_def)

lemma families_names:
  assumes "fam \<in> set (families f ls snaps)" "x \<in> set (map fst (snd fam))"
  shows "takeWhile (\<lambda>c. c \<noteq> CHR ''{'') x = fst fam"
proof -
  have s: "\<exists>op q. y = n @ promLabels op ls q" if "y \<in> set (map fst (snd (scalar_family n ls val snaps)))" for n y val
    using that by (auto simp: scalar_family_def)
  have q: "\<exists>op q. y = n @ promLabels op ls q" if "y \<in> set (map fst (snd (quantile_family n f ls snaps)))" for n y
    using that by (clarsimp simp: quantile_family_def) blast
  have "(\<exists>n. fam = quantile_family n f ls snaps) \<or> (\<exists>n val. fam = scalar_family n ls val snaps)"
    using assms(1) unfolding families_def list.set insert_iff empty_iff by blast
  hence "\<exists>op q. x = fst fam @ promLabels op ls q"
    using s [of x] q [of x] assms(2) by (elim disjE exE) (simp_all only: family_name)
  moreover have "CHR ''{'' \<notin> set (fst fam)"
    using assms(1) by (auto simp: families_def family_name)
  ultimately show ?thesis
    using series_name by blast
qed

lemma families_distinct:
  assumes "''op'' \<notin> fst ` set ls" "''quantile'' \<notin> fst ` set ls" "distinct (map ls_OpType snaps)"
  shows "distinct (concat (map (\<lambda>fam. map fst (snd fam)) (families f ls snaps)))"
proof (rule distinct_concat_named [where name_of = "takeWhile (\<lambda>c. c \<noteq> CHR ''{'')"])
  show "distinct (map fst (families f ls snaps))"
    by (simp add: families_def family_name)
  show "distinct (map fst (snd fam))" if "fam \<in> set (families f ls snaps)" for fam
    using that scalar_distinct [OF assms] quantile_distinct [OF assms]
    by (auto simp: families_def)
qed (rule families_names)

lemma concat_map_concat: "concat (map g (concat (map h xs))) = concat (map (\<lambda>x. concat (map g (h x))) xs)"
  by (induction xs) simp_all

lemma exposition_families: "buildExposition f ls snaps = concat (map family_text (families f ls snaps))"
  by (simp add: buildExposition_def families_def family_text_def writeQuantileFamily_def writeScalarFamily_def
      scalar_family_def quantile_family_def concat_map_concat comp_def case_prod_beta')

section \<open>Properties\<close>

text \<open>C40: The body pushed to a Pushgateway is five gauge families, each under its own type
  line, and no two of its samples, in one family or across families, are of the same
  series, whatever characters the values of the labels have, when the labels themselves do
  not use the names \<open>op\<close> and \<open>quantile\<close>; it has the operations of the run in order of
  their names, and the samples of an operation are of the last snapshot the run took of it.\<close>

theorem exposition_valid:
  assumes "''op'' \<notin> fst ` set ls" "''quantile'' \<notin> fst ` set ls"
  shows "buildExposition f ls (latestPerOp snaps) = concat (map family_text (families f ls (latestPerOp snaps))) \<and>
    distinct (concat (map (\<lambda>fam. map fst (snd fam)) (families f ls (latestPerOp snaps)))) \<and>
    sorted (map ls_OpType (latestPerOp snaps)) \<and> set (map ls_OpType (latestPerOp snaps)) = ls_OpType ` set snaps \<and>
    (\<forall>s\<in>set (latestPerOp snaps). \<exists>pre post. snaps = pre @ s # post \<and> ls_OpType s \<notin> ls_OpType ` set post)"
  using latestPerOp_last [of snaps] families_distinct [OF assms, of "latestPerOp snaps"] exposition_families by blast

theorem exposition_valid_witness:
  "''op'' \<notin> fst ` set [(''target'', ''a'')] \<and> ''quantile'' \<notin> fst ` set [(''target'', ''a'')] \<and>
   latestPerOp
     [\<lparr>ls_T = 1, ls_OpType = ''write'', ls_Throughput = 2, ls_InFlight = 1, ls_Errors = 0, ls_Pct = pct1\<rparr>,
      \<lparr>ls_T = 2, ls_OpType = ''read'', ls_Throughput = 3, ls_InFlight = 1, ls_Errors = 0, ls_Pct = pct1\<rparr>,
      \<lparr>ls_T = 3, ls_OpType = ''write'', ls_Throughput = 4, ls_InFlight = 1, ls_Errors = 0, ls_Pct = pct1\<rparr>] =
     [\<lparr>ls_T = 2, ls_OpType = ''read'', ls_Throughput = 3, ls_InFlight = 1, ls_Errors = 0, ls_Pct = pct1\<rparr>,
      \<lparr>ls_T = 3, ls_OpType = ''write'', ls_Throughput = 4, ls_InFlight = 1, ls_Errors = 0, ls_Pct = pct1\<rparr>] \<and>
   distinct (concat (map (\<lambda>fam. map fst (snd fam)) (families (\<lambda>_. ''1'') [(''target'', ''a'')] (latestPerOp
     [\<lparr>ls_T = 1, ls_OpType = ''write'', ls_Throughput = 2, ls_InFlight = 1, ls_Errors = 0, ls_Pct = pct1\<rparr>,
      \<lparr>ls_T = 2, ls_OpType = ''read'', ls_Throughput = 3, ls_InFlight = 1, ls_Errors = 0, ls_Pct = pct1\<rparr>,
      \<lparr>ls_T = 3, ls_OpType = ''write'', ls_Throughput = 4, ls_InFlight = 1, ls_Errors = 0, ls_Pct = pct1\<rparr>]))))"
proof -
  have h: "''op'' \<notin> fst ` set [(''target'', ''a'')]" "''quantile'' \<notin> fst ` set [(''target'', ''a'')]"
    by simp_all
  show ?thesis
    by (intro conjI h exposition_valid [OF h, THEN conjunct2, THEN conjunct1]) (simp add: latestPerOp_def)
qed

end
