(* ===== verification/Schedule.thy ===== *)
theory Schedule
  imports Domain
begin

text \<open>
  The package \<open>core/schedule\<close>: the constant-rate open loop, the closed loop, the
  stepped ramp with its precomputed segments and binary search, the Poisson
  arrivals and the pacer \<open>WaitUntil\<close>. Every \<open>Next\<close> takes the reading of the clock
  it could consult and returns the intended start with the updated scheduler;
  the atomic counter of the source is the field the step increments.
\<close>

section \<open>Definitions\<close>

subsection \<open>Open and closed loop\<close>

definition offsetFor :: "int \<Rightarrow> int \<Rightarrow> duration" where
  "offsetFor n ops =
     (if ops \<le> 0 then 0
      else let secs = n sdiv ops; rem = n smod ops
           in i64 (i64 (secs * second) + i64 (rem * second) sdiv ops))"

record openLoop =
  ol_start :: instant
  ol_ops :: int
  ol_n :: int

definition openLoop_Next :: "instant \<Rightarrow> openLoop \<Rightarrow> instant \<times> openLoop" where
  "openLoop_Next now o1 =
     (let n' = i64 (ol_n o1 + 1); n = i64 (n' - 1)
      in (ol_start o1 + offsetFor n (ol_ops o1), o1\<lparr>ol_n := n'\<rparr>))"

definition closedLoop_Next :: "instant \<Rightarrow> instant" where
  "closedLoop_Next now = now"

subsection \<open>Stepped ramp\<close>

record RateStep =
  st_OpsPerSec :: int
  st_Duration :: duration

record rampSeg =
  sg_startCount :: int
  sg_startOffset :: duration
  sg_rate :: int

record ramp =
  rp_start :: instant
  rp_segs :: "rampSeg list"
  rp_n :: int

definition opsInStep :: "int \<Rightarrow> duration \<Rightarrow> int" where
  "opsInStep rate dur =
     (if rate \<le> 0 \<or> dur \<le> 0 then 0
      else let secs = dur sdiv second; rem = dur smod second
           in i64 (i64 (rate * secs) + i64 (rate * rem) sdiv second))"

text \<open>The loop of \<open>NewRamp\<close> over the steps, with its running count and offset.\<close>

fun ramp_segs :: "int \<Rightarrow> duration \<Rightarrow> RateStep list \<Rightarrow> rampSeg list" where
  "ramp_segs cnt offs [] = []"
| "ramp_segs cnt offs (s # ss) =
     (if st_OpsPerSec s \<le> 0 \<or> st_Duration s \<le> 0 then ramp_segs cnt offs ss
      else \<lparr>sg_startCount = cnt, sg_startOffset = offs, sg_rate = st_OpsPerSec s\<rparr>
           # ramp_segs (i64 (cnt + opsInStep (st_OpsPerSec s) (st_Duration s)))
               (i64 (offs + st_Duration s)) ss)"

text \<open>\<^const>\<open>None\<close> is the index panic of \<open>r.segs[i]\<close> with \<open>i = -1\<close>.\<close>

definition offsetForIndex :: "rampSeg list \<Rightarrow> int \<Rightarrow> duration option" where
  "offsetForIndex segs n =
     (let j = sort_Search (length segs) (\<lambda>k. sg_startCount (segs ! k) > n)
      in if j = 0 then None
         else let seg = segs ! (j - 1)
              in Some (i64 (sg_startOffset seg + offsetFor (i64 (n - sg_startCount seg)) (sg_rate seg))))"

definition ramp_Next :: "instant \<Rightarrow> ramp \<Rightarrow> (instant \<times> ramp) option" where
  "ramp_Next now r =
     (let n' = i64 (rp_n r + 1); n = i64 (n' - 1)
      in map_option (\<lambda>off. (rp_start r + off, r\<lparr>rp_n := n'\<rparr>)) (offsetForIndex (rp_segs r) n))"

subsection \<open>Poisson arrivals\<close>

text \<open>
  The seeded generator is the sequence of its \<open>ExpFloat64\<close> outputs, read at
  \<open>po_pos\<close>; the conversion of the gap to a duration truncates.
\<close>

record poisson =
  po_start :: instant
  po_lambda :: rat
  po_rng :: "nat \<Rightarrow> rat"
  po_pos :: nat
  po_cum :: duration

definition poisson_Next :: "instant \<Rightarrow> poisson \<Rightarrow> instant \<times> poisson" where
  "poisson_Next now p =
     (let gap = po_rng p (po_pos p) / po_lambda p;
          cum = i64 (po_cum p + i64 (rat_trunc (gap * of_int second)))
      in (po_start p + cum, p\<lparr>po_cum := cum, po_pos := Suc (po_pos p)\<rparr>))"

subsection \<open>The scheduler interface and its constructors\<close>

datatype Scheduler =
    OpenLoop openLoop
  | ClosedLoop
  | Ramp ramp
  | Poisson poisson

fun sched_Next :: "instant \<Rightarrow> Scheduler \<Rightarrow> (instant \<times> Scheduler) option" where
  "sched_Next now (OpenLoop o1) = Some (map_prod id OpenLoop (openLoop_Next now o1))"
| "sched_Next now ClosedLoop = Some (closedLoop_Next now, ClosedLoop)"
| "sched_Next now (Ramp r) = map_option (map_prod id Ramp) (ramp_Next now r)"
| "sched_Next now (Poisson p) = Some (map_prod id Poisson (poisson_Next now p))"

definition NewClosedLoop :: "instant \<Rightarrow> Scheduler" where
  "NewClosedLoop start = ClosedLoop"

definition NewOpenLoop :: "instant \<Rightarrow> RateSpec \<Rightarrow> Scheduler" where
  "NewOpenLoop start rate =
     (if rs_Mode rate \<noteq> RateFixed \<or> rs_OpsPerSec rate \<le> 0 then NewClosedLoop start
      else OpenLoop \<lparr>ol_start = start, ol_ops = rs_OpsPerSec rate, ol_n = 0\<rparr>)"

definition NewRamp :: "instant \<Rightarrow> RateStep list \<Rightarrow> Scheduler" where
  "NewRamp start steps =
     (let segs = ramp_segs 0 0 steps
      in if length segs = 0 then NewClosedLoop start
         else Ramp \<lparr>rp_start = start, rp_segs = segs, rp_n = 0\<rparr>)"

definition linear_steps :: "int \<Rightarrow> int \<Rightarrow> int \<Rightarrow> duration \<Rightarrow> RateStep list" where
  "linear_steps from to nsteps each =
     (if nsteps \<le> 1 then [\<lparr>st_OpsPerSec = to, st_Duration = each\<rparr>]
      else map (\<lambda>i. \<lparr>st_OpsPerSec = i64 (from + i64 (i64 (to - from) * int i) sdiv (nsteps - 1)),
                     st_Duration = each\<rparr>) [0..<nat nsteps])"

definition LinearRamp :: "instant \<Rightarrow> int \<Rightarrow> int \<Rightarrow> int \<Rightarrow> duration \<Rightarrow> Scheduler" where
  "LinearRamp start from to nsteps each = NewRamp start (linear_steps from to nsteps each)"

definition NewPoisson :: "(int \<Rightarrow> nat \<Rightarrow> rat) \<Rightarrow> instant \<Rightarrow> RateSpec \<Rightarrow> int \<Rightarrow> Scheduler" where
  "NewPoisson ExpFloat64 start rate seed =
     (if rs_Mode rate \<noteq> RateFixed \<or> rs_OpsPerSec rate \<le> 0 then NewClosedLoop start
      else Poisson \<lparr>po_start = start, po_lambda = of_int (rs_OpsPerSec rate),
                    po_rng = ExpFloat64 seed, po_pos = 0, po_cum = 0\<rparr>)"

subsection \<open>Pacing\<close>

text \<open>How the \<open>select\<close> of \<open>WaitUntil\<close> returns: the context is done, or the timer
  fires and the clock then reads the given instant.\<close>

datatype wake = CtxDone err | TimerFired instant

definition WaitUntil :: "instant \<Rightarrow> instant \<Rightarrow> wake \<Rightarrow> duration \<times> err option" where
  "WaitUntil t now w =
     (let d = time_sub t now
      in if d \<le> 0 then (i64 (- d), None)
         else case w of
                CtxDone e \<Rightarrow> (0, Some e)
              | TimerFired now' \<Rightarrow> (let late = time_sub now' t in (if late < 0 then 0 else late, None)))"

subsection \<open>Reference schedules\<close>

text \<open>
  What the arithmetic is meant to compute, over unbounded integers: the number
  of operations of a step, and the walk through the steps of a ramp without
  precomputed segments or search.
\<close>

abbreviation usable :: "RateStep \<Rightarrow> bool" where
  "usable s \<equiv> 0 < st_OpsPerSec s \<and> 0 < st_Duration s"

definition step_ops :: "RateStep \<Rightarrow> int" where
  "step_ops s = st_OpsPerSec s * st_Duration s div second"

fun ramp_spec :: "RateStep list \<Rightarrow> int \<Rightarrow> duration" where
  "ramp_spec [] n = 0"
| "ramp_spec [s] n = n * second div st_OpsPerSec s"
| "ramp_spec (s # s' # ss) n =
     (if n < step_ops s then n * second div st_OpsPerSec s
      else st_Duration s + ramp_spec (s' # ss) (n - step_ops s))"

fun seg_scan :: "rampSeg list \<Rightarrow> int \<Rightarrow> rampSeg" where
  "seg_scan (s # s' # ss) n = (if n < sg_startCount s' then s else seg_scan (s' # ss) n)"
| "seg_scan ss n = hd ss"

definition rate_ok :: "int \<Rightarrow> bool" where
  "rate_ok ops \<longleftrightarrow> 0 < ops \<and> ops \<le> 9223372036"

definition openLoop_safe :: "nat \<Rightarrow> openLoop \<Rightarrow> bool" where
  "openLoop_safe k o1 \<longleftrightarrow> rate_ok (ol_ops o1) \<and> 0 \<le> ol_n o1 \<and> in64 (ol_n o1 + int k) \<and>
     in64 ((ol_n o1 + int k) * second div ol_ops o1)"

definition steps_within :: "int \<Rightarrow> duration \<Rightarrow> RateStep list \<Rightarrow> bool" where
  "steps_within c t us \<longleftrightarrow> 0 \<le> c \<and> 0 \<le> t \<and> (\<forall>s\<in>set us. usable s \<and> rate_ok (st_OpsPerSec s)) \<and>
     in64 (c + sum_list (map step_ops us)) \<and> in64 (t + sum_list (map st_Duration us))"

definition ramp_ok :: "RateStep list \<Rightarrow> nat \<Rightarrow> ramp \<Rightarrow> bool" where
  "ramp_ok us k r \<longleftrightarrow> us \<noteq> [] \<and> steps_within 0 0 us \<and> rp_segs r = ramp_segs 0 0 us \<and>
     0 \<le> rp_n r \<and> in64 (rp_n r + int k) \<and> in64 (ramp_spec us (rp_n r + int k))"

definition ramp_safe :: "nat \<Rightarrow> ramp \<Rightarrow> bool" where
  "ramp_safe k r \<longleftrightarrow> (\<exists>us. ramp_ok us k r)"

definition poisson_gap :: "poisson \<Rightarrow> nat \<Rightarrow> duration" where
  "poisson_gap p i = rat_trunc (po_rng p i / po_lambda p * of_int second)"

definition poisson_safe :: "nat \<Rightarrow> poisson \<Rightarrow> bool" where
  "poisson_safe k p \<longleftrightarrow> 0 < po_lambda p \<and> (\<forall>i. 0 \<le> po_rng p i) \<and> 0 \<le> po_cum p \<and>
     in64 (po_cum p + (\<Sum>i<k. poisson_gap p (po_pos p + i)))"

fun sched_safe :: "nat \<Rightarrow> Scheduler \<Rightarrow> bool" where
  "sched_safe k (OpenLoop o1) = openLoop_safe k o1"
| "sched_safe k ClosedLoop = False"
| "sched_safe k (Ramp r) = ramp_safe k r"
| "sched_safe k (Poisson p) = poisson_safe k p"

fun sched_run :: "('e \<Rightarrow> 's \<Rightarrow> (instant \<times> 's) option) \<Rightarrow> 'e list \<Rightarrow> 's \<Rightarrow> (instant list \<times> 's) option" where
  "sched_run nxt [] s = Some ([], s)"
| "sched_run nxt (e # es) s =
     (case nxt e s of None \<Rightarrow> None
      | Some (t, s') \<Rightarrow> map_option (map_prod ((#) t) id) (sched_run nxt es s'))"

section \<open>Exactness of the integer arithmetic\<close>

lemma div_split: "0 < b \<Longrightarrow> (n div b) * c + (n mod b) * c div b = n * c div b" for n b c :: int
proof -
  assume "0 < b"
  have "n * c = (n mod b) * c + (n div b) * c * b"
    by (metis add.commute distrib_right div_mult_mod_eq mult.assoc mult.commute)
  thus ?thesis
    using \<open>0 < b\<close> by simp
qed

lemma offsetFor_val:
  assumes "0 \<le> n" "rate_ok ops" "n * second div ops < 9223372036854775808"
  shows "offsetFor n ops = n * second div ops"
proof -
  have ops: "0 < ops" "ops \<le> 9223372036"
    using assms(2) by (auto simp: rate_ok_def)
  have split: "(n div ops) * second + (n mod ops) * second div ops = n * second div ops"
    using ops div_split by simp
  have nn: "0 \<le> n div ops" "0 \<le> n mod ops" "n mod ops < ops"
    using assms(1) ops by (auto simp: pos_imp_zdiv_nonneg_iff)
  have r: "0 \<le> (n mod ops) * second" "(n mod ops) * second < 9223372036854775808"
    using nn ops unfolding second_def by linarith+
  have q: "0 \<le> (n mod ops) * second div ops"
    using r ops by (simp add: pos_imp_zdiv_nonneg_iff)
  have s: "0 \<le> (n div ops) * second"
    using nn by (simp add: second_def)
  have "in64 ((n mod ops) * second)" "in64 ((n div ops) * second)"
      "in64 ((n div ops) * second + (n mod ops) * second div ops)"
    using r q s split assms(3) by (auto simp: in64_def)
  thus ?thesis
    using assms(1) ops r split by (simp add: offsetFor_def Let_def go_arith)
qed

lemma opsInStep_val:
  assumes "usable s" "rate_ok (st_OpsPerSec s)" "in64 (step_ops s)"
  shows "opsInStep (st_OpsPerSec s) (st_Duration s) = step_ops s"
proof -
  let ?r = "st_OpsPerSec s" and ?d = "st_Duration s"
  have r: "0 < ?r" "?r \<le> 9223372036" "0 < ?d"
    using assms by (auto simp: rate_ok_def)
  have split: "?r * (?d div second) + ?r * (?d mod second) div second = step_ops s"
    using div_split [of second ?d ?r] by (simp add: step_ops_def second_def mult.commute)
  have m: "0 \<le> ?d mod second" "?d mod second < second" "0 \<le> ?d div second"
    using r by (auto simp: second_def)
  have "?r * (?d mod second) \<le> 9223372036 * 999999999"
    by (rule mult_mono) (use r m in \<open>auto simp: second_def\<close>)
  hence a: "0 \<le> ?r * (?d mod second)" "?r * (?d mod second) < 9223372036854775808"
    using r m by auto
  have b: "0 \<le> ?r * (?d div second)" "0 \<le> ?r * (?d mod second) div second"
    using r m a by (auto simp: pos_imp_zdiv_nonneg_iff second_def)
  have "in64 (?r * (?d mod second))" "in64 (?r * (?d div second))"
    using a b split assms(3) by (auto simp: in64_def)
  thus ?thesis
    using r a b split assms(3) by (simp add: opsInStep_def Let_def go_arith second_def)
qed

lemma div_mono_num: "a \<le> b \<Longrightarrow> 0 < c \<Longrightarrow> a div c \<le> b div c" for a b c :: int
  by (rule zdiv_mono1)

lemma within_step:
  assumes "usable s" "n < step_ops s"
  shows "n * second div st_OpsPerSec s < st_Duration s"
proof -
  let ?r = "st_OpsPerSec s" and ?d = "st_Duration s"
  have "(n + 1) * second \<le> ?r * ?d"
    using assms(2) by (simp add: step_ops_def second_def)
  hence "n * second < ?d * ?r"
    by (simp add: second_def algebra_simps)
  thus ?thesis
    using assms(1) by (simp add: div_less_iff_mult)
qed

section \<open>The ramp: segments and search\<close>

lemma step_ops_nonneg: "usable s \<Longrightarrow> 0 \<le> step_ops s"
  by (simp add: step_ops_def second_def pos_imp_zdiv_nonneg_iff)

lemma seg_scan_nth:
  "\<lbrakk>0 < j; j \<le> length segs; \<forall>k<j. sg_startCount (segs ! k) \<le> n;
    j < length segs \<longrightarrow> n < sg_startCount (segs ! j)\<rbrakk> \<Longrightarrow> seg_scan segs n = segs ! (j - 1)"
proof (induction segs n arbitrary: j rule: seg_scan.induct)
  case (1 s s' ss n)
  show ?case
  proof (cases "j = 1")
    case False
    then obtain i where j: "j = Suc i" "0 < i"
      using "1.prems"(1) by (cases j) auto
    hence "sg_startCount s' \<le> n"
      using "1.prems"(3) by (metis Suc_mono nth_Cons_0 nth_Cons_Suc)
    moreover have "seg_scan (s' # ss) n = (s' # ss) ! (i - 1)"
    proof (rule "1.IH")
      show "\<forall>k<i. sg_startCount ((s' # ss) ! k) \<le> n"
        using "1.prems"(3) j by (metis Suc_mono nth_Cons_Suc)
    qed (use "1.prems" j calculation in auto)
    ultimately show ?thesis
      using j by simp
  qed (use "1.prems" in simp)
qed (auto simp: hd_conv_nth)

lemma steps_within_nonneg:
  assumes "steps_within c t us"
  shows "0 \<le> sum_list (map step_ops us)" "0 \<le> sum_list (map st_Duration us)"
  using assms step_ops_nonneg
  by (auto simp: steps_within_def intro!: sum_list_nonneg) (meson order_less_imp_le)+

lemma steps_within_Cons:
  assumes "steps_within c t (s # us)"
  shows "steps_within (c + step_ops s) (t + st_Duration s) us"
    "opsInStep (st_OpsPerSec s) (st_Duration s) = step_ops s"
    "in64 (c + step_ops s)" "in64 (t + st_Duration s)" "in64 c" "in64 t"
proof -
  have s: "usable s" "rate_ok (st_OpsPerSec s)" "0 \<le> c" "0 \<le> t" "0 \<le> step_ops s"
    using assms step_ops_nonneg by (auto simp: steps_within_def)
  show w: "steps_within (c + step_ops s) (t + st_Duration s) us"
    using assms s by (auto simp: steps_within_def add.assoc)
  note nn = steps_within_nonneg [OF w]
  show "in64 (c + step_ops s)" "in64 (t + st_Duration s)" "in64 c" "in64 t"
    using assms s nn by (auto simp: steps_within_def in64_def)
  thus "opsInStep (st_OpsPerSec s) (st_Duration s) = step_ops s"
    using s by (intro opsInStep_val) (auto simp: in64_def)
qed

lemma ramp_segs_Cons:
  assumes "steps_within c t (s # us)"
  shows "ramp_segs c t (s # us) =
    \<lparr>sg_startCount = c, sg_startOffset = t, sg_rate = st_OpsPerSec s\<rparr> #
      ramp_segs (c + step_ops s) (t + st_Duration s) us"
proof -
  have "usable s"
    using assms by (simp add: steps_within_def)
  thus ?thesis
    using steps_within_Cons [OF assms] by auto
qed

lemma ramp_segs_usable: "ramp_segs c t steps = ramp_segs c t (filter usable steps)"
  by (induction c t steps rule: ramp_segs.induct) auto

declare ramp_segs.simps(2) [simp del]

lemma ramp_segs_sorted:
  "steps_within c t us \<Longrightarrow>
    sorted (map sg_startCount (ramp_segs c t us)) \<and> (\<forall>g\<in>set (ramp_segs c t us). c \<le> sg_startCount g)"
proof (induction us arbitrary: c t)
  case (Cons s us)
  have "0 \<le> step_ops s"
    using Cons.prems step_ops_nonneg by (simp add: steps_within_def)
  thus ?case
    using Cons.IH [OF steps_within_Cons(1) [OF Cons.prems]] ramp_segs_Cons [OF Cons.prems] by fastforce
qed simp

lemma seg_scan_ramp:
  assumes "us \<noteq> []" "steps_within c t us" "c \<le> n" "in64 n" "in64 (t + ramp_spec us (n - c))"
  shows "let seg = seg_scan (ramp_segs c t us) n
    in i64 (sg_startOffset seg + offsetFor (i64 (n - sg_startCount seg)) (sg_rate seg)) = t + ramp_spec us (n - c)"
  using assms
proof (induction us arbitrary: c t rule: induct_list012)
  case (2 s)
  have s: "rate_ok (st_OpsPerSec s)" "0 \<le> c" "0 \<le> t" "in64 (n - c)"
    using 2 by (auto simp: steps_within_def in64_def)
  moreover have "0 \<le> (n - c) * second div st_OpsPerSec s"
    using s 2 by (simp add: rate_ok_def pos_imp_zdiv_nonneg_iff second_def)
  ultimately show ?case
    using 2 ramp_segs_Cons [OF "2.prems"(2)] offsetFor_val [of "n - c" "st_OpsPerSec s"]
    by (simp add: Let_def in64_def)
next
  case (3 s s' us)
  note w = ramp_segs_Cons [OF "3.prems"(2)] steps_within_Cons [OF "3.prems"(2)]
  obtain g rest where g: "ramp_segs (c + step_ops s) (t + st_Duration s) (s' # us) = g # rest"
      "sg_startCount g = c + step_ops s"
    using ramp_segs_Cons [OF w(2)] by simp
  have s: "usable s" "rate_ok (st_OpsPerSec s)" "0 \<le> c" "0 \<le> t" "in64 (n - c)"
    using 3 by (auto simp: steps_within_def in64_def)
  show ?case
  proof (cases "n - c < step_ops s")
    case True
    have "(n - c) * second div st_OpsPerSec s < st_Duration s"
      using within_step [OF s(1) True] .
    moreover have "0 \<le> (n - c) * second div st_OpsPerSec s"
      using s 3 by (simp add: rate_ok_def pos_imp_zdiv_nonneg_iff second_def)
    moreover have "in64 (t + (n - c) * second div st_OpsPerSec s)"
      using calculation s(4) w(5) by (simp add: in64_def)
    ultimately show ?thesis
      using True s "3.prems"(3) w(1,5) g offsetFor_val [of "n - c" "st_OpsPerSec s"]
      by (simp add: Let_def in64_def)
  next
    case False
    have eq: "n - (c + step_ops s) = n - c - step_ops s"
      by simp
    show ?thesis
      using "3.IH"(2) [of "c + step_ops s" "t + st_Duration s"] False "3.prems"(3,4,5) w(1,2) g
      unfolding eq by (simp add: Let_def add.assoc)
  qed
qed simp

lemma offsetForIndex_ramp:
  assumes "us \<noteq> []" "steps_within 0 0 us" "0 \<le> n" "in64 n" "in64 (ramp_spec us n)"
  shows "offsetForIndex (ramp_segs 0 0 us) n = Some (ramp_spec us n)"
proof -
  let ?segs = "ramp_segs 0 0 us" and ?f = "\<lambda>k. sg_startCount (ramp_segs 0 0 us ! k) > n"
  let ?j = "sort_Search (length ?segs) ?f"
  have "sorted (map sg_startCount ?segs)"
    using ramp_segs_sorted [OF assms(2)] by simp
  hence "mono_below (length ?segs) ?f"
    unfolding mono_below_def sorted_iff_nth_mono by (auto intro: order_less_le_trans)
  note least = sort_Search_least [OF this]
  obtain s us' where us: "us = s # us'"
    using assms(1) by (cases us) auto
  have seg0: "\<not> ?f 0" "0 < length ?segs"
    using ramp_segs_Cons [of 0 0 s us'] assms(2,3) us by auto
  have "?j \<noteq> 0"
    using least(3) seg0 by (metis)
  moreover have "seg_scan ?segs n = ?segs ! (?j - 1)"
  proof (rule seg_scan_nth)
    show "\<forall>k<?j. sg_startCount (?segs ! k) \<le> n"
      using least(2) by force
  qed (use least(1,3) calculation in auto)
  ultimately show ?thesis
    using seg_scan_ramp [OF assms(1,2) _ assms(4), of] assms(3,5)
    by (simp add: offsetForIndex_def Let_def)
qed

lemma ramp_spec_nonneg: "\<forall>s\<in>set us. usable s \<Longrightarrow> 0 \<le> n \<Longrightarrow> 0 \<le> ramp_spec us n"
  by (induction us n rule: ramp_spec.induct)
    (auto simp: pos_imp_zdiv_nonneg_iff second_def intro!: add_nonneg_nonneg)

lemma ramp_spec_mono:
  "\<forall>s\<in>set us. usable s \<Longrightarrow> 0 \<le> m \<Longrightarrow> m \<le> n \<Longrightarrow> ramp_spec us m \<le> ramp_spec us n"
proof (induction us n arbitrary: m rule: ramp_spec.induct)
  case (2 s n)
  thus ?case
    by (simp add: zdiv_mono1 second_def)
next
  case (3 s s' ss n)
  show ?case
  proof (cases "m < step_ops s")
    case True
    have "m * second div st_OpsPerSec s \<le> n * second div st_OpsPerSec s"
      using 3 by (simp add: zdiv_mono1 second_def)
    moreover have "0 \<le> ramp_spec (s' # ss) (n - step_ops s)" if "step_ops s \<le> n"
      using 3 that by (intro ramp_spec_nonneg) auto
    ultimately show ?thesis
      using within_step [of s m] 3 True by fastforce
  next
    case False
    thus ?thesis
      using 3 by simp
  qed
qed simp

section \<open>The scheduler contract\<close>

text \<open>
  The contract a load generator relies on: for as many calls as are in range,
  \<open>Next\<close> returns, its answer does not depend on the clock (so a slow target cannot
  shift the schedule), and the intended times never go back.
\<close>

locale arrival_schedule =
  fixes nxt :: "instant \<Rightarrow> 's \<Rightarrow> (instant \<times> 's) option" and safe :: "nat \<Rightarrow> 's \<Rightarrow> bool"
  assumes nxt_returns: "safe (Suc k) s \<Longrightarrow> \<exists>t s'. nxt now s = Some (t, s') \<and> safe k s'"
    and nxt_clock: "safe (Suc k) s \<Longrightarrow> nxt now s = nxt now' s"
    and nxt_mono: "\<lbrakk>safe (Suc (Suc k)) s; nxt now s = Some (t, s'); nxt now' s' = Some (t', s'')\<rbrakk> \<Longrightarrow> t \<le> t'"
begin

lemma run_returns: "safe (length es) s \<Longrightarrow> \<exists>ts s'. sched_run nxt es s = Some (ts, s') \<and> length ts = length es"
proof (induction es arbitrary: s)
  case (Cons e es)
  then obtain t s' where "nxt e s = Some (t, s')" "safe (length es) s'"
    using nxt_returns [of "length es" s e] by auto
  thus ?case
    using Cons.IH [of s'] by auto
qed simp

lemma run_clock: "safe (length es) s \<Longrightarrow> length es = length es' \<Longrightarrow> sched_run nxt es s = sched_run nxt es' s"
proof (induction es arbitrary: s es')
  case (Cons e es)
  then obtain e' es1 where es': "es' = e' # es1" "length es = length es1"
    by (cases es') auto
  obtain t s' where n: "nxt e s = Some (t, s')" "safe (length es) s'"
    using nxt_returns [of "length es" s e] Cons.prems by auto
  moreover have "nxt e' s = Some (t, s')"
    using nxt_clock [of "length es" s e' e] Cons.prems n by simp
  ultimately show ?case
    using Cons.IH [of s' es1] es' by simp
qed simp

lemma run_sorted: "safe (length es) s \<Longrightarrow> sched_run nxt es s = Some (ts, s') \<Longrightarrow> sorted ts"
proof (induction es arbitrary: s ts)
  case (Cons e es)
  then obtain t s1 where n: "nxt e s = Some (t, s1)" "safe (length es) s1"
    using nxt_returns [of "length es" s e] by auto
  then obtain ts1 where r: "sched_run nxt es s1 = Some (ts1, s')" "ts = t # ts1"
    using Cons.prems(2) by auto
  have "sorted ts1"
    using Cons.IH n r by blast
  moreover have "t \<le> hd ts1" if ne: "ts1 \<noteq> []"
  proof (cases es)
    case (Cons e2 es2)
    then obtain t2 s2 where "nxt e2 s1 = Some (t2, s2)" "hd ts1 = t2"
      using r(1) by (auto split: option.splits)
    thus ?thesis
      using nxt_mono [of "length es2" s e t s1 e2] n Cons.prems(1) Cons by simp
  qed (use r ne in simp)
  ultimately show ?case
    using r(2) by (cases ts1) auto
qed simp

end

lemma openLoop_Next_val:
  assumes "openLoop_safe (Suc k) o1"
  shows "openLoop_Next now o1 =
    (ol_start o1 + ol_n o1 * second div ol_ops o1, o1\<lparr>ol_n := ol_n o1 + 1\<rparr>)"
proof -
  have o: "0 < ol_ops o1" "0 \<le> ol_n o1" "in64 (ol_n o1 + 1)" "in64 (ol_n o1)"
    using assms by (auto simp: openLoop_safe_def rate_ok_def in64_def)
  have "ol_n o1 * second div ol_ops o1 \<le> (ol_n o1 + int (Suc k)) * second div ol_ops o1"
    using o by (intro zdiv_mono1) (auto simp: second_def)
  hence "offsetFor (ol_n o1) (ol_ops o1) = ol_n o1 * second div ol_ops o1"
    using assms by (intro offsetFor_val) (auto simp: openLoop_safe_def in64_def)
  thus ?thesis
    using o by (simp add: openLoop_Next_def)
qed

lemma openLoop_safe_step:
  assumes "openLoop_safe (Suc k) o1"
  shows "openLoop_safe k (o1\<lparr>ol_n := ol_n o1 + 1\<rparr>)"
  using assms by (simp add: openLoop_safe_def add.assoc)

interpretation ol: arrival_schedule "\<lambda>now o1. Some (openLoop_Next now o1)" openLoop_safe
proof (unfold_locales, goal_cases)
  case (1 k s now)
  thus ?case
    using openLoop_Next_val openLoop_safe_step by fastforce
next
  case (2 k s now now')
  thus ?case
    using openLoop_Next_val by simp
next
  case (3 k s now t s' now' t' s'')
  have s: "t = ol_start s + ol_n s * second div ol_ops s" "s' = s\<lparr>ol_n := ol_n s + 1\<rparr>"
    using 3 openLoop_Next_val by auto
  hence "t' = ol_start s + (ol_n s + 1) * second div ol_ops s"
    using 3 openLoop_Next_val openLoop_safe_step by fastforce
  moreover have "ol_n s * second div ol_ops s \<le> (ol_n s + 1) * second div ol_ops s"
    using 3 by (intro zdiv_mono1) (auto simp: openLoop_safe_def rate_ok_def second_def)
  ultimately show ?case
    using s by simp
qed

lemma ramp_ok_usable: "ramp_ok us k r \<Longrightarrow> \<forall>s\<in>set us. usable s"
  by (simp add: ramp_ok_def steps_within_def)

lemma ramp_ok_step:
  assumes "ramp_ok us (Suc k) r"
  shows "ramp_Next now r = Some (rp_start r + ramp_spec us (rp_n r), r\<lparr>rp_n := rp_n r + 1\<rparr>)"
    "ramp_ok us k (r\<lparr>rp_n := rp_n r + 1\<rparr>)"
proof -
  have us: "us \<noteq> []" "steps_within 0 0 us" "rp_segs r = ramp_segs 0 0 us" "0 \<le> rp_n r"
      "in64 (rp_n r + int (Suc k))" "in64 (ramp_spec us (rp_n r + int (Suc k)))"
    using assms unfolding ramp_ok_def by blast+
  note u = ramp_ok_usable [OF assms]
  have n: "in64 (rp_n r)" "in64 (rp_n r + 1)"
    using us(4,5) by (auto simp: in64_def)
  have "0 \<le> ramp_spec us (rp_n r)" "ramp_spec us (rp_n r) \<le> ramp_spec us (rp_n r + int (Suc k))"
    using ramp_spec_nonneg [OF u us(4)] ramp_spec_mono [OF u us(4)] by simp_all
  hence "in64 (ramp_spec us (rp_n r))"
    using us(6) by (simp add: in64_def)
  thus "ramp_Next now r = Some (rp_start r + ramp_spec us (rp_n r), r\<lparr>rp_n := rp_n r + 1\<rparr>)"
    using n us offsetForIndex_ramp by (simp add: ramp_Next_def Let_def)
  show "ramp_ok us k (r\<lparr>rp_n := rp_n r + 1\<rparr>)"
    using us by (simp add: ramp_ok_def add.assoc)
qed

interpretation rp: arrival_schedule ramp_Next ramp_safe
proof (unfold_locales, goal_cases)
  case (1 k s now)
  thus ?case
    unfolding ramp_safe_def using ramp_ok_step by blast
next
  case (2 k s now now')
  thus ?case
    unfolding ramp_safe_def using ramp_ok_step(1) by metis
next
  case (3 k s now t s' now' t' s'')
  then obtain us where us: "ramp_ok us (Suc (Suc k)) s"
    unfolding ramp_safe_def by blast
  have s': "s' = s\<lparr>rp_n := rp_n s + 1\<rparr>" "t = rp_start s + ramp_spec us (rp_n s)"
    using 3(2) ramp_ok_step(1) [OF us] by auto
  hence "t' = rp_start s + ramp_spec us (rp_n s + 1)"
    using 3(3) ramp_ok_step(1) [OF ramp_ok_step(2) [OF us]] by auto
  moreover have "ramp_spec us (rp_n s) \<le> ramp_spec us (rp_n s + 1)"
    using us by (intro ramp_spec_mono ramp_ok_usable [OF us]) (auto simp: ramp_ok_def)
  ultimately show ?case
    using s' by simp
qed

lemma poisson_gap_nonneg: "poisson_safe k p \<Longrightarrow> 0 \<le> poisson_gap p i"
proof -
  assume "poisson_safe k p"
  hence "0 \<le> po_rng p i / po_lambda p * of_int second"
    by (simp add: poisson_safe_def second_def)
  thus "0 \<le> poisson_gap p i"
    by (simp add: poisson_gap_def rat_trunc_def)
qed

lemma poisson_Next_val:
  assumes "poisson_safe (Suc k) p"
  shows "poisson_Next now p =
      (po_start p + (po_cum p + poisson_gap p (po_pos p)),
       p\<lparr>po_cum := po_cum p + poisson_gap p (po_pos p), po_pos := Suc (po_pos p)\<rparr>)"
    "poisson_safe k (p\<lparr>po_cum := po_cum p + poisson_gap p (po_pos p), po_pos := Suc (po_pos p)\<rparr>)"
proof -
  let ?p' = "p\<lparr>po_cum := po_cum p + poisson_gap p (po_pos p), po_pos := Suc (po_pos p)\<rparr>"
  note nn = poisson_gap_nonneg [OF assms]
  have g: "poisson_gap ?p' i = poisson_gap p i" for i
    by (simp add: poisson_gap_def)
  have s: "(\<Sum>i<Suc k. poisson_gap p (po_pos p + i)) =
      poisson_gap p (po_pos p) + (\<Sum>i<k. poisson_gap p (Suc (po_pos p) + i))"
    by (subst sum.lessThan_Suc_shift) simp
  have "0 \<le> (\<Sum>i<k. poisson_gap p (Suc (po_pos p) + i))"
    using nn by (simp add: sum_nonneg)
  hence "in64 (poisson_gap p (po_pos p))" "in64 (po_cum p + poisson_gap p (po_pos p))"
    using assms nn [of "po_pos p"] unfolding poisson_safe_def s by (auto simp: in64_def)
  thus "poisson_Next now p = (po_start p + (po_cum p + poisson_gap p (po_pos p)), ?p')"
    unfolding poisson_Next_def Let_def poisson_gap_def [symmetric] by simp
  show "poisson_safe k ?p'"
    using assms nn [of "po_pos p"] unfolding poisson_safe_def s g by (simp add: add.assoc)
qed

interpretation po: arrival_schedule "\<lambda>now p. Some (poisson_Next now p)" poisson_safe
proof (unfold_locales, goal_cases)
  case (1 k s now)
  thus ?case
    using poisson_Next_val by fastforce
next
  case (2 k s now now')
  thus ?case
    using poisson_Next_val(1) by simp
next
  case (3 k s now t s' now' t' s'')
  have s': "s' = s\<lparr>po_cum := po_cum s + poisson_gap s (po_pos s), po_pos := Suc (po_pos s)\<rparr>"
      "t = po_start s + (po_cum s + poisson_gap s (po_pos s))"
    using 3(2) poisson_Next_val(1) [OF 3(1)] by auto
  have "t' = po_start s' + (po_cum s' + poisson_gap s' (po_pos s'))" "0 \<le> poisson_gap s' (po_pos s')"
    using 3(3) poisson_Next_val [OF 3(1)] poisson_Next_val(1) [of k s'] poisson_gap_nonneg s' by auto
  thus ?case
    using s' by simp
qed

lemma map_prod_eq_iff: "map_prod id c x = (t, y) \<longleftrightarrow> (\<exists>z. x = (t, z) \<and> y = c z)"
  by (cases x) auto

text \<open>The contract for the scheduler the command line hands to the runner.\<close>

interpretation sched: arrival_schedule sched_Next sched_safe
proof (unfold_locales, goal_cases)
  case (1 k s now)
  thus ?case
  proof (cases s)
    case (Ramp r)
    thus ?thesis
      using rp.nxt_returns [of k r now] 1 by auto
  qed (use ol.nxt_returns [of k _ now] po.nxt_returns [of k _ now] in fastforce)+
next
  case (2 k s now now')
  thus ?case
    using ol.nxt_clock [of k _ now now'] rp.nxt_clock [of k _ now now'] po.nxt_clock [of k _ now now']
    by (cases s) auto
next
  case (3 k s now t s' now' t' s'')
  show ?case
  proof (cases s)
    case (OpenLoop o1)
    then obtain o2 o3 where "openLoop_Next now o1 = (t, o2)" "openLoop_Next now' o2 = (t', o3)"
      using 3 by (auto simp: map_prod_eq_iff)
    thus ?thesis
      using ol.nxt_mono [of k o1 now t o2 now' t' o3] 3(1) OpenLoop by simp
  next
    case (Ramp r1)
    then obtain r2 r3 where "ramp_Next now r1 = Some (t, r2)" "ramp_Next now' r2 = Some (t', r3)"
      using 3 by (auto simp: map_prod_eq_iff)
    thus ?thesis
      using rp.nxt_mono [of k r1 now t r2 now' t' r3] 3(1) Ramp by simp
  next
    case (Poisson p1)
    then obtain p2 p3 where "poisson_Next now p1 = (t, p2)" "poisson_Next now' p2 = (t', p3)"
      using 3 by (auto simp: map_prod_eq_iff)
    thus ?thesis
      using po.nxt_mono [of k p1 now t p2 now' t' p3] 3(1) Poisson by simp
  qed (use 3 in simp)
qed

lemma openLoop_run:
  "openLoop_safe (length nows) o1 \<Longrightarrow>
    sched_run sched_Next nows (OpenLoop o1) =
      Some (map (\<lambda>i. ol_start o1 + (ol_n o1 + int i) * second div ol_ops o1) [0..<length nows],
            OpenLoop (o1\<lparr>ol_n := ol_n o1 + int (length nows)\<rparr>))"
proof (induction nows arbitrary: o1)
  case (Cons now nows)
  let ?o = "o1\<lparr>ol_n := ol_n o1 + 1\<rparr>"
  have safe: "openLoop_safe (Suc (length nows)) o1"
    using Cons.prems by simp
  have "map (\<lambda>i. ol_start o1 + (ol_n o1 + int i) * second div ol_ops o1) [0..<Suc (length nows)] =
      (ol_start o1 + ol_n o1 * second div ol_ops o1) #
        map (\<lambda>i. ol_start o1 + (ol_n o1 + 1 + int i) * second div ol_ops o1) [0..<length nows]"
    unfolding map_upt_Suc by (simp add: add.assoc)
  thus ?case
    using Cons.IH [OF openLoop_safe_step [OF safe]] openLoop_Next_val [OF safe]
    by (simp add: add.assoc add.commute del: upt_Suc)
qed simp

lemma ramp_run:
  "ramp_ok us (length nows) r \<Longrightarrow>
    sched_run sched_Next nows (Ramp r) =
      Some (map (\<lambda>i. rp_start r + ramp_spec us (rp_n r + int i)) [0..<length nows],
            Ramp (r\<lparr>rp_n := rp_n r + int (length nows)\<rparr>))"
proof (induction nows arbitrary: r)
  case (Cons now nows)
  have ok: "ramp_ok us (Suc (length nows)) r"
    using Cons.prems by simp
  have "map (\<lambda>i. rp_start r + ramp_spec us (rp_n r + int i)) [0..<Suc (length nows)] =
      (rp_start r + ramp_spec us (rp_n r)) #
        map (\<lambda>i. rp_start r + ramp_spec us (rp_n r + 1 + int i)) [0..<length nows]"
    unfolding map_upt_Suc by (simp add: add.assoc)
  thus ?case
    using Cons.IH [OF ramp_ok_step(2) [OF ok]] ramp_ok_step(1) [OF ok]
    by (simp add: add.assoc add.commute del: upt_Suc)
qed simp

lemma index_times_strict:
  assumes "0 < ops"
  shows "ops \<le> second \<longrightarrow> sorted_wrt (<) (map (\<lambda>i. start + int i * second div ops) [0..<k])"
proof
  assume le: "ops \<le> second"
  have "int i * second div ops < int j * second div ops" if "i < j" for i j
  proof -
    have "int i * second div ops + 1 = (int i * second + ops) div ops"
      using assms by simp
    also have "\<dots> \<le> int j * second div ops"
      using assms le that by (intro zdiv_mono1) (auto simp: second_def)
    finally show ?thesis
      by simp
  qed
  thus "sorted_wrt (<) (map (\<lambda>i. start + int i * second div ops) [0..<k])"
    by (simp add: sorted_wrt_iff_nth_less)
qed

lemma linear_rate:
  assumes "2 \<le> nsteps" "from \<le> to" "in64 from" "in64 to" "in64 ((to - from) * (nsteps - 1))" "i < nat nsteps"
  shows "i64 (from + i64 (i64 (to - from) * int i) sdiv (nsteps - 1)) =
    from + (to - from) * int i div (nsteps - 1)"
proof -
  have m: "(to - from) * int i \<le> (to - from) * (nsteps - 1)" "0 \<le> (to - from) * int i"
    using assms by (auto intro!: mult_left_mono)
  have "to - from \<le> (to - from) * (nsteps - 1)"
    using assms mult_left_mono [of 1 "nsteps - 1" "to - from"] by simp
  hence "in64 (to - from)" "in64 ((to - from) * int i)"
    using in64_nonneg [OF _ _ assms(5)] m assms(2) by simp_all
  moreover have "(to - from) * int i div (nsteps - 1) \<le> to - from" "0 \<le> (to - from) * int i div (nsteps - 1)"
    using m assms(1) zdiv_mono1 [OF m(1), of "nsteps - 1"] by (auto simp: pos_imp_zdiv_nonneg_iff)
  hence "in64 (from + (to - from) * int i div (nsteps - 1))"
    using assms by (auto simp: in64_def)
  ultimately show ?thesis
    using m assms(1) by (simp add: sdiv_nonneg)
qed

section \<open>Properties\<close>

text \<open>C2: For every rate up to 9223372036 operations per second and every index whose
  offset fits a \<open>time.Duration\<close>, the split computation of \<open>offsetFor\<close> does not overflow and
  returns exactly the floor of \<open>n/\<lambda>\<close> in nanoseconds.\<close>

theorem offsetFor_exact:
  assumes "rate_ok ops" "0 \<le> n" "in64 (n * second div ops)"
  shows "offsetFor n ops = n * second div ops \<and>
    (of_int (offsetFor n ops) :: rat) \<le> of_int (n * second) / of_int ops \<and>
    (of_int (n * second) / of_int ops :: rat) < of_int (offsetFor n ops) + 1"
proof -
  have v: "offsetFor n ops = n * second div ops"
    using assms by (intro offsetFor_val) (auto simp: in64_def)
  show ?thesis
    using floor_correct [of "of_int (n * second) / (of_int ops :: rat)"] v
    unfolding floor_divide_of_int_eq by simp
qed

theorem offsetFor_exact_witness: "offsetFor 1000001 3 = 333333666666666 \<and> rate_ok 3"
  using offsetFor_exact [of 3 1000001] by (simp add: rate_ok_def second_def in64_def)

text \<open>An open-loop scheduler hands the n-th caller exactly \<open>start + n/\<lambda>\<close>, whatever the
  clock reads at each call: the schedule is fixed in advance (no coordinated omission),
  every index is handed out once, and up to one operation per nanosecond the
  intended times are strictly increasing.\<close>

lemma openLoop_intended_times:
  assumes "rs_Mode rate = RateFixed" "rate_ok (rs_OpsPerSec rate)" "in64 (int (length nows) * second)"
  shows "\<exists>s' ts. sched_run sched_Next nows (NewOpenLoop start rate) = Some (ts, s') \<and>
      ts = map (\<lambda>i. start + int i * second div rs_OpsPerSec rate) [0..<length nows] \<and>
      (rs_OpsPerSec rate \<le> second \<longrightarrow> sorted_wrt (<) ts)"
proof -
  let ?ops = "rs_OpsPerSec rate"
  let ?o = "\<lparr>ol_start = start, ol_ops = ?ops, ol_n = 0\<rparr>"
  have ops: "0 < ?ops"
    using assms(2) by (simp add: rate_ok_def)
  have "0 \<le> int (length nows) * second" "int (length nows) \<le> int (length nows) * second"
    by (auto simp: second_def)
  hence "openLoop_safe (length nows) ?o"
    using assms(2,3) ops div_le_self [of "int (length nows) * second" ?ops]
      pos_imp_zdiv_nonneg_iff [of ?ops "int (length nows) * second"]
    by (auto simp: openLoop_safe_def in64_def)
  thus ?thesis
    using openLoop_run [of nows ?o] assms(1) ops index_times_strict [OF ops, of start "length nows"]
    by (simp add: NewOpenLoop_def)
qed

text \<open>C3: The precomputed segments and the binary search of the ramp scheduler compute the
  same intended offset as walking the usable steps one after the other; the
  lookup never indexes outside the segments.\<close>

theorem ramp_offset_reference:
  assumes "filter usable steps \<noteq> []" "steps_within 0 0 (filter usable steps)" "0 \<le> n" "in64 n"
    "in64 (ramp_spec (filter usable steps) n)"
  shows "offsetForIndex (ramp_segs 0 0 steps) n = Some (ramp_spec (filter usable steps) n)"
  using offsetForIndex_ramp [OF assms] ramp_segs_usable [of 0 0 steps] by simp

theorem ramp_offset_reference_witness:
  "offsetForIndex (ramp_segs 0 0
      [\<lparr>st_OpsPerSec = 2, st_Duration = 1500000000\<rparr>, \<lparr>st_OpsPerSec = 0, st_Duration = 9\<rparr>,
       \<lparr>st_OpsPerSec = 10, st_Duration = 1000000000\<rparr>]) 5 = Some 1700000000"
  using ramp_offset_reference [of "[\<lparr>st_OpsPerSec = 2, st_Duration = 1500000000\<rparr>,
      \<lparr>st_OpsPerSec = 0, st_Duration = 9\<rparr>, \<lparr>st_OpsPerSec = 10, st_Duration = 1000000000\<rparr>]" 5]
  by (simp add: steps_within_def rate_ok_def in64_def step_ops_def second_def)

text \<open>A ramp hands out \<open>start\<close> plus the reference offset of each index in turn,
  independently of the clock readings, and the intended times never decrease,
  across step boundaries included.\<close>

lemma ramp_intended_times:
  assumes "filter usable steps \<noteq> []" "steps_within 0 0 (filter usable steps)"
    "in64 (int (length nows))" "in64 (ramp_spec (filter usable steps) (int (length nows)))"
  shows "\<exists>s' ts. sched_run sched_Next nows (NewRamp start steps) = Some (ts, s') \<and>
      ts = map (\<lambda>i. start + ramp_spec (filter usable steps) (int i)) [0..<length nows] \<and> sorted ts"
proof -
  let ?r = "\<lparr>rp_start = start, rp_segs = ramp_segs 0 0 steps, rp_n = 0\<rparr>"
  have ok: "ramp_ok (filter usable steps) (length nows) ?r"
    using assms ramp_segs_usable [of 0 0 steps] by (simp add: ramp_ok_def)
  obtain s us where us: "filter usable steps = s # us"
    using assms(1) by (cases "filter usable steps") auto
  have "ramp_segs 0 0 (filter usable steps) \<noteq> []"
    using ramp_segs_Cons [of 0 0 s us] assms(2) unfolding us by simp
  hence "NewRamp start steps = Ramp ?r"
    using ramp_segs_usable [of 0 0 steps] by (simp add: NewRamp_def)
  moreover have "sched_safe (length nows) (Ramp ?r)"
    using ok by (auto simp: ramp_safe_def)
  ultimately show ?thesis
    using ramp_run [OF ok] sched.run_sorted [of nows "Ramp ?r"] by simp
qed

text \<open>The linear ramp starts exactly at \<open>from\<close>, ends exactly at \<open>to\<close>, stays between
  them, and its rates never decrease when \<open>from \<le> to\<close>.\<close>

lemma linear_steps_interpolate:
  assumes "2 \<le> nsteps" "from \<le> to" "in64 from" "in64 to" "in64 ((to - from) * (nsteps - 1))"
  shows "length (linear_steps from to nsteps each) = nat nsteps \<and>
    st_OpsPerSec (hd (linear_steps from to nsteps each)) = from \<and>
    st_OpsPerSec (last (linear_steps from to nsteps each)) = to \<and>
    sorted (map st_OpsPerSec (linear_steps from to nsteps each)) \<and>
    (\<forall>s\<in>set (linear_steps from to nsteps each). st_Duration s = each \<and>
        from \<le> st_OpsPerSec s \<and> st_OpsPerSec s \<le> to)"
proof -
  let ?rate = "\<lambda>i. from + (to - from) * int i div (nsteps - 1)"
  have eq: "linear_steps from to nsteps each =
      map (\<lambda>i. \<lparr>st_OpsPerSec = ?rate i, st_Duration = each\<rparr>) [0..<nat nsteps]"
    using linear_rate [OF assms] assms(1) by (simp add: linear_steps_def)
  have mono: "?rate i \<le> ?rate j" if "i \<le> j" for i j
    using assms that by (simp add: zdiv_mono1 mult_left_mono)
  have r0: "?rate 0 = from" and rl: "?rate (nat nsteps - 1) = to"
    using assms(1) by (simp_all add: of_nat_diff)
  have "from \<le> ?rate i \<and> ?rate i \<le> to" if "i < nat nsteps" for i
    using mono [of 0 i] mono [of i "nat nsteps - 1"] that unfolding r0 rl by simp
  moreover have "sorted (map ?rate [0..<nat nsteps])"
    using mono by (simp add: sorted_iff_nth_mono)
  ultimately show ?thesis
    using r0 rl assms(1) unfolding eq by (auto simp: hd_map last_map comp_def)
qed

end
