(* ===== verification/Go_Rand.thy ===== *)
theory Go_Rand
  imports Prelude
begin

text \<open>
  The parts of Go's \<open>math/rand/v2\<close> that the sources call: the PCG-DXSM generator,
  \<open>Rand.IntN\<close> and \<open>Rand.Int64N\<close> with their rejection loops, and the little-endian
  word encoding of \<open>encoding/binary\<close>. The rejection loop is a partial function;
  that it always returns is proved from the full period of the generator.
\<close>

unbundle bit_operations_syntax

section \<open>The PCG-DXSM generator\<close>

type_synonym pcg = "128 word"

definition pcg_mul :: int where
  "pcg_mul = 47026247687942121848144207491837523525"

definition pcg_inc :: int where
  "pcg_inc = 117397592171526113268558934119004209487"

definition NewPCG :: "u64 \<Rightarrow> u64 \<Rightarrow> pcg" where
  "NewPCG seed1 seed2 = word_of_int (uint seed1 * 18446744073709551616 + uint seed2)"

definition pcg_next :: "pcg \<Rightarrow> pcg" where
  "pcg_next s = s * word_of_int pcg_mul + word_of_int pcg_inc"

definition pcg_hi :: "pcg \<Rightarrow> u64" where
  "pcg_hi s = word_of_int (uint s div 18446744073709551616)"

definition pcg_lo :: "pcg \<Rightarrow> u64" where
  "pcg_lo s = word_of_int (uint s)"

definition dxsm :: "u64 \<Rightarrow> u64 \<Rightarrow> u64" where
  "dxsm hi0 lo =
     (let hi1 = hi0 XOR drop_bit 32 hi0;
          hi2 = hi1 * 0xda942042e4dd58b5;
          hi3 = hi2 XOR drop_bit 48 hi2
      in hi3 * (lo OR 1))"

definition pcg_Uint64 :: "pcg \<Rightarrow> u64 \<times> pcg" where
  "pcg_Uint64 s = (let s' = pcg_next s in (dxsm (pcg_hi s') (pcg_lo s'), s'))"

section \<open>Bounded draws\<close>

definition mul64_hi :: "u64 \<Rightarrow> u64 \<Rightarrow> u64" where
  "mul64_hi u n = word_of_int ((uint u * uint n) div 18446744073709551616)"

partial_function (option) uint64n_loop :: "u64 \<Rightarrow> u64 \<Rightarrow> u64 \<Rightarrow> pcg \<Rightarrow> (u64 \<times> pcg) option" where
  "uint64n_loop n thresh u s =
     (if u * n < thresh then (let (u', s') = pcg_Uint64 s in uint64n_loop n thresh u' s')
      else Some (mul64_hi u n, s))"

definition u32_of :: "u64 \<Rightarrow> 32 word" where
  "u32_of u = ucast (drop_bit 32 u)"

partial_function (option) uint32n_loop :: "32 word \<Rightarrow> 32 word \<Rightarrow> u64 \<Rightarrow> pcg \<Rightarrow> (32 word \<times> pcg) option" where
  "uint32n_loop n thresh prd s =
     (if (ucast prd :: 32 word) < thresh
      then (let (u', s') = pcg_Uint64 s in uint32n_loop n thresh (ucast (u32_of u') * ucast n) s')
      else Some (u32_of prd, s))"

definition uint32n :: "32 word \<Rightarrow> pcg \<Rightarrow> (32 word \<times> pcg) option" where
  "uint32n n s =
     (let (u, s1) = pcg_Uint64 s in
      if n AND (n - 1) = 0 then Some (ucast u AND (n - 1), s1)
      else let prd = ucast (u32_of u) * ucast n :: u64 in
           if (ucast prd :: 32 word) < n then uint32n_loop n ((- n) mod n) prd s1
           else Some (u32_of prd, s1))"

definition uint64n :: "u64 \<Rightarrow> pcg \<Rightarrow> (u64 \<times> pcg) option" where
  "uint64n n s =
     (if (ucast (ucast n :: 32 word) :: u64) = n
      then map_option (map_prod ucast id) (uint32n (ucast n) s)
      else let (u, s1) = pcg_Uint64 s in
           if n AND (n - 1) = 0 then Some (u AND (n - 1), s1)
           else if u * n < n then uint64n_loop n ((- n) mod n) u s1
           else Some (mul64_hi u n, s1))"

text \<open>\<open>Rand.IntN\<close> and \<open>Rand.Int64N\<close>; \<^const>\<open>None\<close> is their panic on a bound that is not positive.\<close>

definition Int64N :: "int \<Rightarrow> pcg \<Rightarrow> (int \<times> pcg) option" where
  "Int64N n s = (if n \<le> 0 then None else map_option (map_prod sint id) (uint64n (word_of_int n) s))"

definition IntN :: "int \<Rightarrow> pcg \<Rightarrow> (int \<times> pcg) option" where
  "IntN n s = Int64N n s"

section \<open>Little-endian words\<close>

definition PutUint64_LE :: "u64 \<Rightarrow> u8 list" where
  "PutUint64_LE v = map (\<lambda>i. ucast (drop_bit (8 * i) v)) [0..<8]"

lemma length_PutUint64_LE [simp]: "length (PutUint64_LE v) = 8"
  by (simp add: PutUint64_LE_def)

section \<open>Full period of the generator\<close>

text \<open>
  A linear congruential map \<open>x \<mapsto> a x + c\<close> with \<open>a \<equiv> 1 (mod 4)\<close> and odd \<open>c\<close> runs
  through every residue of every power of two.
\<close>

lemma affine_power:
  fixes a c :: int
  assumes "4 dvd a - 1" "odd c"
  shows "\<exists>A C. (\<forall>x. ((\<lambda>x. a * x + c) ^^ (2 ^ k)) x = A * x + C) \<and> 2 ^ (k + 2) dvd A - 1 \<and> (\<exists>d. odd d \<and> C = 2 ^ k * d)"
proof (induction k)
  case 0
  show ?case
    using assms by (intro exI [of _ a] exI [of _ c]) auto
next
  case (Suc k)
  then obtain A C d where AC: "\<forall>x. ((\<lambda>x. a * x + c) ^^ (2 ^ k)) x = A * x + C" "2 ^ (k + 2) dvd A - 1"
      "odd d" "C = 2 ^ k * d"
    by blast
  obtain e where e: "A = 1 + 2 ^ (k + 2) * e"
    using AC(2) by (metis add.commute diff_add_cancel dvdE)
  have it: "((\<lambda>x. a * x + c) ^^ (2 ^ Suc k)) x = (A * A) * x + (A * C + C)" for x
    using AC(1) by (simp add: mult_2 funpow_add algebra_simps)
  have sq: "A * A - 1 = 2 ^ (Suc k + 2) * (e * (1 + 2 ^ (k + 1) * e))"
    unfolding e by (simp add: algebra_simps power_add)
  have cc: "A * C + C = 2 ^ Suc k * ((1 + 2 ^ (k + 1) * e) * d)"
    unfolding e AC(4) by (simp add: algebra_simps power_add)
  show ?case
  proof (intro exI conjI allI)
    show "2 ^ (Suc k + 2) dvd A * A - 1"
      unfolding sq by simp
    show "odd ((1 + 2 ^ (k + 1) * e) * d)"
      using AC(3) by simp
  qed (rule it cc)+
qed

lemma affine_full_period:
  fixes a c x y :: int
  assumes "4 dvd a - 1" "odd c"
  shows "\<exists>j. 2 ^ k dvd ((\<lambda>x. a * x + c) ^^ j) x - y"
proof (induction k)
  case (Suc k)
  let ?f = "\<lambda>x. a * x + c"
  obtain j q where j: "(?f ^^ j) x - y = 2 ^ k * q"
    using Suc by (metis dvdE)
  show ?case
  proof (cases "even q")
    case True
    thus ?thesis
      using j by (intro exI [of _ j]) auto
  next
    case False
    obtain A C d where AC: "\<forall>x. (?f ^^ (2 ^ k)) x = A * x + C" "2 ^ (k + 2) dvd A - 1" "odd d" "C = 2 ^ k * d"
      using affine_power [OF assms, of k] by blast
    obtain e where e: "A = 1 + 2 ^ (k + 2) * e"
      using AC(2) by (metis add.commute diff_add_cancel dvdE)
    have "(?f ^^ (2 ^ k + j)) x - y = 2 ^ k * (q + d + 4 * (e * (?f ^^ j) x))"
      using AC(1,4) j unfolding funpow_add e by (simp add: algebra_simps)
    moreover have "even (q + d + 4 * (e * (?f ^^ j) x))"
      using False AC(3) by simp
    ultimately have "2 ^ Suc k dvd (?f ^^ (2 ^ k + j)) x - y"
      by (auto elim!: evenE)
    thus ?thesis ..
  qed
qed simp

lemma pcg_next_iterate: "(pcg_next ^^ j) s = word_of_int (((\<lambda>x. pcg_mul * x + pcg_inc) ^^ j) (uint s))"
proof (induction j)
  case (Suc j)
  have "(pcg_next ^^ Suc j) s = pcg_next (word_of_int (((\<lambda>x. pcg_mul * x + pcg_inc) ^^ j) (uint s)))"
    using Suc by simp
  also have "\<dots> = word_of_int (((\<lambda>x. pcg_mul * x + pcg_inc) ^^ Suc j) (uint s))"
    by (simp add: pcg_next_def mult.commute)
  finally show ?case .
qed simp

lemma pcg_full_period: "\<exists>j. (pcg_next ^^ j) s = t"
proof -
  have "4 dvd pcg_mul - 1" "odd pcg_inc"
    by (simp_all add: pcg_mul_def pcg_inc_def)
  then obtain j where "2 ^ 128 dvd ((\<lambda>x. pcg_mul * x + pcg_inc) ^^ j) (uint s) - uint t"
    using affine_full_period by blast
  hence "(word_of_int (((\<lambda>x. pcg_mul * x + pcg_inc) ^^ j) (uint s)) :: pcg) = word_of_int (uint t)"
    unfolding word_of_int_eq_iff by (simp add: take_bit_eq_mod mod_eq_dvd_iff)
  thus ?thesis
    using pcg_next_iterate by (metis word_of_int_uint)
qed

text \<open>A state whose output has every bit set, which no rejection loop rejects.\<close>

lemma pcg_all_ones: "dxsm (pcg_hi 152843920311092531290264562735106752512)
    (pcg_lo 152843920311092531290264562735106752512) = - 1"
  by (simp add: dxsm_def pcg_hi_def pcg_lo_def Let_def)

section \<open>The bounded draws return a value in range\<close>

definition pcg_ones :: pcg where
  "pcg_ones = 152843920311092531290264562735106752512"

lemma pcg_Uint64_ones: "pcg_next s = pcg_ones \<Longrightarrow> pcg_Uint64 s = (- 1, pcg_ones)"
  using pcg_all_ones by (simp add: pcg_Uint64_def pcg_ones_def)

lemma pcg_reaches_ones: "\<exists>j. (pcg_next ^^ Suc j) s = pcg_ones"
  using pcg_full_period [of "pcg_next s" pcg_ones] by (simp add: funpow_swap1)

lemma word_mod_le_self: "a mod b \<le> a" for a b :: "'a::len word"
  by (simp add: word_le_nat_alt unat_mod_distrib)

lemma mul64_hi_less: "n \<noteq> 0 \<Longrightarrow> mul64_hi u n < n"
proof -
  assume "n \<noteq> 0"
  hence n: "0 < uint n"
    by (simp add: word_neq_0_conv word_less_def)
  have u: "0 \<le> uint u" "uint u < 18446744073709551616" and n64: "uint n < 18446744073709551616"
    using uint_lt2p [of u] uint_lt2p [of n] by simp_all
  have "uint u * uint n < uint n * 18446744073709551616"
    using n u by (simp add: mult.commute)
  hence d: "(uint u * uint n) div 18446744073709551616 < uint n"
    by (simp add: div_less_iff_mult)
  moreover have "0 \<le> (uint u * uint n) div 18446744073709551616"
    by (simp add: pos_imp_zdiv_nonneg_iff)
  ultimately have "uint (mul64_hi u n) = (uint u * uint n) div 18446744073709551616"
    using n64 by (simp add: mul64_hi_def uint_word_of_int)
  thus ?thesis
    using d by (simp add: word_less_def)
qed

lemma uint64n_loop_ok:
  "n \<noteq> 0 \<Longrightarrow> (pcg_next ^^ Suc j) s = pcg_ones \<Longrightarrow>
    \<exists>v s'. uint64n_loop n ((- n) mod n) u s = Some (v, s') \<and> v < n"
proof (induction j arbitrary: u s)
  case 0
  have "uint64n_loop n ((- n) mod n) (- 1) pcg_ones = Some (mul64_hi (- 1) n, pcg_ones)"
    using leD [OF word_mod_le_self [of "- n" n]] by (subst uint64n_loop.simps) auto
  thus ?case
    using 0 pcg_Uint64_ones [of s] mul64_hi_less [of n] uint64n_loop.simps [of n "(- n) mod n" u s] by auto
next
  case (Suc j)
  have "(pcg_next ^^ Suc j) (pcg_next s) = pcg_ones"
    using Suc.prems(2) by (metis funpow.simps(2) funpow_swap1 o_apply)
  thus ?case
    using Suc.IH [of "pcg_next s"] Suc.prems(1) mul64_hi_less [of n] uint64n_loop.simps [of n "(- n) mod n" u s]
    by (auto simp: pcg_Uint64_def Let_def)
qed

lemma u32_of_prod_less: "n \<noteq> 0 \<Longrightarrow> u32_of (ucast (u :: 32 word) * ucast n) < n"
proof -
  assume "n \<noteq> 0"
  hence n: "0 < uint n"
    by (simp add: word_neq_0_conv word_less_def)
  have b: "0 \<le> uint u" "uint u < 4294967296" "uint n < 4294967296"
    using uint_lt2p [of u] uint_lt2p [of n] by simp_all
  have p: "0 \<le> uint u * uint n" "uint u * uint n < uint n * 4294967296"
    using n b by (simp_all add: mult.commute)
  hence "uint u * uint n < 18446744073709551616"
    using b(3) by linarith
  hence "uint (ucast u * ucast n :: u64) = uint u * uint n"
    using p b by (simp add: uint_word_ariths unsigned_ucast_eq take_bit_int_eq_self)
  hence "uint (drop_bit 32 (ucast u * ucast n :: u64)) = (uint u * uint n) div 4294967296"
    by (simp add: drop_bit_eq_div uint_div_distrib)
  moreover have d: "(uint u * uint n) div 4294967296 < uint n" "0 \<le> (uint u * uint n) div 4294967296"
    using p by (simp_all add: div_less_iff_mult pos_imp_zdiv_nonneg_iff)
  ultimately have "uint (u32_of (ucast u * ucast n)) = (uint u * uint n) div 4294967296"
    using b(3) by (simp add: u32_of_def unsigned_ucast_eq take_bit_int_eq_self)
  thus ?thesis
    using d by (simp add: word_less_def)
qed

lemma ucast_neg_one: "(ucast (ucast (- 1 :: 32 word) * ucast n :: u64) :: 32 word) = - n"
proof -
  have "(ucast (a * b :: u64) :: 32 word) = ucast a * ucast b" for a b
  proof (transfer, goal_cases)
    case (1 a b)
    have "take_bit 32 (take_bit 64 a * take_bit 64 b) =
        take_bit 32 (take_bit 32 (take_bit 64 a) * take_bit 32 (take_bit 64 b))"
      by (rule take_bit_mult [symmetric])
    thus ?case
      by (simp add: take_bit_mult)
  qed
  moreover have "(ucast (ucast w :: u64) :: 32 word) = w" for w
    by transfer simp
  ultimately show ?thesis
    by simp
qed

lemma u32_of_ones: "u32_of (- 1) = - 1"
  by (simp add: u32_of_def mask_eq_exp_minus_1)

lemma uint32n_loop_ok:
  "n \<noteq> 0 \<Longrightarrow> (pcg_next ^^ Suc j) s = pcg_ones \<Longrightarrow>
    \<exists>v s'. uint32n_loop n ((- n) mod n) (ucast u * ucast n) s = Some (v, s') \<and> v < n"
  for u n :: "32 word"
proof (induction j arbitrary: u s)
  case 0
  have "uint32n_loop n ((- n) mod n) (ucast (- 1 :: 32 word) * ucast n) pcg_ones =
      Some (u32_of (ucast (- 1 :: 32 word) * ucast n), pcg_ones)"
    using leD [OF word_mod_le_self [of "- n" n]] ucast_neg_one [of n]
    by (subst uint32n_loop.simps) auto
  thus ?case
    using 0 pcg_Uint64_ones [of s] u32_of_ones u32_of_prod_less [of n]
      uint32n_loop.simps [of n "(- n) mod n" "ucast u * ucast n" s] by auto
next
  case (Suc j)
  have "(pcg_next ^^ Suc j) (pcg_next s) = pcg_ones"
    using Suc.prems(2) by (metis funpow.simps(2) funpow_swap1 o_apply)
  thus ?case
    using Suc.IH [of "pcg_next s"] Suc.prems(1) u32_of_prod_less [of n u]
      uint32n_loop.simps [of n "(- n) mod n" "ucast u * ucast n" s]
    by (auto simp: pcg_Uint64_def Let_def)
qed

lemma word_and_less: "n \<noteq> 0 \<Longrightarrow> u AND (n - 1) < n" for n u :: "'a::len word"
proof -
  assume "n \<noteq> 0"
  hence "n - 1 < n"
    by (simp add: word_less_nat_alt unat_minus_one unat_gt_0)
  thus ?thesis
    using word_and_le1 [of u "n - 1"] by simp
qed

lemma uint_ucast_32: "uint (ucast (v :: 32 word) :: u64) = uint v"
  using uint_lt2p [of v] by (simp add: unsigned_ucast_eq take_bit_int_eq_self)

lemma uint32n_ok: "n \<noteq> 0 \<Longrightarrow> \<exists>v s'. uint32n n s = Some (v, s') \<and> v < n"
proof -
  assume n: "n \<noteq> 0"
  obtain u s1 where u: "pcg_Uint64 s = (u, s1)"
    by fastforce
  obtain j where "(pcg_next ^^ Suc j) s1 = pcg_ones"
    using pcg_reaches_ones by blast
  thus ?thesis
    using uint32n_loop_ok [OF n, of j s1 "u32_of u"] u32_of_prod_less [OF n, of "u32_of u"] word_and_less [OF n]
    by (auto simp: uint32n_def u Let_def)
qed

lemma uint64n_ok: "n \<noteq> 0 \<Longrightarrow> \<exists>v s'. uint64n n s = Some (v, s') \<and> v < n"
proof (cases "(ucast (ucast n :: 32 word) :: u64) = n")
  case True
  assume "n \<noteq> 0"
  hence n: "(ucast n :: 32 word) \<noteq> 0"
    using True by auto
  then obtain v s' where v: "uint32n (ucast n) s = Some (v, s')" "v < ucast n"
    using uint32n_ok by blast
  hence "(ucast v :: u64) < ucast (ucast n :: 32 word)"
    using v(2) unfolding word_less_def uint_ucast_32 by blast
  thus ?thesis
    using True v by (simp add: uint64n_def)
next
  case False
  assume n: "n \<noteq> 0"
  obtain u s1 where u: "pcg_Uint64 s = (u, s1)"
    by fastforce
  obtain j where "(pcg_next ^^ Suc j) s1 = pcg_ones"
    using pcg_reaches_ones by blast
  thus ?thesis
    using uint64n_loop_ok [OF n, of j s1 u] mul64_hi_less [OF n, of u] word_and_less [OF n] False
    by (auto simp: uint64n_def u Let_def)
qed

lemma Int64N_ok:
  assumes "0 < n" "in64 n"
  shows "\<exists>v s'. Int64N n s = Some (v, s') \<and> 0 \<le> v \<and> v < n"
proof -
  have n: "n < 9223372036854775808" "uint (word_of_int n :: u64) = n"
    using assms by (auto simp: in64_def uint_word_of_int)
  hence "(word_of_int n :: u64) \<noteq> 0"
    using assms(1) by (metis less_irrefl unsigned_0)
  then obtain v s' where v: "uint64n (word_of_int n) s = Some (v, s')" "v < word_of_int n"
    using uint64n_ok by blast
  hence "uint v < n"
    using n by (simp add: word_less_def)
  moreover from this have "sint v = uint v"
    using n(1) signed_take_bit_int_eq_self [of 63 "uint v"] order_trans [of "- (2 ^ 63)" 0 "uint v"]
    by (simp add: sint_uint)
  ultimately show ?thesis
    using v assms(1) by (auto simp: Int64N_def)
qed

end
