(* ===== verification/Workload.thy ===== *)
theory Workload
  imports Domain Go_Rand
begin

text \<open>
  The package \<open>core/workload\<close>: validation of a workload and the strided key
  partition of a worker (\<open>New\<close>, \<open>partition\<close>), the key distributions, the operation
  stream of one goroutine (\<open>generator.Next\<close>) and the payload \<open>Value\<close>. The generator
  threads the PCG state it shares with its key source; the Zipfian sampler of
  \<open>math/rand/v2\<close>, whose output is floating-point arithmetic, is the argument \<open>zipf\<close>.
\<close>

section \<open>Definitions\<close>

subsection \<open>Parameters\<close>

definition paramBool :: "params \<Rightarrow> string \<Rightarrow> bool" where
  "paramBool p key = (case p key of Some (ABool b) \<Rightarrow> b | _ \<Rightarrow> False)"

definition defaultZipfS :: rat where
  "defaultZipfS = 11 / 10"

definition zipfExponent :: "params \<Rightarrow> rat" where
  "zipfExponent p = (case p ''zipf_s'' of
      Some (AFloat f) \<Rightarrow> if 1 < f then f else defaultZipfS
    | _ \<Rightarrow> defaultZipfS)"

subsection \<open>Factory\<close>

record Factory =
  fa_w :: Workload
  fa_seed :: int
  fa_workerID :: int
  fa_strideN :: int
  fa_base :: int
  fa_localSpace :: int
  fa_zipfS :: rat
  fa_cum :: "int list"
  fa_total :: int

datatype new_error =
    NoOperations
  | WorkerCountRange int
  | WorkerIDRange int int
  | KeySpaceRange int
  | NonPositiveWeight OpSpec
  | OwnsNoKeys int int int

fun cum_weights :: "int \<Rightarrow> OpSpec list \<Rightarrow> new_error + int list \<times> int" where
  "cum_weights tot [] = Inr ([], tot)"
| "cum_weights tot (op # ops) =
     (if os_Weight op \<le> 0 then Inl (NonPositiveWeight op)
      else let tot' = i64 (tot + os_Weight op)
           in case cum_weights tot' ops of
                Inl e \<Rightarrow> Inl e
              | Inr (cum, t) \<Rightarrow> Inr (tot' # cum, t))"

definition partition_keys :: "Workload \<Rightarrow> int \<Rightarrow> int \<Rightarrow> int \<times> int \<times> int" where
  "partition_keys w workerID workerCount =
     (if paramBool (w_Params w) ''shared_keys'' then (1, 0, w_KeySpace w)
      else let stride = workerCount; base = workerID
           in if base \<ge> w_KeySpace w then (stride, base, 0)
              else (stride, base, i64 (i64 (i64 (w_KeySpace w - base) + stride) - 1) sdiv stride))"

definition New :: "Workload \<Rightarrow> int \<Rightarrow> int \<Rightarrow> int \<Rightarrow> new_error + Factory" where
  "New w seed workerID workerCount =
     (if w_Operations w = [] then Inl NoOperations
      else if workerCount < 1 then Inl (WorkerCountRange workerCount)
      else if workerID < 0 \<or> workerID \<ge> workerCount then Inl (WorkerIDRange workerID workerCount)
      else if w_KeySpace w < 1 then Inl (KeySpaceRange (w_KeySpace w))
      else case cum_weights 0 (w_Operations w) of
             Inl e \<Rightarrow> Inl e
           | Inr (cum, tot) \<Rightarrow>
               (let (strideN, base, local) = partition_keys w workerID workerCount
                in if local < 1 then Inl (OwnsNoKeys workerID workerCount (w_KeySpace w))
                   else Inr \<lparr>fa_w = w, fa_seed = seed, fa_workerID = workerID, fa_strideN = strideN,
                             fa_base = base, fa_localSpace = local, fa_zipfS = zipfExponent (w_Params w),
                             fa_cum = cum, fa_total = tot\<rparr>))"

subsection \<open>Key distributions\<close>

type_synonym zipf = "rat \<Rightarrow> u64 \<Rightarrow> pcg \<Rightarrow> u64 \<times> pcg"

datatype keyGen =
    ConstKeys
  | UniformKeys int
  | SequentialKeys int int
  | ZipfKeys rat u64
  | LatestKeys rat u64 int int

definition newKeyGen :: "string \<Rightarrow> int \<Rightarrow> rat \<Rightarrow> keyGen" where
  "newKeyGen kdist spn zipfS =
     (if spn \<le> 1 then ConstKeys
      else if kdist = ''zipfian'' then ZipfKeys zipfS (word_of_int (spn - 1))
      else if kdist = ''latest'' then LatestKeys zipfS (word_of_int (spn - 1)) spn 1
      else if kdist = ''sequential'' then SequentialKeys spn 0
      else UniformKeys spn)"

fun keyGen_next :: "zipf \<Rightarrow> keyGen \<Rightarrow> pcg \<Rightarrow> (int \<times> keyGen \<times> pcg) option" where
  "keyGen_next zipf ConstKeys r = Some (0, ConstKeys, r)"
| "keyGen_next zipf (UniformKeys spn) r =
     map_option (\<lambda>(k, r'). (k, UniformKeys spn, r')) (Int64N spn r)"
| "keyGen_next zipf (SequentialKeys spn cur) r =
     Some (cur smod spn, SequentialKeys spn (i64 (cur + 1)), r)"
| "keyGen_next zipf (ZipfKeys s imax) r =
     (let (u, r') = zipf s imax r in Some (sint u, ZipfKeys s imax, r'))"
| "keyGen_next zipf (LatestKeys s imax spn head) r =
     (let head' = (if head < spn then i64 (head + 1) else head);
          (u, r') = zipf s imax r;
          off = (if sint u \<ge> head' then head' - 1 else sint u)
      in Some (head' - 1 - off, LatestKeys s imax spn head', r'))"

subsection \<open>Payload\<close>

definition valueSalt :: u64 where
  "valueSalt = 0x243F6A8885A308D3"

fun value_bytes :: "nat \<Rightarrow> pcg \<Rightarrow> u8 list" where
  "value_bytes n src =
     (if 8 \<le> n then (let (u, src') = pcg_Uint64 src in PutUint64_LE u @ value_bytes (n - 8) src')
      else if 0 < n then take n (PutUint64_LE (fst (pcg_Uint64 src)))
      else [])"

declare value_bytes.simps [simp del]

definition Value :: "int \<Rightarrow> int \<Rightarrow> u8 list" where
  "Value key sz = (if sz \<le> 0 then [] else value_bytes (nat sz) (NewPCG (word_of_int key) valueSalt))"

subsection \<open>Generator\<close>

definition readOps :: "string list" where
  "readOps = [''read'', ''get'', ''scan'', ''count'', ''query'']"

definition isWrite :: "OpType \<Rightarrow> bool" where
  "isWrite t \<longleftrightarrow> to_lower t \<notin> set readOps"

record generator =
  gn_f :: Factory
  gn_r :: pcg
  gn_keys :: keyGen
  gn_seqOf :: "int \<Rightarrow> int option"
  gn_vsize :: int

definition Factory_Generator :: "Factory \<Rightarrow> int \<Rightarrow> generator" where
  "Factory_Generator f shard =
     (let s1 = word_of_int (i64 (i64 (fa_seed f + fa_workerID f) + shard)) * 0x9E3779B97F4A7C15;
          s2 = word_of_int (fa_seed f) XOR push_bit 32 (word_of_int (fa_workerID f))
               XOR (word_of_int shard * 0xD1B54A32D192ED03)
      in \<lparr>gn_f = f, gn_r = NewPCG s1 s2,
          gn_keys = newKeyGen (w_KeyDist (fa_w f)) (fa_localSpace f) (fa_zipfS f),
          gn_seqOf = Map.empty, gn_vsize = w_ValueSize (fa_w f)\<rparr>)"

fun pick_scan :: "int \<Rightarrow> int list \<Rightarrow> nat \<Rightarrow> nat option" where
  "pick_scan x [] i = None"
| "pick_scan x (c # cs) i = (if x < c then Some i else pick_scan x cs (Suc i))"

definition pick_type :: "Factory \<Rightarrow> int \<Rightarrow> OpType" where
  "pick_type f x = (case pick_scan x (fa_cum f) 0 of
      Some i \<Rightarrow> os_Type (w_Operations (fa_w f) ! i)
    | None \<Rightarrow> os_Type (w_Operations (fa_w f) ! (length (fa_cum f) - 1)))"

definition pickOp :: "generator \<Rightarrow> (OpType \<times> pcg) option" where
  "pickOp g = map_option (map_prod (pick_type (gn_f g)) id) (IntN (fa_total (gn_f g)) (gn_r g))"

definition seq_of :: "(int \<Rightarrow> int option) \<Rightarrow> int \<Rightarrow> int" where
  "seq_of m k = (case m k of Some n \<Rightarrow> n | None \<Rightarrow> 0)"

definition generator_Next :: "zipf \<Rightarrow> generator \<Rightarrow> (Operation \<times> generator) option" where
  "generator_Next zipf g =
     (case pickOp g of None \<Rightarrow> None | Some (op, r1) \<Rightarrow>
      (case keyGen_next zipf (gn_keys g) r1 of None \<Rightarrow> None | Some (i, keys', r2) \<Rightarrow>
        (let key = i64 (i64 (i * fa_strideN (gn_f g)) + fa_base (gn_f g));
             seq = i64 (seq_of (gn_seqOf g) key + 1);
             val = (if isWrite op then Value key (gn_vsize g) else [])
         in Some (\<lparr>op_Type = op, op_Key = key, op_Value = val, op_Seq = seq, op_Args = Map.empty\<rparr>,
                  g\<lparr>gn_r := r2, gn_keys := keys', gn_seqOf := (gn_seqOf g)(key \<mapsto> seq)\<rparr>))))"

fun gen_run :: "zipf \<Rightarrow> nat \<Rightarrow> generator \<Rightarrow> (Operation list \<times> generator) option" where
  "gen_run zipf 0 g = Some ([], g)"
| "gen_run zipf (Suc n) g =
     (case generator_Next zipf g of None \<Rightarrow> None | Some (op, g') \<Rightarrow>
        map_option (map_prod ((#) op) id) (gen_run zipf n g'))"

subsection \<open>Well-formedness\<close>

text \<open>
  The documented range of \<open>rand.Zipf\<close>: for an exponent above one, a draw is at most
  \<open>imax\<close>. The other predicates are the invariants of the factory, of a key source
  with \<open>k\<close> draws to go, and of a generator.
\<close>

definition zipf_bounded :: "zipf \<Rightarrow> bool" where
  "zipf_bounded zipf \<longleftrightarrow> (\<forall>s imax r. 1 < s \<longrightarrow> fst (zipf s imax r) \<le> imax)"

fun keyGen_ok :: "zipf \<Rightarrow> nat \<Rightarrow> int \<Rightarrow> keyGen \<Rightarrow> bool" where
  "keyGen_ok zipf k spn ConstKeys \<longleftrightarrow> 1 \<le> spn"
| "keyGen_ok zipf k spn (UniformKeys sp) \<longleftrightarrow> sp = spn \<and> 0 < sp \<and> in64 sp"
| "keyGen_ok zipf k spn (SequentialKeys sp cur) \<longleftrightarrow> sp = spn \<and> 0 < sp \<and> 0 \<le> cur \<and> in64 (cur + int k)"
| "keyGen_ok zipf k spn (ZipfKeys s imax) \<longleftrightarrow> zipf_bounded zipf \<and> 1 < s \<and> uint imax = spn - 1 \<and> in64 spn"
| "keyGen_ok zipf k spn (LatestKeys s imax sp head) \<longleftrightarrow>
     zipf_bounded zipf \<and> 1 < s \<and> uint imax = spn - 1 \<and> sp = spn \<and> in64 spn \<and> 1 \<le> head \<and> head \<le> sp"

definition factory_ok :: "Factory \<Rightarrow> bool" where
  "factory_ok f \<longleftrightarrow> w_Operations (fa_w f) \<noteq> [] \<and> 0 < fa_total f \<and> in64 (fa_total f) \<and>
     length (fa_cum f) = length (w_Operations (fa_w f)) \<and> last (fa_cum f) = fa_total f \<and>
     0 < fa_strideN f \<and> 0 \<le> fa_base f \<and> 1 \<le> fa_localSpace f \<and> 1 < fa_zipfS f \<and>
     (fa_localSpace f - 1) * fa_strideN f + fa_base f < w_KeySpace (fa_w f) \<and> in64 (w_KeySpace (fa_w f))"

definition gen_ok :: "zipf \<Rightarrow> nat \<Rightarrow> Factory \<Rightarrow> generator \<Rightarrow> bool" where
  "gen_ok zipf k f g \<longleftrightarrow> gn_f g = f \<and> factory_ok f \<and> keyGen_ok zipf k (fa_localSpace f) (gn_keys g) \<and>
     gn_vsize g = w_ValueSize (fa_w f) \<and>
     (\<forall>key. 0 \<le> seq_of (gn_seqOf g) key \<and> in64 (seq_of (gn_seqOf g) key + int k))"

section \<open>Key sources\<close>

text \<open>
  The contract of \<open>keyGen\<close>: every draw returns a local index of the span. The
  strided mapping of the factory then stays inside the worker's residue class
  and inside the key space.
\<close>

locale key_source =
  fixes nxt :: "'g \<Rightarrow> pcg \<Rightarrow> (int \<times> 'g \<times> pcg) option" and ok :: "nat \<Rightarrow> int \<Rightarrow> 'g \<Rightarrow> bool"
  assumes nxt_ok: "ok (Suc k) spn g \<Longrightarrow>
    \<exists>v g' r'. nxt g r = Some (v, g', r') \<and> 0 \<le> v \<and> v < spn \<and> ok k spn g'"
begin

lemma mapped_key:
  assumes "ok (Suc k) local g" "0 < stride" "0 \<le> base" "(local - 1) * stride + base < space"
  shows "\<exists>v g' r'. nxt g r = Some (v, g', r') \<and> ok k local g' \<and> 0 \<le> v * stride + base \<and>
    0 \<le> v \<and> v * stride + base < space \<and> (v * stride + base) mod stride = base mod stride"
proof -
  obtain v g' r' where v: "nxt g r = Some (v, g', r')" "0 \<le> v" "v < local" "ok k local g'"
    using nxt_ok [OF assms(1)] by blast
  have "v * stride \<le> (local - 1) * stride"
    using v(3) assms(2) by (intro mult_right_mono) auto
  hence "v * stride + base < space"
    using assms(4) by linarith
  thus ?thesis
    using v assms by (intro exI [of _ v] exI [of _ g'] exI [of _ r']) auto
qed

end

lemma sint_eq_uint_small: "uint (u :: u64) < 9223372036854775808 \<Longrightarrow> sint u = uint u"
  using signed_take_bit_int_eq_self [of 63 "uint u"] order_trans [of "- (2 ^ 63)" 0 "uint u"]
  by (simp add: sint_uint)

lemma zipf_draw:
  assumes "zipf_bounded zipf" "1 < s" "uint imax = spn - 1" "in64 spn" "zipf s imax r = (u, r')"
  shows "0 \<le> sint u" "sint u < spn"
proof -
  have "u \<le> imax"
    using assms(1,2,5) unfolding zipf_bounded_def by (metis fst_conv)
  hence le: "uint u \<le> spn - 1"
    using assms(3) by (simp add: word_le_def)
  hence "sint u = uint u"
    using assms(4) by (intro sint_eq_uint_small) (simp add: in64_def)
  thus "0 \<le> sint u" "sint u < spn"
    using le by simp_all
qed

lemma keyGen_next_ok:
  assumes "keyGen_ok zipf (Suc k) spn g"
  shows "\<exists>v g' r'. keyGen_next zipf g r = Some (v, g', r') \<and> 0 \<le> v \<and> v < spn \<and> keyGen_ok zipf k spn g'"
proof (cases g)
  case (UniformKeys sp)
  thus ?thesis
    using assms Int64N_ok [of sp r] by auto
next
  case (SequentialKeys sp cur)
  moreover have "in64 (cur + 1)" if "in64 (cur + int (Suc k))" "0 \<le> cur"
    using that by (simp add: in64_def)
  ultimately show ?thesis
    using assms by (auto simp: smod_nonneg add.assoc)
next
  case (ZipfKeys s imax)
  obtain u r' where "zipf s imax r = (u, r')"
    by fastforce
  thus ?thesis
    using assms ZipfKeys zipf_draw [of zipf s imax spn r u r'] by simp
next
  case (LatestKeys s imax sp head)
  obtain u r' where u: "zipf s imax r = (u, r')"
    by fastforce
  have "head + 1 \<le> spn \<Longrightarrow> in64 (head + 1)"
    using assms LatestKeys by (auto simp: in64_def)
  thus ?thesis
    using assms LatestKeys u zipf_draw [of zipf s imax spn r u r'] by (auto simp: Let_def)
qed (use assms in auto)

interpretation keys: key_source "keyGen_next zipf" "keyGen_ok zipf" for zipf
  by unfold_locales (rule keyGen_next_ok)

lemma newKeyGen_ok:
  assumes "1 \<le> spn" "in64 spn" "in64 (int k)" "1 < zs" "zipf_bounded zipf"
  shows "keyGen_ok zipf k spn (newKeyGen kdist spn zs)"
proof -
  have "uint (word_of_int (spn - 1) :: u64) = spn - 1"
    unfolding uint_word_of_int using assms(1,2) by (simp add: in64_def)
  thus ?thesis
    using assms by (simp add: newKeyGen_def)
qed

section \<open>Factories\<close>

lemma cum_weights_val:
  "cum_weights t ops = Inr (cum, tot) \<Longrightarrow> 0 \<le> t \<Longrightarrow> in64 (t + sum_list (map os_Weight ops)) \<Longrightarrow>
    (\<forall>op\<in>set ops. 0 < os_Weight op) \<and> length cum = length ops \<and>
    tot = t + sum_list (map os_Weight ops) \<and>
    (\<forall>i<length ops. cum ! i = t + sum_list (map os_Weight (take (Suc i) ops)))"
proof (induction t ops arbitrary: cum rule: cum_weights.induct)
  case (2 t op ops)
  have w: "0 < os_Weight op"
    using "2.prems"(1) by (auto split: if_splits)
  obtain cum' where c: "cum = i64 (t + os_Weight op) # cum'" "cum_weights (i64 (t + os_Weight op)) ops = Inr (cum', tot)"
    using "2.prems"(1) w by (auto simp: Let_def split: sum.splits)
  have pos: "\<forall>op\<in>set ops. 0 < os_Weight op" if "cum_weights u ops = Inr (cum', tot)" for u cum' tot
    using that by (induction u ops arbitrary: cum' rule: cum_weights.induct)
      (auto simp: Let_def split: if_splits sum.splits)
  have "0 \<le> sum_list (map os_Weight ops)"
    using pos [OF c(2)] by (auto intro!: sum_list_nonneg simp: order_less_imp_le)
  hence t: "i64 (t + os_Weight op) = t + os_Weight op"
    using "2.prems"(2,3) w by (intro i64_id) (auto simp: in64_def)
  have IH: "(\<forall>op\<in>set ops. 0 < os_Weight op) \<and> length cum' = length ops \<and>
      tot = t + os_Weight op + sum_list (map os_Weight ops) \<and>
      (\<forall>i<length ops. cum' ! i = t + os_Weight op + sum_list (map os_Weight (take (Suc i) ops)))"
    using "2.IH" [OF _ refl, of cum'] c(2) w "2.prems"(2,3) unfolding t by (simp add: add.assoc)
  have "cum ! i = t + sum_list (map os_Weight (take (Suc i) (op # ops)))" if "i < length (op # ops)" for i
    using that IH unfolding c(1) t by (cases i) auto
  thus ?case
    using IH w c(1) by auto
qed simp

lemma partition_val:
  assumes "0 \<le> workerID" "workerID < workerCount" "1 \<le> w_KeySpace w" "in64 (w_KeySpace w + workerCount)"
    "partition_keys w workerID workerCount = (stride, base, local)" "1 \<le> local"
  shows "0 < stride" "0 \<le> base" "in64 (w_KeySpace w)" "local \<le> w_KeySpace w"
    "(local - 1) * stride + base < w_KeySpace w"
    "\<not> paramBool (w_Params w) ''shared_keys'' \<longrightarrow>
       stride = workerCount \<and> base = workerID \<and> w_KeySpace w \<le> local * stride + base"
proof -
  let ?ks = "w_KeySpace w"
  have "0 < stride \<and> 0 \<le> base \<and> local \<le> ?ks \<and> (local - 1) * stride + base < ?ks \<and>
      (\<not> paramBool (w_Params w) ''shared_keys'' \<longrightarrow>
        stride = workerCount \<and> base = workerID \<and> ?ks \<le> local * stride + base)"
  proof (cases "paramBool (w_Params w) ''shared_keys''")
    case True
    thus ?thesis
      using assms by (auto simp: partition_keys_def)
  next
    case False
    have lt: "workerID < ?ks"
      using False assms(5,6) by (auto simp: partition_keys_def Let_def split: if_splits)
    have "in64 (?ks - workerID)" "in64 (?ks - workerID + workerCount)" "in64 (?ks - workerID + workerCount - 1)"
      using assms(1-4) lt by (auto simp: in64_def)
    hence l: "local = (?ks - workerID + workerCount - 1) div workerCount" "stride = workerCount" "base = workerID"
      using False assms(1,2,5) lt by (auto simp: partition_keys_def Let_def sdiv_nonneg)
    define m where "m = (?ks - workerID + workerCount - 1) mod workerCount"
    have "local * workerCount = ?ks - workerID + workerCount - 1 - m"
      unfolding l m_def by (simp add: minus_mod_eq_div_mult)
    moreover have "0 \<le> m" "m < workerCount"
      using assms(1,2) by (auto simp: m_def)
    moreover have "(?ks - workerID + workerCount - 1) div workerCount \<le> ?ks"
    proof -
      have "?ks * 1 \<le> ?ks * workerCount"
        by (rule mult_left_mono) (use assms(1-3) in auto)
      hence "?ks - workerID + workerCount - 1 < (?ks + 1) * workerCount"
        using assms(1) by (simp add: algebra_simps)
      thus ?thesis
        using div_less_iff_mult [of workerCount "?ks - workerID + workerCount - 1" "?ks + 1"] assms(1,2) by simp
    qed
    ultimately show ?thesis
      using l assms(1,2) by (simp add: left_diff_distrib)
  qed
  thus "0 < stride" "0 \<le> base" "local \<le> ?ks" "(local - 1) * stride + base < ?ks"
      "\<not> paramBool (w_Params w) ''shared_keys'' \<longrightarrow>
        stride = workerCount \<and> base = workerID \<and> ?ks \<le> local * stride + base"
    by auto
  show "in64 ?ks"
    using assms(1-4) by (auto simp: in64_def)
qed

lemma zipfExponent_gt [simp]: "1 < zipfExponent p"
  by (auto simp: zipfExponent_def defaultZipfS_def split: option.splits any.splits)

lemma New_Inr:
  assumes "New w seed workerID workerCount = Inr f" "in64 (w_KeySpace w + workerCount)"
    "in64 (sum_list (map os_Weight (w_Operations w)))"
  shows "factory_ok f \<and> fa_w f = w \<and> fa_total f = sum_list (map os_Weight (w_Operations w)) \<and>
    (\<forall>i<length (w_Operations w). fa_cum f ! i = sum_list (map os_Weight (take (Suc i) (w_Operations w)))) \<and>
    partition_keys w workerID workerCount = (fa_strideN f, fa_base f, fa_localSpace f) \<and>
    0 \<le> workerID \<and> workerID < workerCount \<and> in64 (fa_localSpace f) \<and> (\<forall>op\<in>set (w_Operations w). 0 < os_Weight op)"
proof -
  obtain stride base local where p: "partition_keys w workerID workerCount = (stride, base, local)"
    by (cases "partition_keys w workerID workerCount") auto
  obtain cum tot where c: "cum_weights 0 (w_Operations w) = Inr (cum, tot)"
    using assms(1) by (auto simp: New_def split: if_splits sum.splits)
  have g: "w_Operations w \<noteq> []" "0 \<le> workerID" "workerID < workerCount" "1 \<le> w_KeySpace w" "1 \<le> local"
    and f: "f = \<lparr>fa_w = w, fa_seed = seed, fa_workerID = workerID, fa_strideN = stride,
        fa_base = base, fa_localSpace = local, fa_zipfS = zipfExponent (w_Params w), fa_cum = cum, fa_total = tot\<rparr>"
    using assms(1) c p by (auto simp: New_def split: if_splits)
  note pv = partition_val [OF g(2,3,4) assms(2) p g(5)]
  have cv: "(\<forall>op\<in>set (w_Operations w). 0 < os_Weight op) \<and> length cum = length (w_Operations w) \<and>
      tot = sum_list (map os_Weight (w_Operations w)) \<and>
      (\<forall>i<length (w_Operations w). cum ! i = sum_list (map os_Weight (take (Suc i) (w_Operations w))))"
    using cum_weights_val [OF c] assms(3) by simp
  have "Suc (length (w_Operations w) - 1) = length (w_Operations w)"
    using g(1) by simp
  hence "cum ! (length (w_Operations w) - 1) = tot"
    using cv by (metis lessI take_all_iff order_refl)
  hence "last cum = tot"
    using cv g(1) by (metis last_conv_nth length_0_conv)
  moreover have "0 < tot"
  proof -
    obtain o1 os where o: "w_Operations w = o1 # os"
      using g(1) by (cases "w_Operations w") auto
    have "0 \<le> sum_list (map os_Weight os)"
      using cv o by (auto intro!: sum_list_nonneg simp: order_less_imp_le)
    thus ?thesis
      using cv o by auto
  qed
  moreover have "in64 local"
    using pv(3,4) g(5) by (auto simp: in64_def)
  ultimately show ?thesis
    using cv pv g p assms(3) unfolding f by (simp add: factory_ok_def)
qed

lemma Factory_Generator_ok:
  assumes "factory_ok f" "in64 (fa_localSpace f)" "zipf_bounded zipf" "in64 (int k)"
  shows "gen_ok zipf k f (Factory_Generator f shard)"
  using assms newKeyGen_ok [of "fa_localSpace f" k "fa_zipfS f" zipf]
  by (auto simp: gen_ok_def Factory_Generator_def Let_def factory_ok_def seq_of_def)

section \<open>The operation stream\<close>

lemma pick_scan_least:
  "pick_scan x cs i = Some j \<Longrightarrow> i \<le> j \<and> j < i + length cs \<and> x < cs ! (j - i) \<and> (\<forall>k<j - i. cs ! k \<le> x)"
proof (induction x cs i arbitrary: j rule: pick_scan.induct)
  case (2 x c cs i)
  show ?case
  proof (cases "x < c")
    case False
    hence IH: "Suc i \<le> j" "j < Suc i + length cs" "x < cs ! (j - Suc i)" "\<forall>k<j - Suc i. cs ! k \<le> x"
      using 2 by auto
    have "(c # cs) ! k \<le> x" if "k < j - i" for k
      using that IH False by (cases k) auto
    moreover have "j - i = Suc (j - Suc i)"
      using IH(1) by simp
    ultimately show ?thesis
      using IH by simp
  qed (use 2 in auto)
qed simp

lemma pick_scan_Some: "cs \<noteq> [] \<Longrightarrow> x < last cs \<Longrightarrow> \<exists>j. pick_scan x cs i = Some j"
  by (induction x cs i rule: pick_scan.induct) (auto split: if_splits)

lemma pick_type_mem:
  assumes "factory_ok f" "x < fa_total f"
  shows "\<exists>j. pick_scan x (fa_cum f) 0 = Some j \<and> j < length (w_Operations (fa_w f)) \<and>
    pick_type f x = os_Type (w_Operations (fa_w f) ! j)"
proof -
  have "fa_cum f \<noteq> []" "x < last (fa_cum f)"
    using assms by (auto simp: factory_ok_def)
  then obtain j where j: "pick_scan x (fa_cum f) 0 = Some j"
    using pick_scan_Some by blast
  thus ?thesis
    using pick_scan_least [OF j] assms(1) by (simp add: pick_type_def factory_ok_def)
qed

definition op_ok :: "Factory \<Rightarrow> (int \<Rightarrow> int option) \<Rightarrow> Operation \<Rightarrow> bool" where
  "op_ok f m op \<longleftrightarrow> op_Type op \<in> os_Type ` set (w_Operations (fa_w f)) \<and>
     0 \<le> op_Key op \<and> op_Key op < w_KeySpace (fa_w f) \<and>
     op_Key op mod fa_strideN f = fa_base f mod fa_strideN f \<and>
     op_Value op = (if isWrite (op_Type op) then Value (op_Key op) (w_ValueSize (fa_w f)) else []) \<and>
     op_Seq op = seq_of m (op_Key op) + 1"

lemma generator_Next_ok:
  assumes "gen_ok zipf (Suc k) f g"
  shows "\<exists>op g'. generator_Next zipf g = Some (op, g') \<and> gen_ok zipf k f g' \<and> op_ok f (gn_seqOf g) op \<and>
    gn_seqOf g' = (gn_seqOf g)(op_Key op \<mapsto> op_Seq op)"
proof -
  have f: "gn_f g = f" "factory_ok f" "keyGen_ok zipf (Suc k) (fa_localSpace f) (gn_keys g)"
    using assms by (auto simp: gen_ok_def)
  obtain x r1 where x: "IntN (fa_total f) (gn_r g) = Some (x, r1)" "x < fa_total f"
    using Int64N_ok [of "fa_total f" "gn_r g"] f(2) by (auto simp: IntN_def factory_ok_def)
  obtain j where j: "j < length (w_Operations (fa_w f))" "pick_type f x = os_Type (w_Operations (fa_w f) ! j)"
    using pick_type_mem [OF f(2) x(2)] by blast
  obtain v keys' r2 where v: "keyGen_next zipf (gn_keys g) r1 = Some (v, keys', r2)"
      "keyGen_ok zipf k (fa_localSpace f) keys'" "0 \<le> v"
      "0 \<le> v * fa_strideN f + fa_base f" "v * fa_strideN f + fa_base f < w_KeySpace (fa_w f)"
      "(v * fa_strideN f + fa_base f) mod fa_strideN f = fa_base f mod fa_strideN f"
    using keys.mapped_key [OF f(3), of "fa_strideN f" "fa_base f" "w_KeySpace (fa_w f)" r1] f(2)
    by (auto simp: factory_ok_def)
  let ?key = "v * fa_strideN f + fa_base f"
  have "0 \<le> v * fa_strideN f" "0 \<le> fa_base f" "in64 (w_KeySpace (fa_w f))"
    using v(3) f(2) by (auto simp: factory_ok_def)
  hence key: "i64 (i64 (v * fa_strideN f) + fa_base f) = ?key"
    using v(5) by (simp add: in64_def)
  have s: "0 \<le> seq_of (gn_seqOf g) q" "in64 (seq_of (gn_seqOf g) q + 1)" "in64 (seq_of (gn_seqOf g) q + int k)"
      "in64 (seq_of (gn_seqOf g) q + 1 + int k)" for q
  proof -
    have "0 \<le> seq_of (gn_seqOf g) q \<and> in64 (seq_of (gn_seqOf g) q + int (Suc k))"
      using assms by (simp add: gen_ok_def)
    thus "0 \<le> seq_of (gn_seqOf g) q" "in64 (seq_of (gn_seqOf g) q + 1)" "in64 (seq_of (gn_seqOf g) q + int k)"
        "in64 (seq_of (gn_seqOf g) q + 1 + int k)"
      by (auto simp: in64_def)
  qed
  have "seq_of ((gn_seqOf g)(?key \<mapsto> seq_of (gn_seqOf g) ?key + 1)) q =
      seq_of (gn_seqOf g) q + (if q = ?key then 1 else 0)" for q
    by (simp add: seq_of_def)
  hence "gen_ok zipf k f (g\<lparr>gn_r := r2, gn_keys := keys', gn_seqOf := (gn_seqOf g)(?key \<mapsto> seq_of (gn_seqOf g) ?key + 1)\<rparr>)"
    using assms v(2) s by (simp add: gen_ok_def)
  thus ?thesis
    using x j v s key f(1) assms by (simp add: generator_Next_def pickOp_def op_ok_def Let_def gen_ok_def)
qed

lemma seq_of_Some [simp]: "seq_of (\<lambda>q. Some (h q)) k = h k"
  by (simp add: seq_of_def)

definition key_count :: "int \<Rightarrow> Operation list \<Rightarrow> nat" where
  "key_count q ops = length (filter (\<lambda>o1. op_Key o1 = q) ops)"

lemma gen_run_ok:
  "gen_ok zipf n f g \<Longrightarrow> \<exists>ops g'. gen_run zipf n g = Some (ops, g') \<and> length ops = n \<and>
    (\<forall>i<n. op_ok f (\<lambda>q. Some (seq_of (gn_seqOf g) q + int (key_count q (take i ops)))) (ops ! i))"
proof (induction n arbitrary: g)
  case (Suc n)
  obtain op g1 where op: "generator_Next zipf g = Some (op, g1)" "gen_ok zipf n f g1" "op_ok f (gn_seqOf g) op"
      "gn_seqOf g1 = (gn_seqOf g)(op_Key op \<mapsto> op_Seq op)"
    using generator_Next_ok [OF Suc.prems] by blast
  obtain ops g' where r: "gen_run zipf n g1 = Some (ops, g')" "length ops = n"
      "\<forall>i<n. op_ok f (\<lambda>q. Some (seq_of (gn_seqOf g1) q + int (key_count q (take i ops)))) (ops ! i)"
    using Suc.IH [OF op(2)] by blast
  have sq: "seq_of (gn_seqOf g1) q = seq_of (gn_seqOf g) q + (if q = op_Key op then 1 else 0)" for q
    using op(3,4) by (auto simp: seq_of_def op_ok_def)
  have "op_ok f (\<lambda>q. Some (seq_of (gn_seqOf g) q + int (key_count q (take i (op # ops))))) ((op # ops) ! i)"
    if "i < Suc n" for i
  proof (cases i)
    case 0
    thus ?thesis
      using op(3) by (simp add: op_ok_def key_count_def)
  next
    case (Suc j)
    hence "op_ok f (\<lambda>q. Some (seq_of (gn_seqOf g1) q + int (key_count q (take j ops)))) (ops ! j)"
      using r(3) that by simp
    thus ?thesis
      using Suc by (simp add: op_ok_def sq key_count_def)
  qed
  thus ?case
    using op(1) r(1,2) by auto
qed simp

section \<open>Payload bytes\<close>

lemma length_value_bytes [simp]: "length (value_bytes n src) = n"
proof (induction n src rule: value_bytes.induct)
  case (1 n src)
  obtain u src' where u: "pcg_Uint64 src = (u, src')"
    by fastforce
  show ?case
    using 1 [OF _ u [symmetric] refl] by (subst value_bytes.simps) (auto simp: u)
qed

lemma take_value_bytes: "m \<le> n \<Longrightarrow> take m (value_bytes n src) = value_bytes m src"
proof (induction n src arbitrary: m rule: value_bytes.induct)
  case (1 n src)
  obtain u src' where u: "pcg_Uint64 src = (u, src')"
    by fastforce
  show ?case
  proof (cases "8 \<le> m")
    case True
    hence "take (m - 8) (value_bytes (n - 8) src') = value_bytes (m - 8) src'"
      using "1.IH" [OF _ u [symmetric]] "1.prems" by simp
    thus ?thesis
      using True "1.prems" u by (simp add: value_bytes.simps [of n] value_bytes.simps [of m])
  next
    case False
    thus ?thesis
      using "1.prems" u by (auto simp: value_bytes.simps [of n] value_bytes.simps [of m] min_def)
  qed
qed

lemma sum_take_mono:
  assumes "\<forall>op\<in>set ops. 0 < os_Weight op" "i \<le> j" "j \<le> length ops"
  shows "sum_list (map os_Weight (take i ops)) \<le> sum_list (map os_Weight (take j ops))"
proof -
  have "take j ops = take i ops @ take (j - i) (drop i ops)"
    using assms(2) by (metis le_add_diff_inverse take_add)
  moreover have "0 \<le> sum_list (map os_Weight (take (j - i) (drop i ops)))"
    using assms(1)
    by (auto intro!: sum_list_nonneg dest!: in_set_takeD in_set_dropD) (meson order_less_imp_le)
  ultimately show ?thesis
    by simp
qed

lemma pick_scan_eq:
  "j < length cs \<Longrightarrow> x < cs ! j \<Longrightarrow> \<forall>k<j. cs ! k \<le> x \<Longrightarrow> pick_scan x cs i = Some (i + j)"
proof (induction x cs i arbitrary: j rule: pick_scan.induct)
  case (2 x c cs i)
  show ?case
  proof (cases j)
    case (Suc m)
    have "c \<le> x"
      using "2.prems"(3) Suc by force
    moreover have "\<forall>k<m. cs ! k \<le> x"
      using "2.prems"(3) Suc by force
    ultimately show ?thesis
      using 2 Suc by simp
  qed (use 2 in simp)
qed simp

lemma cum_weights_Inr_iff: "(\<exists>r. cum_weights t ops = Inr r) \<longleftrightarrow> (\<forall>op\<in>set ops. 0 < os_Weight op)"
  by (induction t ops rule: cum_weights.induct) (auto simp: Let_def split: sum.splits)

section \<open>Properties\<close>



text \<open>C5: A generator of a validated workload always returns (its rejection loops end), and
  its i-th operation has a type of the workload, a key of the key space in the
  worker's residue class, the deterministic payload exactly when it is a write,
  and a per-key sequence number that counts the operations on that key so far.\<close>

theorem generator_stream:
  assumes "New w seed workerID workerCount = Inr f" "in64 (w_KeySpace w + workerCount)"
    "in64 (sum_list (map os_Weight (w_Operations w)))" "zipf_bounded zipf" "in64 (int n)"
  shows "\<exists>ops g'. gen_run zipf n (Factory_Generator f shard) = Some (ops, g') \<and> length ops = n \<and>
    (\<forall>i<n. op_Type (ops ! i) \<in> os_Type ` set (w_Operations w) \<and>
       0 \<le> op_Key (ops ! i) \<and> op_Key (ops ! i) < w_KeySpace w \<and>
       (\<not> paramBool (w_Params w) ''shared_keys'' \<longrightarrow> op_Key (ops ! i) mod workerCount = workerID) \<and>
       op_Value (ops ! i) =
         (if isWrite (op_Type (ops ! i)) then Value (op_Key (ops ! i)) (w_ValueSize w) else []) \<and>
       op_Seq (ops ! i) = int (key_count (op_Key (ops ! i)) (take i ops)) + 1)"
proof -
  note f = New_Inr [OF assms(1-3)]
  have g: "gen_ok zipf n f (Factory_Generator f shard)"
    using f assms(4,5) by (intro Factory_Generator_ok) auto
  have "gn_seqOf (Factory_Generator f shard) = Map.empty"
    by (simp add: Factory_Generator_def Let_def)
  hence "seq_of (gn_seqOf (Factory_Generator f shard)) q = 0" for q
    by (simp add: seq_of_def)
  moreover have "\<not> paramBool (w_Params w) ''shared_keys'' \<longrightarrow>
      fa_strideN f = workerCount \<and> fa_base f mod workerCount = workerID"
    using f by (auto simp: partition_keys_def Let_def split: if_splits)
  ultimately show ?thesis
    using gen_run_ok [OF g] f by (auto simp: op_ok_def)
qed

theorem generator_stream_witness:
  "\<exists>f ops g'. New \<lparr>w_Name = ''kv'', w_Mode = ''correctness'',
        w_Operations = [\<lparr>os_Type = ''read'', os_Weight = 1\<rparr>, \<lparr>os_Type = ''insert'', os_Weight = 2\<rparr>],
        w_KeySpace = 5, w_KeyDist = ''sequential'', w_ValueSize = 3, w_VerifyModel = [], w_Params = Map.empty\<rparr>
        42 1 2 = Inr f \<and>
    gen_run (\<lambda>s imax r. (0, r)) 4 (Factory_Generator f 0) = Some (ops, g') \<and> length ops = 4 \<and>
    op_Key (ops ! 3) mod 2 = 1 \<and> op_Key (ops ! 3) < 5"
proof -
  let ?w = "\<lparr>w_Name = ''kv'', w_Mode = ''correctness'',
        w_Operations = [\<lparr>os_Type = ''read'', os_Weight = 1\<rparr>, \<lparr>os_Type = ''insert'', os_Weight = 2\<rparr>],
        w_KeySpace = 5, w_KeyDist = ''sequential'', w_ValueSize = 3, w_VerifyModel = [], w_Params = Map.empty\<rparr>"
  obtain f where f: "New ?w 42 1 2 = Inr f"
    by (simp add: New_def partition_keys_def paramBool_def i64_def sdiv_nonneg)
  show ?thesis
    using generator_stream [OF f, of "\<lambda>s imax r. (0, r)" 4 0] f
    by (auto simp: in64_def zipf_bounded_def paramBool_def)
qed



text \<open>A payload has exactly the requested length and shorter payloads of a key are
  prefixes of longer ones, so the bytes depend on the key alone.\<close>

lemma Value_prefix:
  assumes "m \<le> n"
  shows "length (Value key n) = nat n \<and> Value key m = take (nat m) (Value key n)"
  using assms by (auto simp: Value_def take_value_bytes nat_mono)



end
