(* ===== verification/History.thy ===== *)
theory History
  imports Reconciliation
begin

text \<open>
  The history checkers of \<open>core/verify\<close>: recording of events, the parsed history with
  its indexes, the per-key register check that drives Porcupine, and the Elle
  export with the reading of elle-cli's verdict. Porcupine is the argument \<open>check\<close>;
  elle-cli contributes its path lookup, its output and its exit error.
\<close>

section \<open>Definitions\<close>

subsection \<open>Events\<close>

record Event =
  ev_Process :: int
  ev_F :: string
  ev_Key :: int
  ev_WVal :: u64
  ev_RVal :: u64
  ev_RList :: "int list"
  ev_Invoke :: int
  ev_Complete :: int
  ev_OK :: bool

definition fRead :: string where "fRead = ''read''"

definition fWrite :: string where "fWrite = ''write''"

definition fAppend :: string where "fAppend = ''append''"

lemmas family_defs [simp] = fRead_def fWrite_def fAppend_def

definition isAppendOp :: "OpType \<Rightarrow> bool" where
  "isAppendOp t \<longleftrightarrow> sublist ''append'' (to_lower t)"

definition toInt64s :: "u64 list \<Rightarrow> int list" where
  "toInt64s s = map sint s"

definition observedList :: "any \<Rightarrow> int list option" where
  "observedList v = (case v of
      AInt64s x \<Rightarrow> Some x
    | AUint64s x \<Rightarrow> Some (toInt64s x)
    | AInts x \<Rightarrow> Some x
    | AByteSlices x \<Rightarrow> Some (map (\<lambda>e. sint (Checksum e)) x)
    | _ \<Rightarrow> None)"

definition recorder_Observe :: "int \<Rightarrow> Operation \<Rightarrow> OpResult \<Rightarrow> instant \<Rightarrow> instant \<Rightarrow> Event list \<Rightarrow> Event list" where
  "recorder_Observe process op res invoke completed w =
     (let e = \<lparr>ev_Process = process, ev_F = [], ev_Key = op_Key op, ev_WVal = 0, ev_RVal = 0, ev_RList = [],
               ev_Invoke = i64 invoke, ev_Complete = i64 completed, ev_OK = (r_Err res = None)\<rparr>;
          e' = (if isAppendOp (op_Type op)
                then e\<lparr>ev_F := fAppend, ev_WVal := Checksum (op_Value op),
                       ev_RList := (case observedList (r_Observed res) of Some l \<Rightarrow> l | None \<Rightarrow> [])\<rparr>
                else if length (op_Value op) = 0
                then (case observedList (r_Observed res) of
                        Some l \<Rightarrow> e\<lparr>ev_F := fRead, ev_RList := l\<rparr>
                      | None \<Rightarrow> (let (b, present) = coerceBytes (r_Observed res)
                                  in if present then e\<lparr>ev_F := fRead, ev_RVal := Checksum b\<rparr> else e\<lparr>ev_F := fRead\<rparr>))
                else e\<lparr>ev_F := fWrite, ev_WVal := Checksum (op_Value op)\<rparr>)
      in w @ [e'])"

subsection \<open>Histories\<close>

record History =
  h_events :: "Event list"
  h_byProcess :: "int \<Rightarrow> Event list option"
  h_byKey :: "int \<Rightarrow> Event list option"

definition events_at :: "('k \<Rightarrow> Event list option) \<Rightarrow> 'k \<Rightarrow> Event list" where
  "events_at m k = (case m k of Some es \<Rightarrow> es | None \<Rightarrow> [])"

definition history_add :: "History \<Rightarrow> Event \<Rightarrow> History" where
  "history_add h e = \<lparr>h_events = h_events h @ [e],
     h_byProcess = (h_byProcess h)(ev_Process e \<mapsto> events_at (h_byProcess h) (ev_Process e) @ [e]),
     h_byKey = (h_byKey h)(ev_Key e \<mapsto> events_at (h_byKey h) (ev_Key e) @ [e])\<rparr>"

fun readHistory_loop :: "(string \<Rightarrow> Event option) \<Rightarrow> nat \<Rightarrow> string list \<Rightarrow> History \<Rightarrow> nat + History" where
  "readHistory_loop unmarshal line [] h = Inr h"
| "readHistory_loop unmarshal line (b # bs) h =
     (if length b = 0 then readHistory_loop unmarshal (Suc line) bs h
      else case unmarshal b of
             None \<Rightarrow> Inl line
           | Some e \<Rightarrow> readHistory_loop unmarshal (Suc line) bs (history_add h e))"

definition readHistory :: "(string \<Rightarrow> Event option) \<Rightarrow> string list \<Rightarrow> nat + History" where
  "readHistory unmarshal ls =
     readHistory_loop unmarshal 1 ls \<lparr>h_events = [], h_byProcess = Map.empty, h_byKey = Map.empty\<rparr>"

definition History_All :: "History \<Rightarrow> Event list" where
  "History_All h = h_events h"

definition History_ByProcess :: "History \<Rightarrow> int \<Rightarrow> Event list" where
  "History_ByProcess h p = events_at (h_byProcess h) p"

definition History_ByKey :: "History \<Rightarrow> int \<Rightarrow> Event list" where
  "History_ByKey h k = events_at (h_byKey h) k"

text \<open>\<open>order\<close> is the iteration order over \<open>byKey\<close>.\<close>

definition History_Keys :: "History \<Rightarrow> int list \<Rightarrow> int list" where
  "History_Keys h order = sort order"

subsection \<open>Register check\<close>

record regInput =
  ri_write :: bool
  ri_key :: int
  ri_value :: u64

record pop =
  p_ClientId :: int
  p_Input :: regInput
  p_Output :: u64
  p_Call :: int
  p_Return :: int

datatype CheckResult = Ok | Illegal | Unknown

definition register_Init :: u64 where
  "register_Init = 0"

definition register_Step :: "u64 \<Rightarrow> regInput \<Rightarrow> u64 \<Rightarrow> bool \<times> u64" where
  "register_Step st inp out = (if ri_write inp then (True, ri_value inp) else (out = st, st))"

fun registerOps :: "Event list \<Rightarrow> pop list" where
  "registerOps [] = []"
| "registerOps (e # es) =
     (if ev_F e = fWrite
      then \<lparr>p_ClientId = ev_Process e, p_Input = \<lparr>ri_write = True, ri_key = ev_Key e, ri_value = ev_WVal e\<rparr>,
            p_Output = 0, p_Call = ev_Invoke e, p_Return = ev_Complete e\<rparr> # registerOps es
      else if ev_F e = fRead
      then \<lparr>p_ClientId = ev_Process e, p_Input = \<lparr>ri_write = False, ri_key = ev_Key e, ri_value = 0\<rparr>,
            p_Output = ev_RVal e, p_Call = ev_Invoke e, p_Return = ev_Complete e\<rparr> # registerOps es
      else registerOps es)"

definition witnessCap :: nat where
  "witnessCap = 32"

definition witness_line :: "string \<Rightarrow> Event \<Rightarrow> u64 \<Rightarrow> string" where
  "witness_line c e v = ''p'' @ fmt_int (ev_Process e) @ '':'' @ c @ fmt_nat (unat v) @ ''@['' @
     fmt_int (ev_Invoke e) @ '','' @ fmt_int (ev_Complete e) @ '']''"

fun witness_loop :: "string list \<Rightarrow> Event list \<Rightarrow> string list" where
  "witness_loop out [] = out"
| "witness_loop out (e # es) =
     (if length out > witnessCap then out @ [''...'']
      else if ev_F e = fWrite then witness_loop (out @ [witness_line ''w'' e (ev_WVal e)]) es
      else if ev_F e = fRead then witness_loop (out @ [witness_line ''r'' e (ev_RVal e)]) es
      else witness_loop out es)"

definition registerWitness :: "int \<Rightarrow> Event list \<Rightarrow> string list" where
  "registerWitness key events = witness_loop [''key='' @ fmt_int key] events"

definition checkTimeout :: duration where
  "checkTimeout = 5000000000"

record check_state =
  cs_report :: VerifyReport
  cs_illegal :: bool
  cs_unknown :: bool

definition check_key :: "(pop list \<Rightarrow> CheckResult) \<Rightarrow> History \<Rightarrow> check_state \<Rightarrow> int \<Rightarrow> check_state" where
  "check_key check h st key =
     (let ops = registerOps (History_ByKey h key); rep = cs_report st
      in if length ops = 0 then st
         else case check ops of
           Illegal \<Rightarrow> st\<lparr>cs_illegal := True,
             cs_report := rep\<lparr>vr_OrderingViol := vr_OrderingViol rep + 1,
               vr_Anomalies := vr_Anomalies rep @ [\<lparr>an_Kind = ''non-linearizable'',
                 an_Detail = ''key '' @ fmt_int key @ '' register history is not linearizable'',
                 an_Witness = registerWitness key (History_ByKey h key)\<rparr>]\<rparr>\<rparr>
         | Unknown \<Rightarrow> st\<lparr>cs_unknown := True,
             cs_report := rep\<lparr>vr_Anomalies := vr_Anomalies rep @ [\<lparr>an_Kind = ''unknown'',
                 an_Detail = ''key '' @ fmt_int key @ '' linearizability check timed out after '' @ duration_String checkTimeout,
                 an_Witness = [''key='' @ fmt_int key]\<rparr>]\<rparr>\<rparr>
         | Ok \<Rightarrow> st)"

definition CheckRegister :: "(pop list \<Rightarrow> CheckResult) \<Rightarrow> History \<Rightarrow> int list \<Rightarrow> VerifyReport" where
  "CheckRegister check h order =
     (let keys = History_Keys h order;
          report = (new_report VerifyRegister VerdictPass)\<lparr>vr_Checked := int (length keys)\<rparr>;
          st = foldl (check_key check h) \<lparr>cs_report = report, cs_illegal = False, cs_unknown = False\<rparr> keys
      in if cs_illegal st then (cs_report st)\<lparr>vr_Verdict := VerdictFail\<rparr>
         else if cs_unknown st then (cs_report st)\<lparr>vr_Verdict := VerdictUnknown\<rparr>
         else cs_report st)"

subsection \<open>Elle export\<close>

definition ednList :: "int list \<Rightarrow> string" where
  "ednList l = (if length l = 0 then ''[]'' else ''['' @ join '' '' (map fmt_int l) @ '']'')"

definition mops :: "Event \<Rightarrow> bool \<Rightarrow> string" where
  "mops e completed =
     (if ev_F e = fAppend
      then let v = ''[:append '' @ fmt_int (ev_Key e) @ '' '' @ fmt_nat (unat (ev_WVal e)) @ '']''
           in if completed \<and> length (ev_RList e) > 0
              then ''['' @ v @ '' [:r '' @ fmt_int (ev_Key e) @ '' '' @ ednList (ev_RList e) @ '']]''
              else ''['' @ v @ '']''
      else if ev_F e = fRead
      then if completed then ''[[:r '' @ fmt_int (ev_Key e) @ '' '' @ ednList (ev_RList e) @ '']]''
           else ''[[:r '' @ fmt_int (ev_Key e) @ '' nil]]''
      else ''[]'')"

definition elle_lines :: "Event \<Rightarrow> string list" where
  "elle_lines e =
     [''{:type :invoke, :process '' @ fmt_int (ev_Process e) @ '', :value '' @ mops e False @ ''}'',
      ''{:type '' @ (if ev_OK e then '':ok'' else '':fail'') @ '', :process '' @ fmt_int (ev_Process e) @
        '', :value '' @ mops e True @ ''}'']"

definition WriteElleEDN :: "History \<Rightarrow> string list" where
  "WriteElleEDN h = concat (map elle_lines (History_All h))"

definition parseElleOutput :: "string \<Rightarrow> err option \<Rightarrow> VerifyReport \<Rightarrow> VerifyReport" where
  "parseElleOutput out runErr report =
     (if sublist '':valid? true'' out then report\<lparr>vr_Verdict := VerdictPass\<rparr>
      else if sublist '':valid? false'' out \<or> sublist '':anomal'' out
      then report\<lparr>vr_Verdict := VerdictFail, vr_Anomalies := vr_Anomalies report @
             [\<lparr>an_Kind = ''isolation'', an_Detail = trim_space out, an_Witness = []\<rparr>]\<rparr>
      else let detail = (case runErr of None \<Rightarrow> trim_space out
                         | Some e \<Rightarrow> ''elle-cli: '' @ e @ '': '' @ trim_space out)
           in report\<lparr>vr_Verdict := VerdictUnknown, vr_Anomalies := vr_Anomalies report @
             [\<lparr>an_Kind = ''tooling'', an_Detail = ''could not parse elle-cli verdict: '' @ detail, an_Witness = []\<rparr>]\<rparr>)"

text \<open>\<open>found\<close> tells whether the binary is on the path; \<open>out\<close> and \<open>runErr\<close> are what running it gives.\<close>

definition RunElle :: "bool \<Rightarrow> string \<Rightarrow> err option \<Rightarrow> VerifyReport" where
  "RunElle found out runErr =
     (if \<not> found
      then (new_report VerifyListAppend VerdictUnknown)\<lparr>vr_Anomalies :=
             [\<lparr>an_Kind = ''tooling'', an_Detail = ''elle-cli not installed'', an_Witness = []\<rparr>]\<rparr>
      else parseElleOutput out runErr (new_report VerifyListAppend VerdictUnknown))"

subsection \<open>Linearizability\<close>

text \<open>
  The reference notion: some order of the operations is legal for the register
  and never puts an operation before one that had returned when it was called.
  \<open>lin_search\<close> decides it by trying every operation that may come first.
\<close>

fun legal :: "u64 \<Rightarrow> pop list \<Rightarrow> bool" where
  "legal st [] = True"
| "legal st (p # ps) = (let (ok, st') = register_Step st (p_Input p) (p_Output p) in ok \<and> legal st' ps)"

definition linearizable_from :: "u64 \<Rightarrow> pop list \<Rightarrow> bool" where
  "linearizable_from st ops \<longleftrightarrow>
     (\<exists>ps. mset ps = mset ops \<and> legal st ps \<and> sorted_wrt (\<lambda>a b. \<not> p_Return b < p_Call a) ps)"

definition linearizable :: "pop list \<Rightarrow> bool" where
  "linearizable ops \<longleftrightarrow> linearizable_from register_Init ops"

fun lin_search :: "nat \<Rightarrow> u64 \<Rightarrow> pop list \<Rightarrow> bool" where
  "lin_search 0 st ops \<longleftrightarrow> ops = []"
| "lin_search (Suc n) st ops \<longleftrightarrow> ops = [] \<or>
     list_ex (\<lambda>p. list_all (\<lambda>q. \<not> p_Return q < p_Call p) (remove1 p ops) \<and>
       fst (register_Step st (p_Input p) (p_Output p)) \<and>
       lin_search n (snd (register_Step st (p_Input p) (p_Output p))) (remove1 p ops)) ops"

text \<open>
  The same notion on the recorded events, with no operation of the checker in it: an
  order of the reads and writes that respects real time, in which every read returns
  the value of the last write before it, or zero.
\<close>

definition register_event :: "Event \<Rightarrow> bool" where
  "register_event e \<longleftrightarrow> ev_F e = fWrite \<or> ev_F e = fRead"

fun reads_last :: "u64 \<Rightarrow> Event list \<Rightarrow> bool" where
  "reads_last v [] \<longleftrightarrow> True"
| "reads_last v (e # es) \<longleftrightarrow> (if ev_F e = fWrite then reads_last (ev_WVal e) es else ev_RVal e = v \<and> reads_last v es)"

definition atomic_register :: "Event list \<Rightarrow> bool" where
  "atomic_register es \<longleftrightarrow>
     (\<exists>es'. mset es' = mset (filter register_event es) \<and> reads_last 0 es' \<and> sorted_wrt (\<lambda>a b. \<not> ev_Complete b < ev_Invoke a) es')"

definition porcupine_sound :: "(pop list \<Rightarrow> CheckResult) \<Rightarrow> bool" where
  "porcupine_sound check \<longleftrightarrow>
     (\<forall>ops. (check ops = Ok \<longrightarrow> linearizable ops) \<and> (check ops = Illegal \<longrightarrow> \<not> linearizable ops))"

section \<open>Histories and their indexes\<close>

lemma foldl_history_add:
  "h_events (foldl history_add h es) = h_events h @ es \<and>
   events_at (h_byKey (foldl history_add h es)) k = events_at (h_byKey h) k @ filter (\<lambda>e. ev_Key e = k) es \<and>
   events_at (h_byProcess (foldl history_add h es)) p = events_at (h_byProcess h) p @ filter (\<lambda>e. ev_Process e = p) es \<and>
   dom (h_byKey (foldl history_add h es)) = dom (h_byKey h) \<union> ev_Key ` set es"
  by (induction es arbitrary: h) (auto simp: history_add_def events_at_def split: option.splits)

lemma readHistory_loop_encoded:
  assumes "\<forall>e\<in>set es. encode e \<noteq> [] \<and> unmarshal (encode e) = Some e"
  shows "readHistory_loop unmarshal line (map encode es) h = Inr (foldl history_add h es)"
  using assms by (induction es arbitrary: line h) auto

section \<open>Linearizability search\<close>

lemma lin_search_iff: "length ops \<le> n \<Longrightarrow> lin_search n st ops \<longleftrightarrow> linearizable_from st ops"
proof (induction n arbitrary: st ops)
  case (Suc n)
  let ?R = "\<lambda>a b. \<not> p_Return b < p_Call a"
  show ?case
  proof
    assume "lin_search (Suc n) st ops"
    then consider "ops = []" | p where "p \<in> set ops" "\<forall>q\<in>set (remove1 p ops). ?R p q"
        "fst (register_Step st (p_Input p) (p_Output p))"
        "lin_search n (snd (register_Step st (p_Input p) (p_Output p))) (remove1 p ops)"
      by (auto simp: list_ex_iff list_all_iff)
    thus "linearizable_from st ops"
    proof cases
      case 2
      have "length (remove1 p ops) \<le> n"
        using 2(1) Suc.prems by (simp add: length_remove1)
      then obtain ps where ps: "mset ps = mset (remove1 p ops)" "sorted_wrt ?R ps"
          "legal (snd (register_Step st (p_Input p) (p_Output p))) ps"
        using 2(4) Suc.IH unfolding linearizable_from_def by blast
      have "set ps = set (remove1 p ops)"
        by (rule mset_eq_setD [OF ps(1)])
      hence "sorted_wrt ?R (p # ps)"
        using ps(2) 2(2) by simp
      moreover have "mset (p # ps) = mset ops"
        using ps(1) 2(1) by simp
      moreover have "legal st (p # ps)"
        using ps(3) 2(3) by (simp add: split_beta)
      ultimately show ?thesis
        unfolding linearizable_from_def by blast
    qed (auto simp: linearizable_from_def)
  next
    assume "linearizable_from st ops"
    then obtain ps where ps: "mset ps = mset ops" "legal st ps" "sorted_wrt ?R ps"
      unfolding linearizable_from_def by blast
    show "lin_search (Suc n) st ops"
    proof (cases ps)
      case (Cons p qs)
      have m: "mset ops = add_mset p (mset qs)"
        using ps(1) Cons by simp
      have "p \<in># mset ops"
        unfolding m by simp
      hence p1: "p \<in> set ops"
        by simp
      have p2: "mset qs = mset (remove1 p ops)"
        using m by simp
      note p = p1 p2
      have "length (remove1 p ops) \<le> n"
        using p(1) Suc.prems by (simp add: length_remove1)
      moreover have "linearizable_from (snd (register_Step st (p_Input p) (p_Output p))) (remove1 p ops)"
        unfolding linearizable_from_def using ps(2,3) p(2) Cons by (intro exI [of _ qs]) (simp add: split_beta)
      moreover have "\<forall>q\<in>set (remove1 p ops). ?R p q"
        using ps(3) Cons mset_eq_setD [OF p(2)] by simp
      ultimately show ?thesis
        using Suc.IH p(1) ps(2) Cons by (auto simp: list_ex_iff list_all_iff split_beta)
    qed (use ps in simp)
  qed
qed (simp add: linearizable_from_def)

lemma lin_search_sound: "porcupine_sound (\<lambda>ops. if lin_search (length ops) register_Init ops then Ok else Illegal)"
  by (simp add: porcupine_sound_def linearizable_def lin_search_iff)

lemma sint_neg_large: "9223372036854775808 \<le> uint w \<Longrightarrow> sint w < 0" for w :: u64
proof -
  assume a: "9223372036854775808 \<le> uint w"
  have b: "uint w < 18446744073709551616"
    using uint_lt2p [of w] by simp
  have "(uint w + 9223372036854775808) mod 18446744073709551616 =
      (uint w - 9223372036854775808 + 18446744073709551616) mod 18446744073709551616"
    by (simp add: add.commute)
  also have "\<dots> = uint w - 9223372036854775808"
    using a b by (simp only: mod_add_self2) simp
  finally show ?thesis
    using b by (simp add: sint_uint signed_take_bit_eq_take_bit_shift take_bit_eq_mod)
qed

section \<open>The register verdict\<close>

definition key_result :: "(pop list \<Rightarrow> CheckResult) \<Rightarrow> History \<Rightarrow> int \<Rightarrow> CheckResult" where
  "key_result check h k =
     (if registerOps (History_ByKey h k) = [] then Ok else check (registerOps (History_ByKey h k)))"

lemma foldl_check_key:
  "cs_illegal (foldl (check_key check h) st ks) = (cs_illegal st \<or> (\<exists>k\<in>set ks. key_result check h k = Illegal)) \<and>
   cs_unknown (foldl (check_key check h) st ks) = (cs_unknown st \<or> (\<exists>k\<in>set ks. key_result check h k = Unknown)) \<and>
   vr_OrderingViol (cs_report (foldl (check_key check h) st ks)) =
     vr_OrderingViol (cs_report st) + int (length (filter (\<lambda>k. key_result check h k = Illegal) ks)) \<and>
   vr_Checked (cs_report (foldl (check_key check h) st ks)) = vr_Checked (cs_report st) \<and>
   vr_Verdict (cs_report (foldl (check_key check h) st ks)) = vr_Verdict (cs_report st)"
  by (induction ks arbitrary: st) (auto simp: check_key_def key_result_def Let_def split: CheckResult.splits)

lemma linearizable_Nil [simp]: "linearizable []"
  by (simp add: linearizable_def linearizable_from_def)

lemma registerOps_map: "registerOps es = map (\<lambda>e. hd (registerOps [e])) (filter register_event es)"
  by (induction es) (simp_all add: register_event_def)

lemma legal_registerOps: "\<forall>e\<in>set es. register_event e \<Longrightarrow> legal v (registerOps es) \<longleftrightarrow> reads_last v es"
  by (induction es arbitrary: v) (auto simp: register_event_def register_Step_def fWrite_def fRead_def)

lemma mset_map_split: "mset ys = image_mset f (mset xs) \<Longrightarrow> \<exists>xs'. mset xs' = mset xs \<and> ys = map f xs'"
proof (induction ys arbitrary: xs)
  case (Cons y ys)
  have "y \<in> set_mset (image_mset f (mset xs))"
    unfolding Cons.prems [symmetric] by simp
  then obtain x where x: "x \<in> set xs" "y = f x"
    by auto
  hence e: "mset xs = add_mset x (mset (remove1 x xs))"
    by simp
  have "mset ys = image_mset f (mset (remove1 x xs))"
    using Cons.prems x(2) unfolding e by (simp del: mset_remove1)
  then obtain xs' where "mset xs' = mset (remove1 x xs)" "ys = map f xs'"
    using Cons.IH by blast
  thus ?case
    unfolding e using x(2) by (intro exI [of _ "x # xs'"]) (simp del: mset_remove1)
qed simp

lemma linearizable_atomic: "linearizable (registerOps es) \<longleftrightarrow> atomic_register es"
proof -
  let ?f = "\<lambda>e. hd (registerOps [e])"
  have times: "p_Call (?f e) = ev_Invoke e" "p_Return (?f e) = ev_Complete e" if "register_event e" for e
    using that by (auto simp: register_event_def)
  have m: "legal 0 (map ?f es') \<and> sorted_wrt (\<lambda>a b. \<not> p_Return b < p_Call a) (map ?f es') \<longleftrightarrow>
      reads_last 0 es' \<and> sorted_wrt (\<lambda>a b. \<not> ev_Complete b < ev_Invoke a) es'"
    if "mset es' = mset (filter register_event es)" for es'
  proof -
    have r: "\<forall>e\<in>set es'. register_event e"
      using mset_eq_setD [OF that] by simp
    hence "map ?f es' = registerOps es'"
      by (simp add: registerOps_map [of es'])
    moreover have "sorted_wrt (\<lambda>a b. \<not> p_Return b < p_Call a) (map ?f es') \<longleftrightarrow> sorted_wrt (\<lambda>a b. \<not> ev_Complete b < ev_Invoke a) es'"
      unfolding sorted_wrt_map using r times by (intro iffI; elim sorted_wrt_mono_rel [rotated]) simp_all
    ultimately show ?thesis
      using legal_registerOps [OF r] by simp
  qed
  have "linearizable (registerOps es) \<longleftrightarrow>
      (\<exists>es'. mset es' = mset (filter register_event es) \<and> legal 0 (map ?f es') \<and> sorted_wrt (\<lambda>a b. \<not> p_Return b < p_Call a) (map ?f es'))"
  proof
    assume "linearizable (registerOps es)"
    then obtain ps where ps: "mset ps = image_mset ?f (mset (filter register_event es))" "legal 0 ps"
        "sorted_wrt (\<lambda>a b. \<not> p_Return b < p_Call a) ps"
      unfolding linearizable_def linearizable_from_def register_Init_def registerOps_map [of es] mset_map by (elim exE conjE)
    obtain es' where "mset es' = mset (filter register_event es)" "ps = map ?f es'"
      using mset_map_split [OF ps(1)] by (elim exE conjE)
    thus "\<exists>es'. mset es' = mset (filter register_event es) \<and> legal 0 (map ?f es') \<and> sorted_wrt (\<lambda>a b. \<not> p_Return b < p_Call a) (map ?f es')"
      using ps(2,3) by (intro exI [of _ es'] conjI) (simp_all only:)
  next
    assume "\<exists>es'. mset es' = mset (filter register_event es) \<and> legal 0 (map ?f es') \<and> sorted_wrt (\<lambda>a b. \<not> p_Return b < p_Call a) (map ?f es')"
    then obtain es' where e: "mset es' = mset (filter register_event es)" "legal 0 (map ?f es')"
        "sorted_wrt (\<lambda>a b. \<not> p_Return b < p_Call a) (map ?f es')"
      by (elim exE conjE)
    show "linearizable (registerOps es)"
      unfolding linearizable_def linearizable_from_def register_Init_def registerOps_map [of es] mset_map
      using e by (intro exI [of _ "map ?f es'"] conjI) (simp_all only: mset_map)
  qed
  thus ?thesis
    unfolding atomic_register_def using m by blast
qed

lemma CheckRegister_val:
  assumes "order_of (h_byKey h) order"
  shows "vr_Verdict (CheckRegister check h order) =
      (if \<exists>k\<in>dom (h_byKey h). key_result check h k = Illegal then VerdictFail
       else if \<exists>k\<in>dom (h_byKey h). key_result check h k = Unknown then VerdictUnknown else VerdictPass) \<and>
    vr_Checked (CheckRegister check h order) = int (card (dom (h_byKey h))) \<and>
    vr_OrderingViol (CheckRegister check h order) = int (card {k \<in> dom (h_byKey h). key_result check h k = Illegal})"
proof -
  let ?ks = "History_Keys h order"
  have ks: "set ?ks = dom (h_byKey h)" "distinct ?ks" "length ?ks = card (dom (h_byKey h))"
    using assms distinct_card [of order] by (auto simp: History_Keys_def order_of_def)
  have "int (length (filter (\<lambda>k. key_result check h k = Illegal) ?ks)) =
      int (card {k \<in> dom (h_byKey h). key_result check h k = Illegal})"
    using ks by (simp add: distinct_length_filter Int_def conj_commute)
  thus ?thesis
    using foldl_check_key [of check h _ ?ks] ks(1,3)
    by (simp add: CheckRegister_def Let_def new_report_def)
qed

lemma key_result_sound:
  assumes "porcupine_sound check"
  shows "key_result check h k = Ok \<Longrightarrow> linearizable (registerOps (History_ByKey h k))"
    "key_result check h k = Illegal \<Longrightarrow> \<not> linearizable (registerOps (History_ByKey h k))"
  using assms by (auto simp: porcupine_sound_def key_result_def split: if_splits)

lemma ByKey_absent: "k \<notin> dom (h_byKey h) \<Longrightarrow> History_ByKey h k = []"
  by (auto simp: History_ByKey_def events_at_def split: option.splits)

section \<open>Properties\<close>

text \<open>Reading a history back keeps every event in file order, and the two indexes are
  exactly the sub-histories of a process and of a key; the key list is sorted, without
  repetition and complete.\<close>

lemma readHistory_indexes:
  assumes "\<forall>e\<in>set es. encode e \<noteq> [] \<and> unmarshal (encode e) = Some e"
  shows "\<exists>h. readHistory unmarshal (map encode es) = Inr h \<and> History_All h = es \<and>
    (\<forall>k. History_ByKey h k = filter (\<lambda>e. ev_Key e = k) es) \<and>
    (\<forall>p. History_ByProcess h p = filter (\<lambda>e. ev_Process e = p) es) \<and>
    (\<forall>order. order_of (h_byKey h) order \<longrightarrow>
       sorted (History_Keys h order) \<and> distinct (History_Keys h order) \<and> set (History_Keys h order) = ev_Key ` set es)"
proof -
  let ?h0 = "\<lparr>h_events = [], h_byProcess = Map.empty, h_byKey = Map.empty\<rparr>"
  have "readHistory unmarshal (map encode es) = Inr (foldl history_add ?h0 es)"
    using readHistory_loop_encoded [OF assms] by (simp add: readHistory_def)
  thus ?thesis
    using foldl_history_add [of ?h0 es]
    by (simp add: History_All_def History_ByKey_def History_ByProcess_def History_Keys_def order_of_def events_at_def)
qed

lemma CheckRegister_linearizable:
  assumes "porcupine_sound check" "order_of (h_byKey h) order"
  shows "(vr_Verdict (CheckRegister check h order) = VerdictPass \<longrightarrow>
      (\<forall>k. linearizable (registerOps (History_ByKey h k)))) \<and>
    (vr_Verdict (CheckRegister check h order) = VerdictFail \<longrightarrow>
      (\<exists>k. \<not> linearizable (registerOps (History_ByKey h k))) \<and> vr_OrderingViol (CheckRegister check h order) > 0) \<and>
    ((\<forall>ops. check ops \<noteq> Unknown) \<longrightarrow>
      (vr_Verdict (CheckRegister check h order) = VerdictPass \<longleftrightarrow>
        (\<forall>k. linearizable (registerOps (History_ByKey h k)))))"
proof -
  let ?v = "vr_Verdict (CheckRegister check h order)"
  note v = CheckRegister_val [OF assms(2), of check]
  have ok: "x = Ok \<longleftrightarrow> x \<noteq> Illegal \<and> x \<noteq> Unknown" for x
    by (cases x) auto
  have P: "?v = VerdictPass \<longleftrightarrow> (\<forall>k\<in>dom (h_byKey h). key_result check h k = Ok)"
    using v by (auto simp: ok)
  have F: "?v = VerdictFail \<longleftrightarrow> (\<exists>k\<in>dom (h_byKey h). key_result check h k = Illegal)"
    using v by simp
  have pass: "linearizable (registerOps (History_ByKey h k))" if "?v = VerdictPass" for k
    using that key_result_sound(1) [OF assms(1), of h k] ByKey_absent [of k h] unfolding P
    by (cases "k \<in> dom (h_byKey h)") auto
  have fail: "(\<exists>k. \<not> linearizable (registerOps (History_ByKey h k))) \<and> vr_OrderingViol (CheckRegister check h order) > 0"
    if fl: "?v = VerdictFail"
  proof -
    obtain k where k: "k \<in> dom (h_byKey h)" "key_result check h k = Illegal"
      using fl F by blast
    have "finite {k \<in> dom (h_byKey h). key_result check h k = Illegal}"
      using assms(2) by (auto simp: order_of_def intro: finite_subset [OF _ List.finite_set [of order]])
    hence "card {k \<in> dom (h_byKey h). key_result check h k = Illegal} > 0"
      using k by (auto simp: card_gt_0_iff)
    thus ?thesis
      using v key_result_sound(2) [OF assms(1) k(2)] by auto
  qed
  have "?v = VerdictPass" if "\<forall>ops. check ops \<noteq> Unknown" "\<forall>k. linearizable (registerOps (History_ByKey h k))"
  proof -
    have "key_result check h k \<noteq> Unknown" for k
      using that(1) by (simp add: key_result_def)
    thus ?thesis
      unfolding P ok using key_result_sound(2) [OF assms(1)] that(2) by blast
  qed
  thus ?thesis
    using pass fail by blast
qed

text \<open>C10: With a sound linearizability checker, a register verdict of pass means that the
  reads and writes recorded of every key can be put in an order that respects their
  real-time intervals and in which every read returns the last value written, a fail
  means that those of some key cannot and counts at least one violation, and when no
  check times out the verdict decides it for all keys.\<close>

theorem CheckRegister_verdict:
  assumes "porcupine_sound check" "order_of (h_byKey h) order"
  shows "(vr_Verdict (CheckRegister check h order) = VerdictPass \<longrightarrow>
      (\<forall>k. atomic_register (History_ByKey h k))) \<and>
    (vr_Verdict (CheckRegister check h order) = VerdictFail \<longrightarrow>
      (\<exists>k. \<not> atomic_register (History_ByKey h k)) \<and> vr_OrderingViol (CheckRegister check h order) > 0) \<and>
    ((\<forall>ops. check ops \<noteq> Unknown) \<longrightarrow>
      (vr_Verdict (CheckRegister check h order) = VerdictPass \<longleftrightarrow>
        (\<forall>k. atomic_register (History_ByKey h k))))"
  using CheckRegister_linearizable [OF assms] unfolding linearizable_atomic .

theorem CheckRegister_verdict_witness:
  "vr_Verdict (CheckRegister (\<lambda>ops. if lin_search (length ops) register_Init ops then Ok else Illegal)
     (foldl history_add \<lparr>h_events = [], h_byProcess = Map.empty, h_byKey = Map.empty\<rparr>
       [\<lparr>ev_Process = 0, ev_F = ''write'', ev_Key = 1, ev_WVal = 5, ev_RVal = 0, ev_RList = [], ev_Invoke = 0, ev_Complete = 10, ev_OK = True\<rparr>,
        \<lparr>ev_Process = 1, ev_F = ''read'', ev_Key = 1, ev_WVal = 0, ev_RVal = 5, ev_RList = [], ev_Invoke = 5, ev_Complete = 15, ev_OK = True\<rparr>])
     [1]) = VerdictPass"
  (is "vr_Verdict (CheckRegister ?check ?h [1]) = _")
proof -
  have k: "History_ByKey ?h k = (if k = 1 then h_events ?h else [])" for k
    using foldl_history_add [of "\<lparr>h_events = [], h_byProcess = Map.empty, h_byKey = Map.empty\<rparr>"]
    by (simp add: History_ByKey_def events_at_def history_add_def)
  have "linearizable (registerOps (h_events ?h))"
    unfolding linearizable_def lin_search_iff [OF order_refl, symmetric]
    by (simp add: history_add_def register_Step_def register_Init_def)
  hence "\<forall>k. linearizable (registerOps (History_ByKey ?h k))"
    unfolding k by simp
  moreover have "order_of (h_byKey ?h) [1]"
    by (simp add: order_of_def history_add_def)
  ultimately show ?thesis
    using CheckRegister_verdict [OF lin_search_sound, of ?h "[1]"] by (simp add: linearizable_atomic)
qed

text \<open>The check treats an operation that failed as one that took effect: a read that
  returned an error is recorded with token 0 and is checked as a read of the initial
  state, so a history whose successful operations are linearizable is failed.\<close>

theorem failed_read_fails_register_check:
  assumes "porcupine_sound check" "\<forall>ops. check ops \<noteq> Unknown"
  shows "\<exists>h. linearizable (registerOps (filter ev_OK (History_ByKey h 1))) \<and> order_of (h_byKey h) [1] \<and>
    vr_Verdict (CheckRegister check h [1]) = VerdictFail"
proof -
  let ?w = "\<lparr>ev_Process = 0, ev_F = ''write'', ev_Key = 1, ev_WVal = 5, ev_RVal = 0, ev_RList = [],
      ev_Invoke = 0, ev_Complete = 10, ev_OK = True\<rparr>"
  let ?r = "\<lparr>ev_Process = 0, ev_F = ''read'', ev_Key = 1, ev_WVal = 0, ev_RVal = 0, ev_RList = [],
      ev_Invoke = 20, ev_Complete = 30, ev_OK = False\<rparr>"
  let ?h = "\<lparr>h_events = [?w, ?r], h_byProcess = [0 \<mapsto> [?w, ?r]], h_byKey = [1 \<mapsto> [?w, ?r]]\<rparr>"
  have k: "History_ByKey ?h 1 = [?w, ?r]"
    by (simp add: History_ByKey_def events_at_def)
  have o: "order_of (h_byKey ?h) [1]"
    by (simp add: order_of_def)
  have ok: "linearizable (registerOps (filter ev_OK [?w, ?r]))"
    unfolding linearizable_def lin_search_iff [OF order_refl, symmetric]
    by (simp add: register_Step_def register_Init_def)
  have "\<not> linearizable (registerOps [?w, ?r])"
    unfolding linearizable_def lin_search_iff [OF order_refl, symmetric]
    by (simp add: register_Step_def register_Init_def)
  hence "key_result check ?h 1 = Illegal"
    using assms key_result_sound(1) [OF assms(1), of ?h 1] unfolding k
    by (cases "key_result check ?h 1") (auto simp: key_result_def k split: if_splits)
  thus ?thesis
    using CheckRegister_val [OF o, of check] ok o k by (intro exI [of _ ?h]) auto
qed

text \<open>The Elle export prints an appended token unsigned and an observed token signed, so
  a token with the top bit set reads back as a different number.\<close>

theorem elle_tokens_differ:
  assumes "ev_F e = fAppend" "ev_RList e = [sint (ev_WVal e)]" "9223372036854775808 \<le> uint (ev_WVal e)"
  shows "\<exists>appended observed. mops e True =
      ''[[:append '' @ fmt_int (ev_Key e) @ '' '' @ appended @ ''] [:r '' @ fmt_int (ev_Key e) @ '' ['' @ observed @ '']]]'' \<and>
    appended = fmt_nat (unat (ev_WVal e)) \<and> observed = fmt_int (sint (ev_WVal e)) \<and> appended \<noteq> observed"
proof -
  have "sint (ev_WVal e) < 0"
    using assms(3) by (rule sint_neg_large)
  hence "fmt_nat (unat (ev_WVal e)) \<noteq> fmt_int (sint (ev_WVal e))"
    using fmt_nat_no_sign(1) by (metis fmt_int_def list.set_intros(1))
  thus ?thesis
    using assms(1,2) by (simp add: mops_def ednList_def)
qed

end
