(* ===== verification/Cluster.thy ===== *)
theory Cluster
  imports Domain
begin

text \<open>
  The package \<open>core/cluster\<close>: the coordinator of a distributed run with its join
  barrier, start time and result collection, and the worker's client. A handler
  body that holds the mutex is one step; \<open>handleJoin\<close> is two steps, the
  registration and the reply of the long poll. Closed channels are flags.
\<close>

section \<open>Definitions\<close>

subsection \<open>Protocol\<close>

record RunSpec =
  sp_Target :: string
  sp_Workload :: string
  sp_Endpoints :: "string list"
  sp_Consistency :: string
  sp_Connections :: int
  sp_Warmup :: duration
  sp_Duration :: duration
  sp_RateOpsPerSec :: int
  sp_Seed :: int
  sp_WorkerCount :: int

record WorkerReport =
  wk_WorkerID :: int
  wk_Total :: int
  wk_Errors :: int
  wk_ClientBound :: bool

record Result =
  re_Reports :: "WorkerReport list"
  re_Histograms :: "u8 list list"

record joinRequest =
  jq_RequestedID :: int

record joinResponse =
  jr_WorkerID :: int
  jr_Spec :: RunSpec
  jr_StartAt :: instant

record submitRequest =
  sq_Report :: WorkerReport
  sq_Histogram :: "u8 list"

subsection \<open>Coordinator\<close>

record Coordinator =
  co_spec :: RunSpec
  co_workerCount :: int
  co_StartLead :: duration
  co_MaxWait :: duration
  co_joined :: "int set"
  co_startAt :: instant
  co_reports :: "int \<Rightarrow> WorkerReport option"
  co_histos :: "int \<Rightarrow> u8 list option"
  co_joinedAll :: bool
  co_submittedAll :: bool
  co_stop :: bool

definition defaultStartLead :: duration where
  "defaultStartLead = 500000000"

definition defaultMaxWait :: duration where
  "defaultMaxWait = 300000000000"

definition ErrIncomplete :: err where
  "ErrIncomplete = ''cluster: deadline reached before all workers submitted''"

definition NewCoordinator :: "RunSpec \<Rightarrow> int \<Rightarrow> Coordinator" where
  "NewCoordinator spec workerCount =
     \<lparr>co_spec = spec, co_workerCount = workerCount, co_StartLead = defaultStartLead, co_MaxWait = 0,
      co_joined = {}, co_startAt = 0, co_reports = Map.empty, co_histos = Map.empty,
      co_joinedAll = False, co_submittedAll = False, co_stop = False\<rparr>"

definition startLead :: "Coordinator \<Rightarrow> duration" where
  "startLead c = (if co_StartLead c \<le> 0 then defaultStartLead else co_StartLead c)"

definition maxWait :: "Coordinator \<Rightarrow> duration" where
  "maxWait c =
     (if co_MaxWait c > 0 then co_MaxWait c
      else let d = i64 (i64 (sp_Warmup (co_spec c) + sp_Duration (co_spec c)) + startLead c)
           in if d > 0 then i64 (d + defaultMaxWait) else defaultMaxWait)"

fun free_slot :: "int set \<Rightarrow> int list \<Rightarrow> int" where
  "free_slot joined [] = - 1"
| "free_slot joined (i # is) = (if i \<notin> joined then i else free_slot joined is)"

definition slots :: "int \<Rightarrow> int list" where
  "slots n = map int [0..<nat n]"

definition register :: "instant \<Rightarrow> int \<Rightarrow> Coordinator \<Rightarrow> (int \<times> bool) \<times> Coordinator" where
  "register now requested c =
     (let wid = (if requested \<ge> 0 \<and> requested < co_workerCount c \<and> requested \<notin> co_joined c then requested
                else free_slot (co_joined c) (slots (co_workerCount c)))
      in if wid < 0 then ((- 1, False), c)
         else let c1 = c\<lparr>co_joined := insert wid (co_joined c)\<rparr>;
                  c2 = (if int (card (co_joined c1)) = co_workerCount c1 \<and> \<not> co_joinedAll c1
                        then c1\<lparr>co_startAt := now + startLead c1, co_joinedAll := True\<rparr> else c1)
              in ((wid, True), c2))"

definition recordSubmit :: "submitRequest \<Rightarrow> Coordinator \<Rightarrow> bool \<times> Coordinator" where
  "recordSubmit req c =
     (let wid = wk_WorkerID (sq_Report req)
      in if wid \<notin> co_joined c then (False, c)
         else let c1 = c\<lparr>co_reports := (co_reports c)(wid \<mapsto> sq_Report req),
                         co_histos := (co_histos c)(wid \<mapsto> sq_Histogram req)\<rparr>
              in (True, if int (card (dom (co_reports c1))) = co_workerCount c1 then c1\<lparr>co_submittedAll := True\<rparr> else c1))"

fun result_loop :: "Coordinator \<Rightarrow> int list \<Rightarrow> Result \<Rightarrow> Result" where
  "result_loop c [] res = res"
| "result_loop c (i # is) res =
     (case co_reports c i of
        None \<Rightarrow> result_loop c is res
      | Some rep \<Rightarrow> result_loop c is
          \<lparr>re_Reports = re_Reports res @ [rep],
           re_Histograms = re_Histograms res @ [case co_histos c i of Some h \<Rightarrow> h | None \<Rightarrow> []]\<rparr>)"

definition result :: "Coordinator \<Rightarrow> Result" where
  "result c = result_loop c (slots (co_workerCount c)) \<lparr>re_Reports = [], re_Histograms = []\<rparr>"

subsection \<open>Handlers\<close>

text \<open>A request: its method and its decoded body (\<^const>\<open>None\<close> when it does not decode).\<close>

datatype reply =
    MethodNotAllowed
  | BadBody
  | ClusterFull
  | UnknownWorker
  | NoContent
  | Joined joinResponse
  | ShuttingDown
  | Gone

definition handleJoin_register ::
  "instant \<Rightarrow> string \<Rightarrow> joinRequest option \<Rightarrow> Coordinator \<Rightarrow> (reply + int) \<times> Coordinator" where
  "handleJoin_register now meth body c =
     (if meth \<noteq> ''POST'' then (Inl MethodNotAllowed, c)
      else case body of
             None \<Rightarrow> (Inl BadBody, c)
           | Some req \<Rightarrow> (let ((wid, ok), c') = register now (jq_RequestedID req) c
                           in if \<not> ok then (Inl ClusterFull, c') else (Inr wid, c')))"

definition join_reply :: "Coordinator \<Rightarrow> int \<Rightarrow> joinResponse" where
  "join_reply c wid = \<lparr>jr_WorkerID = wid, jr_Spec = co_spec c, jr_StartAt = co_startAt c\<rparr>"

definition handleSubmit :: "string \<Rightarrow> submitRequest option \<Rightarrow> Coordinator \<Rightarrow> reply \<times> Coordinator" where
  "handleSubmit meth body c =
     (if meth \<noteq> ''POST'' then (MethodNotAllowed, c)
      else case body of
             None \<Rightarrow> (BadBody, c)
           | Some req \<Rightarrow> (let (ok, c') = recordSubmit req c in if \<not> ok then (UnknownWorker, c') else (NoContent, c')))"

subsection \<open>The running coordinator\<close>

text \<open>
  Requests arrive in any order. \<open>sy_waiting\<close> are the registered workers whose long
  poll has not been answered. \<open>Serve\<close> stops once every worker has submitted, or on the
  error of the context, the deadline or the server: \<open>sy_ret\<close> then holds that outcome, and
  requests in flight are still handled until the server is shut down and \<open>Serve\<close> returns.
\<close>

datatype event =
    EvJoin string "joinRequest option" "reply + int"
  | EvReply int reply
  | EvSubmit string "submitRequest option" reply
  | EvServed "err + Result"

record system =
  sy_c :: Coordinator
  sy_waiting :: "int list"
  sy_ret :: "err option option"
  sy_trace :: "event list"

definition initial :: "RunSpec \<Rightarrow> int \<Rightarrow> system" where
  "initial spec n = \<lparr>sy_c = NewCoordinator spec n, sy_waiting = [], sy_ret = None, sy_trace = []\<rparr>"

inductive cstep :: "system \<Rightarrow> system \<Rightarrow> bool" where
  join: "handleJoin_register now meth body (sy_c s) = (r, c') \<Longrightarrow>
    cstep s (s\<lparr>sy_c := c', sy_waiting := (case r of Inr wid \<Rightarrow> sy_waiting s @ [wid] | Inl _ \<Rightarrow> sy_waiting s),
              sy_trace := sy_trace s @ [EvJoin meth body r]\<rparr>)"
| joined: "wid \<in> set (sy_waiting s) \<Longrightarrow> co_joinedAll (sy_c s) \<Longrightarrow>
    cstep s (s\<lparr>sy_waiting := remove1 wid (sy_waiting s),
              sy_trace := sy_trace s @ [EvReply wid (Joined (join_reply (sy_c s) wid))]\<rparr>)"
| gone: "wid \<in> set (sy_waiting s) \<Longrightarrow>
    cstep s (s\<lparr>sy_waiting := remove1 wid (sy_waiting s), sy_trace := sy_trace s @ [EvReply wid Gone]\<rparr>)"
| released: "wid \<in> set (sy_waiting s) \<Longrightarrow> co_stop (sy_c s) \<Longrightarrow>
    cstep s (s\<lparr>sy_waiting := remove1 wid (sy_waiting s), sy_trace := sy_trace s @ [EvReply wid ShuttingDown]\<rparr>)"
| submit: "handleSubmit meth body (sy_c s) = (r, c') \<Longrightarrow>
    cstep s (s\<lparr>sy_c := c', sy_trace := sy_trace s @ [EvSubmit meth body r]\<rparr>)"
| complete: "\<not> co_stop (sy_c s) \<Longrightarrow> co_submittedAll (sy_c s) \<Longrightarrow>
    cstep s (s\<lparr>sy_c := (sy_c s)\<lparr>co_stop := True\<rparr>, sy_ret := Some None\<rparr>)"
| aborted: "\<not> co_stop (sy_c s) \<Longrightarrow>
    cstep s (s\<lparr>sy_c := (sy_c s)\<lparr>co_stop := True\<rparr>, sy_ret := Some (Some e)\<rparr>)"
| served: "sy_ret s = Some ret \<Longrightarrow>
    cstep s (s\<lparr>sy_ret := None, sy_trace := sy_trace s @
      [EvServed (case ret of None \<Rightarrow> Inr (result (sy_c s)) | Some e \<Rightarrow> Inl e)]\<rparr>)"

subsection \<open>Worker\<close>

definition trim_right_slash :: "string \<Rightarrow> string" where
  "trim_right_slash s = rev (dropWhile (\<lambda>c. c = CHR ''/'') (rev s))"

definition normalizeURL :: "string \<Rightarrow> string" where
  "normalizeURL coordAddr =
     (let addr = trim_right_slash coordAddr
      in if prefix ''http://'' addr \<or> prefix ''https://'' addr then addr else ''http://'' @ addr)"

record Worker =
  wo_coordURL :: string
  wo_id :: int

definition NewWorker :: "string \<Rightarrow> int \<Rightarrow> Worker" where
  "NewWorker coordAddr wid = \<lparr>wo_coordURL = normalizeURL coordAddr, wo_id = wid\<rparr>"

text \<open>The exchange of one request as \<open>post\<close> sees it: the step that failed with its error, or the
  reply's status code, status line, body text and decoded body (\<open>Inl\<close> the decoding error).\<close>

datatype 'b exchange =
    MarshalFailed err
  | RequestFailed err
  | TransportFailed err
  | Reply (rp_StatusCode: int) (rp_Status: string) (rp_text: string) (rp_body: "err + 'b")

definition post :: "bool \<Rightarrow> string \<Rightarrow> 'b exchange \<Rightarrow> err + 'b option" where
  "post decode path exchange = (case exchange of
      MarshalFailed e \<Rightarrow> Inl (''cluster: marshal '' @ path @ '': '' @ e)
    | RequestFailed e \<Rightarrow> Inl (''cluster: request '' @ path @ '': '' @ e)
    | TransportFailed e \<Rightarrow> Inl (''cluster: post '' @ path @ '': '' @ e)
    | Reply code status msg body \<Rightarrow>
        if code \<ge> 300 then Inl (''cluster: '' @ path @ '': '' @ status @ '': '' @ trim_space (take 4096 msg))
        else if decode then (case body of Inl e \<Rightarrow> Inl (''cluster: decode '' @ path @ '': '' @ e) | Inr b \<Rightarrow> Inr (Some b))
        else Inr None)"

definition Worker_Join :: "Worker \<Rightarrow> joinResponse exchange \<Rightarrow> (err + RunSpec \<times> instant) \<times> Worker" where
  "Worker_Join w exchange = (case post True ''/join'' exchange of
      Inr (Some resp) \<Rightarrow> (Inr (jr_Spec resp, jr_StartAt resp), w\<lparr>wo_id := jr_WorkerID resp\<rparr>)
    | Inr None \<Rightarrow> (Inl [], w)
    | Inl e \<Rightarrow> (Inl e, w))"

definition Worker_Submit :: "unit exchange \<Rightarrow> err option" where
  "Worker_Submit exchange = (case post False ''/submit'' exchange of Inl e \<Rightarrow> Some e | Inr _ \<Rightarrow> None)"

subsection \<open>The invariant\<close>

text \<open>The worker numbers admitted and answered in a trace, and what every reachable state
  of a run for \<open>n\<close> workers satisfies.\<close>

fun admitted :: "event list \<Rightarrow> int list" where
  "admitted [] = []"
| "admitted (EvJoin m b (Inr wid) # es) = wid # admitted es"
| "admitted (e # es) = admitted es"

fun replied :: "event list \<Rightarrow> int list" where
  "replied [] = []"
| "replied (EvReply wid r # es) = wid # replied es"
| "replied (e # es) = replied es"

definition coordinator_inv :: "RunSpec \<Rightarrow> int \<Rightarrow> Coordinator \<Rightarrow> bool" where
  "coordinator_inv spec n c \<longleftrightarrow> co_spec c = spec \<and> co_workerCount c = n \<and> finite (co_joined c) \<and>
     co_joined c \<subseteq> {0..<n} \<and> dom (co_reports c) \<subseteq> co_joined c \<and> dom (co_histos c) = dom (co_reports c) \<and>
     (\<forall>i r. co_reports c i = Some r \<longrightarrow> wk_WorkerID r = i) \<and>
     (co_joinedAll c \<longleftrightarrow> 0 < n \<and> co_joined c = {0..<n}) \<and>
     (co_submittedAll c \<longleftrightarrow> 0 < n \<and> dom (co_reports c) = {0..<n})"

definition trace_inv :: "system \<Rightarrow> bool" where
  "trace_inv s \<longleftrightarrow> distinct (admitted (sy_trace s)) \<and> set (admitted (sy_trace s)) = co_joined (sy_c s) \<and>
     distinct (sy_waiting s @ replied (sy_trace s)) \<and> set (sy_waiting s @ replied (sy_trace s)) = co_joined (sy_c s) \<and>
     (\<forall>wid resp. EvReply wid (Joined resp) \<in> set (sy_trace s) \<longrightarrow>
        co_joinedAll (sy_c s) \<and> resp = join_reply (sy_c s) wid)"

definition accepted :: "event list \<Rightarrow> WorkerReport \<Rightarrow> u8 list \<Rightarrow> bool" where
  "accepted tr rep h \<longleftrightarrow> EvSubmit ''POST'' (Some \<lparr>sq_Report = rep, sq_Histogram = h\<rparr>) NoContent \<in> set tr"

definition submitted_inv :: "system \<Rightarrow> bool" where
  "submitted_inv s \<longleftrightarrow> (\<forall>i rep. co_reports (sy_c s) i = Some rep \<longrightarrow>
     (\<exists>h. co_histos (sy_c s) i = Some h \<and> accepted (sy_trace s) rep h))"

definition served_ok :: "int \<Rightarrow> event list \<Rightarrow> Result \<Rightarrow> bool" where
  "served_ok n tr res \<longleftrightarrow> map wk_WorkerID (re_Reports res) = slots n \<and> length (re_Histograms res) = nat n \<and>
     (\<forall>i<nat n. accepted tr (re_Reports res ! i) (re_Histograms res ! i))"

definition served_inv :: "int \<Rightarrow> system \<Rightarrow> bool" where
  "served_inv n s \<longleftrightarrow> submitted_inv s \<and>
     (\<forall>res. EvServed (Inr res) \<in> set (sy_trace s) \<longrightarrow> served_ok n (sy_trace s) res)"

definition system_inv :: "RunSpec \<Rightarrow> int \<Rightarrow> system \<Rightarrow> bool" where
  "system_inv spec n s \<longleftrightarrow> coordinator_inv spec n (sy_c s) \<and> trace_inv s \<and> served_inv n s \<and>
     (sy_ret s = Some None \<longrightarrow> co_submittedAll (sy_c s))"

section \<open>Registration and submission\<close>

lemma set_slots [simp]: "set (slots n) = {0..<n}"
proof -
  have "x \<in> int ` {0..<nat n}" if "0 \<le> x" "x < n" for x
    using that by (intro image_eqI [of _ _ "nat x"]) auto
  thus ?thesis
    by (auto simp: slots_def)
qed

lemma length_slots [simp]: "length (slots n) = nat n" and distinct_slots [simp]: "distinct (slots n)"
  by (simp_all add: slots_def distinct_map)

lemma free_slot_some: "\<forall>i\<in>set is. 0 \<le> i \<Longrightarrow> \<not> set is \<subseteq> J \<Longrightarrow> free_slot J is \<in> set is \<and> free_slot J is \<notin> J"
  by (induction "is") auto

lemma free_slot_none: "set is \<subseteq> J \<Longrightarrow> free_slot J is = - 1"
  by (induction "is") auto

lemma free_slot_sorted: "sorted is \<Longrightarrow> set is - J \<noteq> {} \<Longrightarrow> free_slot J is = Min (set is - J)"
proof (induction "is")
  case (Cons i xs)
  show ?case
  proof (cases "i \<in> J")
    case False
    thus ?thesis
      using Cons.prems(1) by (auto intro!: Min_eqI [symmetric])
  next
    case True
    hence "set (i # xs) - J = set xs - J"
      by auto
    thus ?thesis
      using Cons True by simp
  qed
qed simp

lemma sorted_slots: "sorted (slots n)"
  by (simp add: slots_def sorted_map sorted_wrt_iff_nth_less)

lemma free_slot_Min: "{0..<n} - J \<noteq> {} \<Longrightarrow> free_slot J (slots n) = Min ({0..<n} - J)"
  using free_slot_sorted [of "slots n" J] sorted_slots [of n] unfolding set_slots by blast

lemma full_card:
  assumes "J \<subseteq> {0..<n}"
  shows "J = {0..<n} \<longleftrightarrow> int (card J) = n \<or> (n \<le> 0 \<and> J = {})"
proof
  assume "int (card J) = n \<or> (n \<le> 0 \<and> J = {})"
  thus "J = {0..<n}"
  proof
    assume "int (card J) = n"
    hence "card J = card {0..<n}"
      by simp
    thus ?thesis
      using assms by (intro card_subset_eq) auto
  qed auto
qed auto

lemma register_full:
  assumes "co_joined c = {0..<co_workerCount c}"
  shows "register now req c = ((- 1, False), c)"
  using assms free_slot_none [of "slots (co_workerCount c)" "co_joined c"] by (auto simp: register_def)

lemma register_free:
  assumes "co_joined c \<subset> {0..<co_workerCount c}"
  shows "\<exists>wid. register now req c = ((wid, True),
      let c1 = c\<lparr>co_joined := insert wid (co_joined c)\<rparr>
      in if insert wid (co_joined c) = {0..<co_workerCount c} \<and> \<not> co_joinedAll c
         then c1\<lparr>co_startAt := now + startLead c, co_joinedAll := True\<rparr> else c1) \<and>
    wid \<notin> co_joined c \<and> 0 \<le> wid \<and> wid < co_workerCount c \<and>
    (0 \<le> req \<and> req < co_workerCount c \<and> req \<notin> co_joined c \<longrightarrow> wid = req)"
proof -
  let ?n = "co_workerCount c"
  let ?w = "if req \<ge> 0 \<and> req < ?n \<and> req \<notin> co_joined c then req else free_slot (co_joined c) (slots ?n)"
  have "free_slot (co_joined c) (slots ?n) \<in> {0..<?n} \<and> free_slot (co_joined c) (slots ?n) \<notin> co_joined c"
    using free_slot_some [of "slots ?n" "co_joined c"] assms by auto
  hence w: "?w \<notin> co_joined c" "0 \<le> ?w" "?w < ?n"
    by auto
  hence "int (card (insert ?w (co_joined c))) = ?n \<longleftrightarrow> insert ?w (co_joined c) = {0..<?n}"
    using full_card [of "insert ?w (co_joined c)" ?n] assms by auto
  thus ?thesis
    using w by (intro exI [of _ ?w]) (simp add: register_def Let_def startLead_def)
qed

lemma admitted_append [simp]: "admitted (xs @ ys) = admitted xs @ admitted ys"
  by (induction xs rule: admitted.induct) auto

lemma replied_append [simp]: "replied (xs @ ys) = replied xs @ replied ys"
  by (induction xs rule: replied.induct) auto

lemma replied_mem: "EvReply i r \<in> set tr \<Longrightarrow> i \<in> set (replied tr)"
  by (induction tr rule: replied.induct) auto

lemma coordinator_inv_joined: "coordinator_inv spec n c \<Longrightarrow> co_joined c = {0..<n} \<or> co_joined c \<subset> {0..<n}"
  by (auto simp: coordinator_inv_def)

text \<open>A registration either leaves the coordinator alone or admits one new worker.\<close>

lemma handleJoin_cases:
  assumes "coordinator_inv spec n c" "handleJoin_register now meth body c = (r, c')"
  obtains (rejected) e where "r = Inl e" "c' = c"
  | (admitted) wid where "r = Inr wid" "wid \<notin> co_joined c" "0 \<le> wid" "wid < n" "\<not> co_joinedAll c"
      "coordinator_inv spec n c'" "co_joined c' = insert wid (co_joined c)"
      "co_joinedAll c' \<longleftrightarrow> co_joined c' = {0..<n}" "co_joinedAll c' \<longrightarrow> co_startAt c' = now + startLead c"
      "co_reports c' = co_reports c" "co_histos c' = co_histos c" "co_submittedAll c' = co_submittedAll c"
proof (cases "meth = ''POST'' \<and> body \<noteq> None \<and> co_joined c \<noteq> {0..<n}")
  case False
  hence "\<exists>e. r = Inl e \<and> c' = c"
    using assms register_full [of c now] 
    by (auto simp: handleJoin_register_def coordinator_inv_def split: if_splits option.splits)
  thus ?thesis
    using rejected by blast
next
  case True
  then obtain req where b: "body = Some req" "meth = ''POST''" "co_joined c \<subset> {0..<n}"
    using coordinator_inv_joined [OF assms(1)] by auto
  have n: "co_workerCount c = n" "0 < n" "\<not> co_joinedAll c"
    using assms(1) True b(3) by (auto simp: coordinator_inv_def)
  obtain wid where w: "register now (jq_RequestedID req) c = ((wid, True),
      let c1 = c\<lparr>co_joined := insert wid (co_joined c)\<rparr>
      in if insert wid (co_joined c) = {0..<n} \<and> \<not> co_joinedAll c
         then c1\<lparr>co_startAt := now + startLead c, co_joinedAll := True\<rparr> else c1)"
      "wid \<notin> co_joined c" "0 \<le> wid" "wid < n"
    using register_free [of c now "jq_RequestedID req"] b(3) n(1) by blast
  hence r: "r = Inr wid" and c': "c' = (let c1 = c\<lparr>co_joined := insert wid (co_joined c)\<rparr>
      in if insert wid (co_joined c) = {0..<n} \<and> \<not> co_joinedAll c
         then c1\<lparr>co_startAt := now + startLead c, co_joinedAll := True\<rparr> else c1)"
    using assms(2) b(1,2) by (auto simp: handleJoin_register_def)
  have "coordinator_inv spec n c'"
    using assms(1) n w(2,3,4) unfolding c' by (auto simp: coordinator_inv_def Let_def)
  thus ?thesis
    using admitted [of wid] r w(2,3,4) n(3) unfolding c' by (auto simp: Let_def split: if_splits)
qed

lemma recordSubmit_inv:
  assumes "coordinator_inv spec n c" "handleSubmit meth body c = (r, c')"
  shows "coordinator_inv spec n c' \<and> co_joined c' = co_joined c \<and> co_joinedAll c' = co_joinedAll c \<and>
    co_startAt c' = co_startAt c \<and> co_spec c' = co_spec c \<and> (co_submittedAll c \<longrightarrow> co_submittedAll c')"
proof (cases "\<exists>req. meth = ''POST'' \<and> body = Some req \<and> wk_WorkerID (sq_Report req) \<in> co_joined c")
  case False
  hence "c' = c"
    using assms(2) by (auto simp: handleSubmit_def recordSubmit_def split: if_splits option.splits)
  thus ?thesis
    using assms(1) by simp
next
  case True
  then obtain req where b: "meth = ''POST''" "body = Some req" "wk_WorkerID (sq_Report req) \<in> co_joined c"
    by blast
  let ?d = "insert (wk_WorkerID (sq_Report req)) (dom (co_reports c))"
  have "?d \<subseteq> {0..<n}" "0 < n"
    using assms(1) b(3) by (auto simp: coordinator_inv_def)
  hence full: "int (card ?d) = n \<longleftrightarrow> ?d = {0..<n}"
    using full_card [of ?d n] by auto
  have n: "co_workerCount c = n"
    using assms(1) by (simp add: coordinator_inv_def)
  define c1 where "c1 = c\<lparr>co_reports := (co_reports c)(wk_WorkerID (sq_Report req) \<mapsto> sq_Report req),
      co_histos := (co_histos c)(wk_WorkerID (sq_Report req) \<mapsto> sq_Histogram req)\<rparr>"
  have "recordSubmit req c = (True, if int (card (dom (co_reports c1))) = co_workerCount c1
      then c1\<lparr>co_submittedAll := True\<rparr> else c1)"
    using b(3) unfolding recordSubmit_def c1_def Let_def by (simp only: not_not if_False simp_thms)
  moreover have "dom (co_reports c1) = ?d" "co_workerCount c1 = n"
    using n by (simp_all add: c1_def)
  ultimately have "handleSubmit meth body c = (NoContent, if ?d = {0..<n} then c1\<lparr>co_submittedAll := True\<rparr> else c1)"
    using b(1,2) full by (simp add: handleSubmit_def)
  hence c': "c' = (if ?d = {0..<n} then c1\<lparr>co_submittedAll := True\<rparr> else c1)"
    using assms(2) by simp
  have d: "dom (co_reports c1) = ?d" "co_joined c1 = co_joined c" "co_joinedAll c1 = co_joinedAll c"
      "co_startAt c1 = co_startAt c" "co_spec c1 = co_spec c" "co_submittedAll c1 = co_submittedAll c"
    by (simp_all add: c1_def)
  have "co_submittedAll c \<longrightarrow> ?d = {0..<n}"
    using assms(1) b(3) by (auto simp: coordinator_inv_def)
  moreover have inv1: "coordinator_inv spec n (c1\<lparr>co_submittedAll := (?d = {0..<n})\<rparr>)"
    using assms(1) b(3) \<open>0 < n\<close> unfolding coordinator_inv_def c1_def by simp
  ultimately have "coordinator_inv spec n c'"
  proof (cases "?d = {0..<n}")
    case False
    hence "\<not> co_submittedAll c1"
      using \<open>co_submittedAll c \<longrightarrow> ?d = {0..<n}\<close> d(6) by blast
    hence "c1\<lparr>co_submittedAll := (?d = {0..<n})\<rparr> = c1"
      using False by simp
    thus ?thesis
      using False inv1 c' by simp
  qed (use inv1 c' in simp)
  thus ?thesis
    using d unfolding c' by simp
qed

lemma result_loop_val:
  "result_loop c is res = \<lparr>re_Reports = re_Reports res @ map (\<lambda>i. the (co_reports c i)) (filter (\<lambda>i. co_reports c i \<noteq> None) is),
     re_Histograms = re_Histograms res @
       map (\<lambda>i. case co_histos c i of Some h \<Rightarrow> h | None \<Rightarrow> []) (filter (\<lambda>i. co_reports c i \<noteq> None) is)\<rparr>"
  by (induction c "is" res rule: result_loop.induct) auto

lemma result_complete:
  assumes "coordinator_inv spec n c" "co_submittedAll c"
  shows "map wk_WorkerID (re_Reports (result c)) = slots n" "length (re_Histograms (result c)) = nat n"
    "re_Reports (result c) = map (\<lambda>i. the (co_reports c i)) (slots n)"
    "re_Histograms (result c) = map (\<lambda>i. the (co_histos c i)) (slots n)"
proof -
  have inv: "co_workerCount c = n" "dom (co_reports c) = {0..<n}" "dom (co_histos c) = {0..<n}"
      "\<And>i r. co_reports c i = Some r \<Longrightarrow> wk_WorkerID r = i"
    using assms by (auto simp: coordinator_inv_def)
  have f: "filter (\<lambda>i. co_reports c i \<noteq> None) (slots n) = slots n"
    using inv(2) by (auto simp: filter_id_conv simp flip: domIff)
  have h: "co_histos c i = Some (the (co_histos c i))" "co_reports c i = Some (the (co_reports c i))" if "i \<in> set (slots n)" for i
    using that inv(2,3) by (metis set_slots domIff option.collapse)+
  show "re_Reports (result c) = map (\<lambda>i. the (co_reports c i)) (slots n)"
    using f inv(1) by (simp add: result_def result_loop_val)
  thus "map wk_WorkerID (re_Reports (result c)) = slots n"
    using h(2) inv(4) by (auto intro!: map_idI)
  show "re_Histograms (result c) = map (\<lambda>i. the (co_histos c i)) (slots n)"
  proof -
    have "(case co_histos c i of Some h \<Rightarrow> h | None \<Rightarrow> []) = the (co_histos c i)" if "i \<in> set (slots n)" for i
      using h(1) [OF that] by (metis option.simps(5))
    thus ?thesis
      using f inv(1) by (simp add: result_def result_loop_val)
  qed
  thus "length (re_Histograms (result c)) = nat n"
    by simp
qed

section \<open>The invariant is inductive\<close>

lemma system_inv_initial: "system_inv spec n (initial spec n)"
  by (auto simp: system_inv_def coordinator_inv_def trace_inv_def served_inv_def submitted_inv_def initial_def
      NewCoordinator_def)

lemma accepted_mono: "accepted tr rep h \<Longrightarrow> accepted (tr @ es) rep h"
  by (simp add: accepted_def)

lemma served_ok_mono: "served_ok n tr res \<Longrightarrow> served_ok n (tr @ es) res"
  by (auto simp: served_ok_def accepted_mono)

lemma served_inv_mono:
  assumes "served_inv n s" "co_reports (sy_c t) = co_reports (sy_c s)" "co_histos (sy_c t) = co_histos (sy_c s)"
    "sy_trace t = sy_trace s @ [e]" "\<forall>res. e = EvServed (Inr res) \<longrightarrow> served_ok n (sy_trace s) res"
  shows "served_inv n t"
  using assms by (fastforce simp: served_inv_def submitted_inv_def intro: accepted_mono served_ok_mono)

lemma reply_step_inv:
  assumes "system_inv spec n s" "wid \<in> set (sy_waiting s)" "\<forall>resp. r = Joined resp \<longrightarrow> co_joinedAll (sy_c s) \<and> resp = join_reply (sy_c s) wid"
  shows "system_inv spec n (s\<lparr>sy_waiting := remove1 wid (sy_waiting s), sy_trace := sy_trace s @ [EvReply wid r]\<rparr>)"
proof -
  have d: "distinct (sy_waiting s)" "wid \<notin> set (replied (sy_trace s))"
    using assms(1,2) by (auto simp: system_inv_def trace_inv_def)
  hence "set (remove1 wid (sy_waiting s)) = set (sy_waiting s) - {wid}"
    by (simp add: set_remove1_eq)
  moreover have v: "served_inv n s"
    using assms(1) by (simp add: system_inv_def)
  have "served_inv n (s\<lparr>sy_waiting := remove1 wid (sy_waiting s), sy_trace := sy_trace s @ [EvReply wid r]\<rparr>)"
    by (rule served_inv_mono [OF v, where e = "EvReply wid r"]) simp_all
  ultimately show ?thesis
    using assms d unfolding system_inv_def trace_inv_def by (auto simp: distinct_remove1)
qed

lemma join_step_inv:
  assumes "system_inv spec n s" "handleJoin_register now meth body (sy_c s) = (r, c')"
  shows "system_inv spec n (s\<lparr>sy_c := c', sy_waiting := (case r of Inr wid \<Rightarrow> sy_waiting s @ [wid] | Inl _ \<Rightarrow> sy_waiting s),
    sy_trace := sy_trace s @ [EvJoin meth body r]\<rparr>)"
proof -
  have c: "coordinator_inv spec n (sy_c s)" and t: "trace_inv s" and v: "served_inv n s"
      and ret: "sy_ret s = Some None \<longrightarrow> co_submittedAll (sy_c s)"
    using assms(1) by (auto simp: system_inv_def)
  from c assms(2) show ?thesis
  proof (cases rule: handleJoin_cases)
    case (rejected e)
    have "served_inv n (s\<lparr>sy_c := c', sy_waiting := sy_waiting s, sy_trace := sy_trace s @ [EvJoin meth body r]\<rparr>)"
      using rejected by (intro served_inv_mono [OF v, where e = "EvJoin meth body r"]) simp_all
    thus ?thesis
      using rejected c t ret unfolding system_inv_def trace_inv_def by simp
  next
    case (admitted wid)
    have "served_inv n (s\<lparr>sy_c := c', sy_waiting := sy_waiting s @ [wid], sy_trace := sy_trace s @ [EvJoin meth body r]\<rparr>)"
      using admitted by (intro served_inv_mono [OF v, where e = "EvJoin meth body r"]) simp_all
    moreover have "\<not> EvReply i (Joined resp) \<in> set (sy_trace s)" for i resp
      using t admitted(5) unfolding trace_inv_def by blast
    moreover have "wid \<notin> set (admitted (sy_trace s))" "wid \<notin> set (sy_waiting s @ replied (sy_trace s))"
      using t admitted(2) unfolding trace_inv_def by blast+
    ultimately show ?thesis
      using admitted t ret unfolding system_inv_def trace_inv_def by auto
  qed
qed

lemma handleSubmit_cases:
  assumes "handleSubmit meth body c = (r, c')"
  obtains (ignored) "co_reports c' = co_reports c" "co_histos c' = co_histos c"
  | (stored) rep h where "meth = ''POST''" "body = Some \<lparr>sq_Report = rep, sq_Histogram = h\<rparr>" "r = NoContent"
      "co_reports c' = (co_reports c)(wk_WorkerID rep \<mapsto> rep)" "co_histos c' = (co_histos c)(wk_WorkerID rep \<mapsto> h)"
proof (cases "\<exists>req. meth = ''POST'' \<and> body = Some req \<and> wk_WorkerID (sq_Report req) \<in> co_joined c")
  case False
  hence "c' = c"
    using assms by (auto simp: handleSubmit_def recordSubmit_def split: if_splits option.splits)
  thus ?thesis
    using ignored by simp
next
  case True
  then obtain req where b: "meth = ''POST''" "body = Some req" "wk_WorkerID (sq_Report req) \<in> co_joined c"
    by blast
  obtain rep h where req: "req = \<lparr>sq_Report = rep, sq_Histogram = h\<rparr>"
    by (cases req) auto
  have "co_reports c' = (co_reports c)(wk_WorkerID rep \<mapsto> rep)" "co_histos c' = (co_histos c)(wk_WorkerID rep \<mapsto> h)"
      "r = NoContent"
    using assms b req by (auto simp: handleSubmit_def recordSubmit_def Let_def)
  thus ?thesis
    using stored b req by blast
qed

lemma submit_served_inv:
  assumes "served_inv n s" "handleSubmit meth body (sy_c s) = (r, c')"
  shows "served_inv n (s\<lparr>sy_c := c', sy_trace := sy_trace s @ [EvSubmit meth body r]\<rparr>)"
  using assms(2)
proof (cases rule: handleSubmit_cases)
  case ignored
  thus ?thesis
    by (intro served_inv_mono [OF assms(1), where e = "EvSubmit meth body r"]) simp_all
next
  case (stored rep h)
  have "accepted (sy_trace s @ [EvSubmit meth body r]) rep h"
    using stored by (simp add: accepted_def)
  thus ?thesis
    using assms(1) stored
    by (fastforce simp: served_inv_def submitted_inv_def intro: accepted_mono served_ok_mono split: if_splits)
qed

lemma submit_step_inv:
  assumes "system_inv spec n s" "handleSubmit meth body (sy_c s) = (r, c')"
  shows "system_inv spec n (s\<lparr>sy_c := c', sy_trace := sy_trace s @ [EvSubmit meth body r]\<rparr>)"
proof -
  have "coordinator_inv spec n (sy_c s)"
    using assms(1) by (simp add: system_inv_def)
  note c = recordSubmit_inv [OF this assms(2)]
  hence "join_reply c' wid = join_reply (sy_c s) wid" for wid
    by (simp add: join_reply_def)
  thus ?thesis
    using assms(1) c submit_served_inv [of n s meth body r c'] assms(2) unfolding system_inv_def trace_inv_def by simp
qed

lemma coordinator_inv_stop [simp]: "coordinator_inv spec n (c\<lparr>co_stop := b\<rparr>) = coordinator_inv spec n c"
  by (simp add: coordinator_inv_def)

lemma join_reply_stop [simp]: "join_reply (c\<lparr>co_stop := b\<rparr>) wid = join_reply c wid"
  by (simp add: join_reply_def)

lemma result_served_ok:
  assumes "coordinator_inv spec n (sy_c s)" "submitted_inv s" "co_submittedAll (sy_c s)"
  shows "served_ok n (sy_trace s) (result (sy_c s))"
proof -
  note rc = result_complete [OF assms(1,3)]
  have "accepted (sy_trace s) (re_Reports (result (sy_c s)) ! i) (re_Histograms (result (sy_c s)) ! i)" if "i < nat n" for i
  proof -
    have "slots n ! i \<in> dom (co_reports (sy_c s))"
      using assms(1,3) that nth_mem [of i "slots n"] by (auto simp: coordinator_inv_def)
    then obtain rep where rep: "co_reports (sy_c s) (slots n ! i) = Some rep"
      by blast
    then obtain h where "co_histos (sy_c s) (slots n ! i) = Some h" "accepted (sy_trace s) rep h"
      using assms(2) unfolding submitted_inv_def by blast
    thus ?thesis
      using rc(3,4) rep that by simp
  qed
  thus ?thesis
    using rc(1,2) by (simp add: served_ok_def)
qed

lemma stop_step_inv:
  assumes "system_inv spec n s" "ret = None \<longrightarrow> co_submittedAll (sy_c s)"
  shows "system_inv spec n (s\<lparr>sy_c := (sy_c s)\<lparr>co_stop := True\<rparr>, sy_ret := Some ret\<rparr>)"
  using assms unfolding system_inv_def trace_inv_def served_inv_def submitted_inv_def by simp

lemma serve_step_inv:
  assumes "system_inv spec n s" "sy_ret s = Some ret"
  shows "system_inv spec n (s\<lparr>sy_ret := None, sy_trace := sy_trace s @
      [EvServed (case ret of None \<Rightarrow> Inr (result (sy_c s)) | Some e \<Rightarrow> Inl e)]\<rparr>)"
proof -
  let ?e = "EvServed (case ret of None \<Rightarrow> Inr (result (sy_c s)) | Some e \<Rightarrow> Inl e)"
  have c: "coordinator_inv spec n (sy_c s)" "submitted_inv s" "served_inv n s"
    using assms(1) by (auto simp: system_inv_def served_inv_def)
  have e: "\<forall>res. ?e = EvServed (Inr res) \<longrightarrow> served_ok n (sy_trace s) res"
    using assms result_served_ok [OF c(1,2)] by (auto simp: system_inv_def split: option.splits)
  have "served_inv n (s\<lparr>sy_ret := None, sy_trace := sy_trace s @ [?e]\<rparr>)"
    by (rule served_inv_mono [OF c(3) _ _ _ e]) simp_all
  thus ?thesis
    using assms(1) unfolding system_inv_def trace_inv_def by simp
qed

interpretation coordinator: invariant_system cstep "system_inv spec n" for spec n
proof
  fix s t
  assume inv: "system_inv spec n s" and "cstep s t"
  from \<open>cstep s t\<close> inv show "system_inv spec n t"
  proof (induction rule: cstep.induct)
    case (join now meth body s r c')
    show ?case by (rule join_step_inv [OF join(2,1)])
  next
    case (joined wid s)
    show ?case by (rule reply_step_inv [OF joined(3,1)]) (simp add: joined(2))
  next
    case (gone wid s)
    show ?case by (rule reply_step_inv [OF gone(2,1)]) simp
  next
    case (released wid s)
    show ?case by (rule reply_step_inv [OF released(3,1)]) simp
  next
    case (submit meth body s r c')
    show ?case by (rule submit_step_inv [OF submit(2,1)])
  next
    case (complete s)
    show ?case by (rule stop_step_inv [OF complete(3)]) (simp add: complete(2))
  next
    case (aborted s e)
    show ?case by (rule stop_step_inv [OF aborted(2)]) simp
  next
    case (served s ret)
    show ?case by (rule serve_step_inv [OF served(2,1)])
  qed
qed

lemmas reachable_inv = coordinator.inv_reachable [OF _ system_inv_initial]

section \<open>A run with one worker\<close>

text \<open>One worker joins, is released by the barrier and submits; the coordinator then returns.\<close>

definition demo_spec :: RunSpec where
  "demo_spec = \<lparr>sp_Target = ''redis'', sp_Workload = ''kv'', sp_Endpoints = [''localhost:6379''], sp_Consistency = '''',
     sp_Connections = 4, sp_Warmup = 0, sp_Duration = 10 * second, sp_RateOpsPerSec = 100, sp_Seed = 1, sp_WorkerCount = 1\<rparr>"

definition demo_trace :: "event list" where
  "demo_trace =
     (let rep = \<lparr>wk_WorkerID = 0, wk_Total = 10, wk_Errors = 0, wk_ClientBound = False\<rparr>
      in [EvJoin ''POST'' (Some \<lparr>jq_RequestedID = - 1\<rparr>) (Inr 0),
          EvReply 0 (Joined \<lparr>jr_WorkerID = 0, jr_Spec = demo_spec, jr_StartAt = 500000000\<rparr>),
          EvSubmit ''POST'' (Some \<lparr>sq_Report = rep, sq_Histogram = [1]\<rparr>) NoContent,
          EvServed (Inr \<lparr>re_Reports = [rep], re_Histograms = [[1]]\<rparr>)])"

lemma slots_one: "slots 1 = [0]"
  by (simp add: slots_def)

lemma demo_run: "\<exists>s. cstep\<^sup>*\<^sup>* (initial demo_spec 1) s \<and> sy_trace s = demo_trace"
proof -
  let ?s = "initial demo_spec 1"
  define rep where "rep = \<lparr>wk_WorkerID = 0, wk_Total = 10, wk_Errors = 0, wk_ClientBound = False\<rparr>"
  define c1 where "c1 = (NewCoordinator demo_spec 1)\<lparr>co_joined := {0}, co_startAt := 500000000, co_joinedAll := True\<rparr>"
  define c2 where "c2 = c1\<lparr>co_reports := [0 \<mapsto> rep], co_histos := [0 \<mapsto> [1]], co_submittedAll := True\<rparr>"
  have j: "handleJoin_register 0 ''POST'' (Some \<lparr>jq_RequestedID = - 1\<rparr>) (sy_c ?s) = (Inr 0, c1)"
    by (simp add: handleJoin_register_def register_def initial_def NewCoordinator_def slots_one startLead_def
        defaultStartLead_def c1_def)
  have b: "handleSubmit ''POST'' (Some \<lparr>sq_Report = rep, sq_Histogram = [1]\<rparr>) c1 = (NoContent, c2)"
    by (simp add: handleSubmit_def recordSubmit_def c1_def c2_def NewCoordinator_def rep_def)
  have r: "result (c2\<lparr>co_stop := True\<rparr>) = \<lparr>re_Reports = [rep], re_Histograms = [[1]]\<rparr>"
    by (simp add: result_def c2_def c1_def NewCoordinator_def slots_one)
  have c: "co_joinedAll c1" "co_submittedAll c2" "\<not> co_stop c2"
    by (simp_all add: c1_def c2_def NewCoordinator_def)
  note steps = cstep.join [OF j] cstep.joined [of 0] cstep.submit [where meth = "''POST''" and
      body = "Some \<lparr>sq_Report = rep, sq_Histogram = [1]\<rparr>"] cstep.complete cstep.served
  have 1: "cstep ?s (?s\<lparr>sy_c := c1, sy_waiting := [0], sy_trace := take 1 demo_trace\<rparr>)" (is "cstep _ ?s1")
    using steps(1) by (simp add: initial_def demo_trace_def Let_def)
  have 2: "cstep ?s1 (?s1\<lparr>sy_waiting := [], sy_trace := take 2 demo_trace\<rparr>)" (is "cstep _ ?s2")
    using steps(2) [of ?s1] c(1)
    by (simp add: demo_trace_def Let_def join_reply_def c1_def NewCoordinator_def numeral_2_eq_2)
  have 3: "cstep ?s2 (?s2\<lparr>sy_c := c2, sy_trace := take 3 demo_trace\<rparr>)" (is "cstep _ ?s3")
    using steps(3) [of ?s2 NoContent c2] b by (simp add: demo_trace_def Let_def rep_def numeral_3_eq_3 numeral_2_eq_2)
  have 4: "cstep ?s3 (?s3\<lparr>sy_c := c2\<lparr>co_stop := True\<rparr>, sy_ret := Some None\<rparr>)" (is "cstep _ ?s4")
    using steps(4) [of ?s3] c(2,3) by simp
  have 5: "cstep ?s4 (?s4\<lparr>sy_ret := None, sy_trace := demo_trace\<rparr>)" (is "cstep _ ?s5")
    using steps(5) [of ?s4 None] r by (simp add: demo_trace_def Let_def rep_def numeral_3_eq_3)
  have "cstep\<^sup>*\<^sup>* ?s ?s5"
    using 1 2 3 4 5 by (meson converse_rtranclp_into_rtranclp rtranclp.rtrancl_refl)
  thus ?thesis
    by (intro exI [of _ ?s5]) simp
qed

section \<open>Properties\<close>

text \<open>C11: the join barrier. Whatever the interleaving of requests, a worker whose \<open>/join\<close>
  is answered with a start time got its own number below \<open>n\<close> and the broadcast spec; by
  then all \<open>n\<close> numbers have been given out, each once, no long poll was answered twice,
  and every other worker that is answered is told the same start time.\<close>

theorem coordinator_barrier:
  assumes "cstep\<^sup>*\<^sup>* (initial spec n) s" "EvReply i (Joined resp) \<in> set (sy_trace s)"
  shows "distinct (admitted (sy_trace s)) \<and> set (admitted (sy_trace s)) = {0..<n} \<and> distinct (replied (sy_trace s)) \<and>
    0 \<le> i \<and> i < n \<and> jr_WorkerID resp = i \<and> jr_Spec resp = spec \<and>
    (\<forall>j resp'. EvReply j (Joined resp') \<in> set (sy_trace s) \<longrightarrow> jr_StartAt resp' = jr_StartAt resp)"
proof -
  have inv: "coordinator_inv spec n (sy_c s)" "trace_inv s"
    using reachable_inv [OF assms(1)] by (simp_all add: system_inv_def)
  hence all: "co_joined (sy_c s) = {0..<n}" and r: "resp = join_reply (sy_c s) i" and spec: "co_spec (sy_c s) = spec"
    using assms(2) unfolding trace_inv_def coordinator_inv_def by blast+
  have "i \<in> set (replied (sy_trace s))"
    using assms(2) by (rule replied_mem)
  hence "i \<in> {0..<n}"
    using inv(2) all unfolding trace_inv_def by auto
  moreover have "jr_StartAt resp' = jr_StartAt resp" if "EvReply j (Joined resp') \<in> set (sy_trace s)" for j resp'
  proof -
    have "resp' = join_reply (sy_c s) j"
      using inv(2) that unfolding trace_inv_def by blast
    thus ?thesis
      using r by (simp add: join_reply_def)
  qed
  ultimately show ?thesis
    using inv(2) all r spec unfolding trace_inv_def by (auto simp: join_reply_def)
qed

theorem coordinator_barrier_witness:
  "\<exists>s resp. cstep\<^sup>*\<^sup>* (initial demo_spec 1) s \<and> EvReply 0 (Joined resp) \<in> set (sy_trace s) \<and>
    set (admitted (sy_trace s)) = {0..<1} \<and> jr_Spec resp = demo_spec"
proof -
  obtain s where s: "cstep\<^sup>*\<^sup>* (initial demo_spec 1) s" "sy_trace s = demo_trace"
    using demo_run by blast
  have e: "EvReply 0 (Joined \<lparr>jr_WorkerID = 0, jr_Spec = demo_spec, jr_StartAt = 500000000\<rparr>) \<in> set (sy_trace s)"
    using s(2) by (simp add: demo_trace_def Let_def)
  show ?thesis
    using s(1) e coordinator_barrier [OF s(1) e] by blast
qed

text \<open>C12: a result returned by \<open>Serve\<close> is complete and authentic: it holds exactly one
  report per worker number, in order, index-aligned with the histograms, and every pair was
  received together in one accepted \<open>/submit\<close> request.\<close>

theorem served_result_complete:
  assumes "cstep\<^sup>*\<^sup>* (initial spec n) s" "EvServed (Inr res) \<in> set (sy_trace s)"
  shows "map wk_WorkerID (re_Reports res) = map int [0..<nat n] \<and> length (re_Histograms res) = nat n \<and>
    (\<forall>i<nat n. EvSubmit ''POST'' (Some \<lparr>sq_Report = re_Reports res ! i, sq_Histogram = re_Histograms res ! i\<rparr>) NoContent
       \<in> set (sy_trace s))"
  using reachable_inv [OF assms(1)] assms(2)
  by (simp add: system_inv_def served_inv_def served_ok_def accepted_def slots_def)

theorem served_result_complete_witness:
  "\<exists>s res. cstep\<^sup>*\<^sup>* (initial demo_spec 1) s \<and> EvServed (Inr res) \<in> set (sy_trace s) \<and>
    map wk_WorkerID (re_Reports res) = [0] \<and> length (re_Histograms res) = 1"
proof -
  obtain s where s: "cstep\<^sup>*\<^sup>* (initial demo_spec 1) s" "sy_trace s = demo_trace"
    using demo_run by blast
  then obtain res where e: "EvServed (Inr res) \<in> set (sy_trace s)"
    by (simp add: demo_trace_def Let_def)
  show ?thesis
    using s(1) e served_result_complete [OF s(1) e] by (intro exI [of _ s] exI [of _ res]) simp
qed

text \<open>Admission. With the admitted numbers within the worker count, \<open>register\<close> refuses
  exactly when all numbers are taken; otherwise it gives the requested number when that is free
  and in range and the lowest free one when not, and the admission that fills the last slot,
  and no other, opens the barrier and fixes the start time.\<close>

lemma register_admits:
  assumes "co_joined c \<subseteq> {0..<co_workerCount c}" "co_joinedAll c \<longleftrightarrow> co_joined c = {0..<co_workerCount c}"
  shows "register now req c =
    (let free = {0..<co_workerCount c} - co_joined c; wid = (if req \<in> free then req else Min free)
     in if free = {} then ((- 1, False), c)
        else ((wid, True), if free = {wid}
                           then c\<lparr>co_joined := insert wid (co_joined c), co_startAt := now + startLead c, co_joinedAll := True\<rparr>
                           else c\<lparr>co_joined := insert wid (co_joined c)\<rparr>))"
proof (cases "co_joined c = {0..<co_workerCount c}")
  case True
  thus ?thesis
    by (simp add: register_full)
next
  case False
  let ?n = "co_workerCount c" and ?J = "co_joined c"
  have J: "?J \<subset> {0..<?n}" "{0..<?n} - ?J \<noteq> {}" "\<not> co_joinedAll c"
    using False assms by auto
  define wid where "wid = (if req \<in> {0..<?n} - ?J then req else Min ({0..<?n} - ?J))"
  have w: "wid = (if req \<ge> 0 \<and> req < ?n \<and> req \<notin> ?J then req else free_slot ?J (slots ?n))"
    unfolding wid_def free_slot_Min [OF J(2)] by simp
  have "wid \<in> {0..<?n} - ?J"
    using Min_in [OF _ J(2)] unfolding wid_def by simp
  moreover from this have "int (card (insert wid ?J)) = ?n \<longleftrightarrow> {0..<?n} - ?J = {wid}"
    using full_card [of "insert wid ?J" ?n] J(1) by auto
  ultimately have "register now req c = ((wid, True), if {0..<?n} - ?J = {wid}
      then c\<lparr>co_joined := insert wid ?J, co_startAt := now + startLead c, co_joinedAll := True\<rparr>
      else c\<lparr>co_joined := insert wid ?J\<rparr>)"
    using J(3) unfolding register_def w [symmetric] Let_def by (simp add: startLead_def)
  thus ?thesis
    using J(2) unfolding wid_def Let_def by simp
qed

end
