(* ===== verification/Nemesis.thy ===== *)
theory Nemesis
  imports Domain "HOL-Library.AList"
begin

text \<open>
  The package \<open>core/nemesis\<close>: the SplitMix64 generator that picks fault targets
  (\<open>rand.go\<close>), the argument vector and the calls of the script controller
  (\<open>controller.go\<close>), and the fault scheduler (\<open>scheduler.go\<close>), which unrolls the
  fault specs into a time-ordered plan, runs it against a controller and heals
  what is left. The controller, the clock and the run's context are arguments.
\<close>

unbundle bit_operations_syntax

section \<open>Definitions\<close>

subsection \<open>Random numbers\<close>

record prng =
  pr_state :: u64

definition newPRNG :: "int \<Rightarrow> prng" where
  "newPRNG seed = \<lparr>pr_state = word_of_int seed\<rparr>"

definition prng_next :: "prng \<Rightarrow> u64 \<times> prng" where
  "prng_next p =
     (let s = pr_state p + 0x9E3779B97F4A7C15;
          z1 = (s XOR drop_bit 30 s) * 0xBF58476D1CE4E5B9;
          z2 = (z1 XOR drop_bit 27 z1) * 0x94D049BB133111EB
      in (z2 XOR drop_bit 31 z2, p\<lparr>pr_state := s\<rparr>))"

definition intn :: "int \<Rightarrow> prng \<Rightarrow> int \<times> prng" where
  "intn n p = (if n \<le> 0 then (0, p) else let (z, p') = prng_next p in (uint z mod n, p'))"

subsection \<open>Script controller\<close>

definition actionInject :: string where "actionInject = ''inject''"

definition actionHeal :: string where "actionHeal = ''heal''"

definition refFlag :: "ControlMethod \<Rightarrow> string" where
  "refFlag m =
     (if m = ControlK8s then ''--pod''
      else if m = ControlDocker then ''--container''
      else if m = ControlSSH then ''--host''
      else ''--ref'')"

text \<open>\<open>show\<close> is the \<open>%v\<close> verb of \<open>fmt\<close> on a parameter value; \<open>ks\<close> is the order in which
  the parameter map is ranged over.\<close>

definition param_args :: "(any \<Rightarrow> string) \<Rightarrow> params \<Rightarrow> string list \<Rightarrow> string list" where
  "param_args show ps keys =
     concat (map (\<lambda>k. [''--param'', k @ ''='' @ show (case ps k of Some v \<Rightarrow> v | None \<Rightarrow> ANil)]) keys)"

definition buildArgs :: "(any \<Rightarrow> string) \<Rightarrow> string list \<Rightarrow> string \<Rightarrow> string \<Rightarrow> Node \<Rightarrow> params \<Rightarrow> string list" where
  "buildArgs show ks action ft node ps =
     (let ep = n_Control node;
          args = [action, ''--method'', ce_Method ep, refFlag (ce_Method ep), ce_Ref ep] @
                 (if ce_Namespace ep \<noteq> '''' then [''--namespace'', ce_Namespace ep] else [])
      in if action \<noteq> actionInject then args
         else args @ [''--type'', ft] @ param_args show ps (sort ks))"

text \<open>\<open>runner\<close> executes the script at a path with an argument vector in the world \<open>'w\<close>.\<close>

type_synonym 'w script_runner = "string \<Rightarrow> string list \<Rightarrow> 'w \<Rightarrow> err option \<times> 'w"

definition ScriptController_Inject ::
  "'w script_runner \<Rightarrow> string \<Rightarrow> (any \<Rightarrow> string) \<Rightarrow> (params \<Rightarrow> string list) \<Rightarrow> Fault \<Rightarrow> Node \<Rightarrow> 'w \<Rightarrow> err option \<times> 'w" where
  "ScriptController_Inject runner path show range_of f target =
     runner path (buildArgs show (range_of (f_Params f)) actionInject (f_Type f) target (f_Params f))"

definition ScriptController_Heal ::
  "'w script_runner \<Rightarrow> string \<Rightarrow> (any \<Rightarrow> string) \<Rightarrow> Node \<Rightarrow> 'w \<Rightarrow> err option \<times> 'w" where
  "ScriptController_Heal runner path show target = runner path (buildArgs show [] actionHeal '''' target Map.empty)"

subsection \<open>Scheduler\<close>

record nemesis_Event =
  ev_At :: duration
  ev_Action :: string
  ev_Type :: string
  ev_Node :: string
  ev_Err :: string

record action =
  a_at :: duration
  a_inject :: bool
  a_ft :: string
  a_node :: Node
  a_params :: params

record occ =
  oc_at :: duration
  oc_idx :: nat
  oc_spec :: FaultSpec

definition zero_Node :: Node where
  "zero_Node = \<lparr>n_ID = '''', n_Role = '''', n_Client = '''',
     n_Control = \<lparr>ce_Method = '''', ce_Ref = '''', ce_Namespace = '''', ce_Extra = Map.empty\<rparr>\<rparr>"

definition pick :: "Node list \<Rightarrow> Fault \<Rightarrow> prng \<Rightarrow> Node \<times> prng" where
  "pick nodes f rng =
     (if f_Target f \<noteq> '''' then
        ((case find (\<lambda>n. n_ID n = f_Target f) nodes of Some n \<Rightarrow> n | None \<Rightarrow> zero_Node\<lparr>n_ID := f_Target f\<rparr>), rng)
      else if nodes = [] then (zero_Node, rng)
      else let (i, rng') = intn (int (length nodes)) rng in (nodes ! nat i, rng'))"

text \<open>The occurrences of one spec: the loop over \<open>at\<close>, which wraps like the \<open>int64\<close> it is.\<close>

partial_function (option) occ_loop :: "duration \<Rightarrow> nat \<Rightarrow> FaultSpec \<Rightarrow> duration \<Rightarrow> occ list \<Rightarrow> occ list option" where
  "occ_loop window i sp t occs =
     (if window > 0 \<and> t \<ge> window then Some occs
      else let occs' = occs @ [\<lparr>oc_at = t, oc_idx = i, oc_spec = sp\<rparr>]
           in if fs_Repeat sp \<le> 0 \<or> window \<le> 0 then Some occs'
              else occ_loop window i sp (i64 (t + fs_Repeat sp)) occs')"

fun spec_loop :: "duration \<Rightarrow> nat \<Rightarrow> FaultSpec list \<Rightarrow> occ list \<Rightarrow> occ list option" where
  "spec_loop window i [] occs = Some occs"
| "spec_loop window i (sp # sps) occs =
     (case occ_loop window i sp (fs_At sp) occs of
        None \<Rightarrow> None
      | Some occs' \<Rightarrow> spec_loop window (Suc i) sps occs')"

definition occ_actions :: "occ \<Rightarrow> Node \<Rightarrow> action list" where
  "occ_actions oc node =
     \<lparr>a_at = oc_at oc, a_inject = True, a_ft = f_Type (fs_Fault (oc_spec oc)), a_node = node,
      a_params = f_Params (fs_Fault (oc_spec oc))\<rparr> #
     (if fs_Duration (oc_spec oc) > 0
      then [\<lparr>a_at = i64 (oc_at oc + fs_Duration (oc_spec oc)), a_inject = False, a_ft = '''', a_node = node, a_params = Map.empty\<rparr>]
      else [])"

fun act_loop :: "Node list \<Rightarrow> occ list \<Rightarrow> prng \<Rightarrow> action list" where
  "act_loop nodes [] rng = []"
| "act_loop nodes (oc # ocs) rng =
     (let (node, rng') = pick nodes (fs_Fault (oc_spec oc)) rng in occ_actions oc node @ act_loop nodes ocs rng')"

definition plan :: "Node list \<Rightarrow> int \<Rightarrow> FaultSpec list \<Rightarrow> duration \<Rightarrow> action list option" where
  "plan nodes seed specs window =
     (case spec_loop window 0 specs [] of
        None \<Rightarrow> None
      | Some occs \<Rightarrow> Some (sort_key a_at (act_loop nodes (sort_key (\<lambda>oc. (oc_at oc, oc_idx oc)) occs) (newPRNG seed))))"

fun last_end :: "FaultSpec list \<Rightarrow> duration \<Rightarrow> duration" where
  "last_end [] mx = mx"
| "last_end (sp # sps) mx =
     (let e = i64 (fs_At sp + fs_Duration sp) in last_end sps (if e > mx then e else mx))"

definition window :: "instant option \<Rightarrow> FaultSpec list \<Rightarrow> instant \<Rightarrow> duration" where
  "window deadline specs t0 =
     (case deadline of
        Some dl \<Rightarrow> (let d = time_sub dl t0 in if d > 0 then d else 0)
      | None \<Rightarrow> last_end specs 0)"

text \<open>
  The environment of a run: the controller, called with the run's context or with the fresh
  one of the final cleanup, the clock, whether the run's context is done, and the outcome of
  waiting for a timer or the context, whichever comes first (true for the timer).
\<close>

datatype heal_ctx = RunCtx | FreshCtx

record 'w fault_env =
  fe_Inject :: "Fault \<Rightarrow> Node \<Rightarrow> 'w \<Rightarrow> err option \<times> 'w"
  fe_Heal :: "heal_ctx \<Rightarrow> Node \<Rightarrow> 'w \<Rightarrow> err option \<times> 'w"
  fe_now :: "'w \<Rightarrow> instant"
  fe_done :: "'w \<Rightarrow> bool"
  fe_timer :: "duration \<Rightarrow> 'w \<Rightarrow> bool \<times> 'w"

definition nemesis_waitUntil :: "'w fault_env \<Rightarrow> instant \<Rightarrow> 'w \<Rightarrow> bool \<times> 'w" where
  "nemesis_waitUntil env target w =
     (let d = time_sub target (fe_now env w)
      in if d \<le> 0 then (\<not> fe_done env w, w) else fe_timer env d w)"

definition errStr :: "err option \<Rightarrow> string" where
  "errStr e = (case e of None \<Rightarrow> '''' | Some s \<Rightarrow> s)"

fun run_loop :: "'w fault_env \<Rightarrow> instant \<Rightarrow> action list \<Rightarrow> nemesis_Event list \<Rightarrow> (string \<times> Node) list \<Rightarrow> 'w \<Rightarrow>
    nemesis_Event list \<times> (string \<times> Node) list \<times> 'w" where
  "run_loop env t0 [] events outstanding w = (events, outstanding, w)"
| "run_loop env t0 (a # acts) events outstanding w =
     (case nemesis_waitUntil env (t0 + a_at a) w of
        (False, w1) \<Rightarrow> (events, outstanding, w1)
      | (True, w1) \<Rightarrow>
          if a_inject a then
            (case fe_Inject env \<lparr>f_Type = a_ft a, f_Target = n_ID (a_node a), f_Params = a_params a\<rparr> (a_node a) w1 of
               (e, w2) \<Rightarrow>
                 run_loop env t0 acts
                   (events @ [\<lparr>ev_At = a_at a, ev_Action = actionInject, ev_Type = a_ft a, ev_Node = n_ID (a_node a), ev_Err = errStr e\<rparr>])
                   (if e = None then AList.update (n_ID (a_node a)) (a_node a) outstanding else outstanding) w2)
          else
            (case fe_Heal env RunCtx (a_node a) w1 of
               (e, w2) \<Rightarrow>
                 run_loop env t0 acts
                   (events @ [\<lparr>ev_At = a_at a, ev_Action = actionHeal, ev_Type = '''', ev_Node = n_ID (a_node a), ev_Err = errStr e\<rparr>])
                   (AList.delete (n_ID (a_node a)) outstanding) w2))"

fun heal_loop :: "'w fault_env \<Rightarrow> instant \<Rightarrow> (string \<times> Node) list \<Rightarrow> string list \<Rightarrow> nemesis_Event list \<Rightarrow> 'w \<Rightarrow>
    nemesis_Event list \<times> 'w" where
  "heal_loop env t0 outstanding [] events w = (events, w)"
| "heal_loop env t0 outstanding (i # is) events w =
     (case fe_Heal env FreshCtx (case map_of outstanding i of Some n \<Rightarrow> n | None \<Rightarrow> zero_Node) w of
        (e, w1) \<Rightarrow>
          heal_loop env t0 outstanding is
            (events @ [\<lparr>ev_At = time_sub (fe_now env w1) t0, ev_Action = actionHeal, ev_Type = '''', ev_Node = i, ev_Err = errStr e\<rparr>]) w1)"

definition healAll :: "'w fault_env \<Rightarrow> instant \<Rightarrow> (string \<times> Node) list \<Rightarrow> nemesis_Event list \<Rightarrow> 'w \<Rightarrow> nemesis_Event list \<times> 'w" where
  "healAll env t0 outstanding events w =
     (if outstanding = [] then (events, w)
      else heal_loop env t0 outstanding (sort (map fst outstanding)) events w)"

definition nemesis_Run :: "'w fault_env \<Rightarrow> Node list \<Rightarrow> int \<Rightarrow> instant option \<Rightarrow> FaultSpec list \<Rightarrow> instant \<Rightarrow> 'w \<Rightarrow>
    (nemesis_Event list \<times> 'w) option" where
  "nemesis_Run env nodes seed deadline specs t0 w =
     (case plan nodes seed specs (window deadline specs t0) of
        None \<Rightarrow> None
      | Some acts \<Rightarrow>
          (case run_loop env t0 acts [] [] w of
             (events, outstanding, w1) \<Rightarrow> Some (healAll env t0 outstanding events w1)))"

section \<open>The generator\<close>

fun prng_run :: "nat \<Rightarrow> prng \<Rightarrow> u64 list" where
  "prng_run 0 p = []"
| "prng_run (Suc n) p = (let (z, p') = prng_next p in z # prng_run n p')"

lemma drop_bit_fixpoint:
  assumes "drop_bit k z = z" "0 < k"
  shows "z = (0 :: 64 word)"
proof -
  have "drop_bit (n * k) z = z" for n
    by (induction n) (simp_all add: assms(1) flip: drop_bit_drop_bit)
  hence "z = drop_bit (64 * k) z"
    by simp
  also have "\<dots> = 0"
    using assms(2) by (intro bit_word_eqI) (auto simp: bit_drop_bit_eq dest: bit_imp_le_length)
  finally show ?thesis .
qed

lemma xorshift_inj:
  assumes "x XOR drop_bit k x = y XOR drop_bit k (y :: 64 word)" "0 < k"
  shows "x = y"
proof -
  have "drop_bit k (x XOR y) = drop_bit k x XOR drop_bit k y"
    by (simp add: drop_bit_xor)
  also have "\<dots> = (x XOR y) XOR ((x XOR drop_bit k x) XOR (y XOR drop_bit k y))"
    by (rule bit_word_eqI) (auto simp: bit_xor_iff)
  also have "\<dots> = x XOR y"
    using assms(1) by simp
  finally have "x XOR y = 0"
    using drop_bit_fixpoint assms(2) by blast
  hence "(x XOR y) XOR y = y"
    by simp
  thus ?thesis
    by (simp add: xor.assoc)
qed

lemma mult_inv_inj:
  assumes "c * d = 1" "x * c = y * c"
  shows "x = (y :: 64 word)"
proof -
  have "x * c * d = y * c * d"
    by (simp only: assms(2))
  thus ?thesis
    by (simp add: mult.assoc assms(1))
qed

lemma prng_next_inj:
  assumes "fst (prng_next p) = fst (prng_next q)"
  shows "pr_state p = pr_state q"
proof -
  let ?s = "\<lambda>p. pr_state p + 0x9E3779B97F4A7C15"
  let ?a = "\<lambda>p. (?s p XOR drop_bit 30 (?s p)) * 0xBF58476D1CE4E5B9"
  let ?b = "\<lambda>p. (?a p XOR drop_bit 27 (?a p)) * 0x94D049BB133111EB"
  have "?b p XOR drop_bit 31 (?b p) = ?b q XOR drop_bit 31 (?b q)"
    using assms unfolding prng_next_def Let_def fst_conv .
  hence "?b p = ?b q"
    by (rule xorshift_inj) simp
  hence "?a p XOR drop_bit 27 (?a p) = ?a q XOR drop_bit 27 (?a q)"
    by (rule mult_inv_inj [of _ "0x319642b2d24d8ec3", rotated]) simp
  hence "?a p = ?a q"
    by (rule xorshift_inj) simp
  hence "?s p XOR drop_bit 30 (?s p) = ?s q XOR drop_bit 30 (?s q)"
    by (rule mult_inv_inj [of _ "0x96de1b173f119089", rotated]) simp
  hence "?s p = ?s q"
    by (rule xorshift_inj) simp
  thus ?thesis
    by simp
qed

lemma prng_state_Suc: "pr_state (snd (prng_next p)) = pr_state p + 0x9E3779B97F4A7C15"
  unfolding prng_next_def Let_def snd_conv by simp

lemma prng_run_nth:
  "i < n \<Longrightarrow> prng_run n p ! i = fst (prng_next \<lparr>pr_state = pr_state p + of_nat i * 0x9E3779B97F4A7C15\<rparr>)"
proof (induction n arbitrary: i p)
  case (Suc n)
  have "fst (prng_next p) = fst (prng_next \<lparr>pr_state = pr_state p\<rparr>)"
    by (cases p) simp
  moreover have "pr_state (snd (prng_next p)) + of_nat j * 0x9E3779B97F4A7C15 = pr_state p + of_nat (Suc j) * 0x9E3779B97F4A7C15" for j
    by (simp only: prng_state_Suc of_nat_Suc distrib_right mult_1 add.assoc)
  ultimately show ?case
    using Suc by (cases i) (simp_all only: split_beta Let_def prng_run.simps nth_Cons_0 nth_Cons_Suc semiring_1_class.of_nat_0
        mult_zero_left add_0_right Suc_less_eq)
qed simp

lemma length_prng_run [simp]: "length (prng_run n p) = n"
  by (induction n arbitrary: p) (auto simp: split_beta Let_def)

lemma prng_run_distinct:
  assumes "n \<le> 2 ^ 64"
  shows "distinct (prng_run n p)"
proof (unfold distinct_conv_nth, intro allI impI)
  fix i j
  assume ij: "i < length (prng_run n p)" "j < length (prng_run n p)" "i \<noteq> j"
  show "prng_run n p ! i \<noteq> prng_run n p ! j"
  proof
    assume "prng_run n p ! i = prng_run n p ! j"
    hence "pr_state p + of_nat i * 0x9E3779B97F4A7C15 = pr_state p + of_nat j * (0x9E3779B97F4A7C15 :: u64)"
      using ij prng_next_inj unfolding length_prng_run by (metis prng_run_nth prng.select_convs(1))
    hence "of_nat i * 0x9E3779B97F4A7C15 = of_nat j * (0x9E3779B97F4A7C15 :: u64)"
      by simp
    hence "of_nat i = (of_nat j :: u64)"
      by (rule mult_inv_inj [of _ "0xf1de83e19937733d", rotated]) simp
    hence "unat (of_nat i :: u64) = unat (of_nat j :: u64)"
      by simp
    hence "i = j"
      using ij assms by (simp add: unat_of_nat)
    with ij show False
      by simp
  qed
qed

lemma intn_range: "0 < n \<Longrightarrow> 0 \<le> fst (intn n p) \<and> fst (intn n p) < n"
  by (simp add: intn_def split_beta Let_def)

section \<open>The argument vector\<close>

lemma buildArgs_order:
  assumes "order_of ps ks" "order_of ps ks'"
  shows "buildArgs show ks action ft node ps = buildArgs show ks' action ft node ps"
proof -
  have "sort ks = sort ks'"
    using order_of_mset_unique [OF assms] by (metis mset_sort properties_for_sort sorted_sort)
  thus ?thesis
    by (simp add: buildArgs_def Let_def)
qed

lemma buildArgs_heal: "action \<noteq> actionInject \<Longrightarrow> buildArgs show ks action ft node ps = buildArgs show [] action '''' node Map.empty"
  by (simp add: buildArgs_def)

section \<open>The plan\<close>

text \<open>The offsets at which a spec's fault is injected in a window, in closed form.\<close>

definition occ_times :: "duration \<Rightarrow> FaultSpec \<Rightarrow> duration list" where
  "occ_times win sp =
     (if win \<le> 0 then [fs_At sp]
      else if fs_Repeat sp \<le> 0 then (if fs_At sp < win then [fs_At sp] else [])
      else map (\<lambda>k. fs_At sp + int k * fs_Repeat sp) [0..<nat ((win - fs_At sp + fs_Repeat sp - 1) div fs_Repeat sp)])"

definition spec_occs :: "duration \<Rightarrow> nat \<Rightarrow> FaultSpec \<Rightarrow> occ list" where
  "spec_occs win i sp = map (\<lambda>t. \<lparr>oc_at = t, oc_idx = i, oc_spec = sp\<rparr>) (occ_times win sp)"

definition all_occs :: "duration \<Rightarrow> FaultSpec list \<Rightarrow> occ list" where
  "all_occs win specs = sort_key (\<lambda>oc. (oc_at oc, oc_idx oc)) (concat (map (\<lambda>(i, sp). spec_occs win i sp) (enumerate 0 specs)))"

definition spec_fits :: "duration \<Rightarrow> FaultSpec \<Rightarrow> bool" where
  "spec_fits win sp \<longleftrightarrow> in64 (fs_At sp) \<and> in64 (win + fs_Repeat sp)"

definition eligible :: "Node list \<Rightarrow> Fault \<Rightarrow> Node \<Rightarrow> bool" where
  "eligible nodes f n \<longleftrightarrow>
     (if f_Target f \<noteq> '''' then n_ID n = f_Target f \<and>
        (n \<in> set nodes \<or> f_Target f \<notin> n_ID ` set nodes \<and> n = zero_Node\<lparr>n_ID := f_Target f\<rparr>)
      else n \<in> set nodes \<or> nodes = [] \<and> n = zero_Node)"

lemma occ_count_step:
  assumes "0 < r" "t < win"
  shows "nat ((win - t + r - 1) div r) = Suc (nat ((win - (t + r) + r - 1) div r))"
proof -
  have "(win - t + r - 1) div r = (win - t - 1) div r + 1"
    using div_add_self2 [of r "win - t - 1"] assms(1) by (simp add: algebra_simps)
  moreover have "0 \<le> (win - t - 1) div r"
    using assms by (simp add: pos_imp_zdiv_nonneg_iff)
  ultimately show ?thesis
    by simp
qed

lemma occ_loop_repeat:
  assumes "0 < win" "0 < fs_Repeat sp" "in64 t" "in64 (win + fs_Repeat sp)"
  shows "occ_loop win i sp t occs = Some (occs @ map (\<lambda>t. \<lparr>oc_at = t, oc_idx = i, oc_spec = sp\<rparr>)
      (map (\<lambda>k. t + int k * fs_Repeat sp) [0..<nat ((win - t + fs_Repeat sp - 1) div fs_Repeat sp)]))"
  using assms
proof (induction "nat (win - t)" arbitrary: t occs rule: less_induct)
  case less
  let ?r = "fs_Repeat sp"
  show ?case
  proof (cases "win \<le> t")
    case True
    have "(win - t + ?r - 1) div ?r \<le> 0"
      using True less.prems(2) div_pos_pos_trivial [of "?r - 1" ?r] zdiv_mono1 [of "win - t + ?r - 1" "?r - 1" ?r] by simp
    thus ?thesis
      using True less.prems(1) by (subst occ_loop.simps) simp
  next
    case False
    have t: "in64 (t + ?r)"
      using False less.prems unfolding in64_def by linarith
    let ?n = "nat ((win - (t + ?r) + ?r - 1) div ?r)"
    have "map (\<lambda>k. t + int k * ?r) [0..<Suc ?n] = t # map (\<lambda>k. (t + ?r) + int k * ?r) [0..<?n]"
      by (simp only: upt_conv_Cons [OF zero_less_Suc] map_Suc_upt [symmetric] list.map map_map o_def)
        (simp add: algebra_simps)
    moreover have "occ_loop win i sp (t + ?r) (occs @ [\<lparr>oc_at = t, oc_idx = i, oc_spec = sp\<rparr>]) =
        Some ((occs @ [\<lparr>oc_at = t, oc_idx = i, oc_spec = sp\<rparr>]) @ map (\<lambda>t. \<lparr>oc_at = t, oc_idx = i, oc_spec = sp\<rparr>)
          (map (\<lambda>k. (t + ?r) + int k * ?r) [0..<?n]))"
      using False less.prems t by (intro less.hyps) auto
    ultimately show ?thesis
      using False less.prems t occ_count_step [of ?r t win] by (subst occ_loop.simps) (simp add: Let_def)
  qed
qed

lemma occ_loop_spec:
  assumes "spec_fits win sp"
  shows "occ_loop win i sp (fs_At sp) occs = Some (occs @ spec_occs win i sp)"
proof (cases "0 < win \<and> 0 < fs_Repeat sp")
  case True
  thus ?thesis
    using assms occ_loop_repeat [of win sp "fs_At sp" i occs] by (simp add: spec_fits_def spec_occs_def occ_times_def)
next
  case False
  thus ?thesis
    by (subst occ_loop.simps) (auto simp: spec_occs_def occ_times_def Let_def)
qed

lemma spec_loop_spec:
  "\<forall>sp\<in>set specs. spec_fits win sp \<Longrightarrow>
   spec_loop win i specs occs = Some (occs @ concat (map (\<lambda>(i, sp). spec_occs win i sp) (enumerate i specs)))"
proof (induction specs arbitrary: i occs)
  case (Cons sp specs)
  have "occ_loop win i sp (fs_At sp) occs = Some (occs @ spec_occs win i sp)"
    using Cons.prems by (intro occ_loop_spec) simp
  thus ?case
    using Cons by simp
qed simp

lemma find_id: "find (\<lambda>n. n_ID n = t) nodes = Some n \<Longrightarrow> n \<in> set nodes \<and> n_ID n = t"
  by (auto simp: find_Some_iff)

lemma pick_eligible: "eligible nodes f (fst (pick nodes f rng))"
proof (cases "f_Target f = ''''")
  case True
  have "nat (fst (intn (int (length nodes)) rng)) < length nodes" if "nodes \<noteq> []"
    using intn_range [of "int (length nodes)" rng] that by auto
  thus ?thesis
    using True by (auto simp: pick_def eligible_def split_beta)
next
  case False
  thus ?thesis
    by (auto simp: pick_def eligible_def find_None_iff dest: find_id split: option.splits)
qed

lemma act_loop_picks:
  "\<exists>picked. list_all2 (\<lambda>oc n. eligible nodes (fs_Fault (oc_spec oc)) n) ocs picked \<and>
     act_loop nodes ocs rng = concat (map2 occ_actions ocs picked)"
proof (induction ocs arbitrary: rng)
  case (Cons oc ocs)
  obtain n rng' where p: "pick nodes (fs_Fault (oc_spec oc)) rng = (n, rng')"
    by (cases "pick nodes (fs_Fault (oc_spec oc)) rng") auto
  obtain picked where "list_all2 (\<lambda>oc n. eligible nodes (fs_Fault (oc_spec oc)) n) ocs picked"
      "act_loop nodes ocs rng' = concat (map2 occ_actions ocs picked)"
    using Cons.IH by blast
  thus ?case
    using p pick_eligible [of nodes "fs_Fault (oc_spec oc)" rng] by (intro exI [of _ "n # picked"]) simp
qed simp

lemma plan_picks:
  assumes "\<forall>sp\<in>set specs. spec_fits win sp"
  shows "\<exists>acts picked. plan nodes seed specs win = Some acts \<and> sorted (map a_at acts) \<and>
    list_all2 (\<lambda>oc n. eligible nodes (fs_Fault (oc_spec oc)) n) (all_occs win specs) picked \<and>
    mset acts = mset (concat (map2 occ_actions (all_occs win specs) picked))"
proof -
  obtain picked where p: "list_all2 (\<lambda>oc n. eligible nodes (fs_Fault (oc_spec oc)) n) (all_occs win specs) picked"
      "act_loop nodes (all_occs win specs) (newPRNG seed) = concat (map2 occ_actions (all_occs win specs) picked)"
    using act_loop_picks by blast
  have "plan nodes seed specs win = Some (sort_key a_at (act_loop nodes (all_occs win specs) (newPRNG seed)))"
    using spec_loop_spec [OF assms] by (simp add: plan_def all_occs_def)
  thus ?thesis
    using p by (intro exI [of _ "sort_key a_at (act_loop nodes (all_occs win specs) (newPRNG seed))"] exI [of _ picked]) simp
qed

section \<open>Running the plan\<close>

abbreviation inject_event :: "action \<Rightarrow> err option \<Rightarrow> nemesis_Event" where
  "inject_event a e \<equiv>
     \<lparr>ev_At = a_at a, ev_Action = actionInject, ev_Type = a_ft a, ev_Node = n_ID (a_node a), ev_Err = errStr e\<rparr>"

abbreviation heal_event :: "duration \<Rightarrow> string \<Rightarrow> err option \<Rightarrow> nemesis_Event" where
  "heal_event t x e \<equiv> \<lparr>ev_At = t, ev_Action = actionHeal, ev_Type = '''', ev_Node = x, ev_Err = errStr e\<rparr>"

abbreviation fault_of :: "action \<Rightarrow> Fault" where
  "fault_of a \<equiv> \<lparr>f_Type = a_ft a, f_Target = n_ID (a_node a), f_Params = a_params a\<rparr>"

lemma actions_differ [simp]: "actionInject \<noteq> actionHeal" "actionHeal \<noteq> actionInject"
  by (simp_all add: actionInject_def actionHeal_def)

text \<open>What the waiting, injecting and healing steps keep holds at the end of the loop.\<close>

lemma run_loop_keeps:
  assumes "run_loop env t0 acts events out w = (events', out', w')" "P events out w"
    and wait: "\<And>t events out w b w1. P events out w \<Longrightarrow> nemesis_waitUntil env t w = (b, w1) \<Longrightarrow> P events out w1"
    and inject: "\<And>a events out w e w1. a \<in> set acts \<Longrightarrow> P events out w \<Longrightarrow> fe_Inject env (fault_of a) (a_node a) w = (e, w1) \<Longrightarrow>
      P (events @ [inject_event a e]) (if e = None then AList.update (n_ID (a_node a)) (a_node a) out else out) w1"
    and heal: "\<And>(a :: action) events out w e w1. a \<in> set acts \<Longrightarrow> P events out w \<Longrightarrow> fe_Heal env RunCtx (a_node a) w = (e, w1) \<Longrightarrow>
      P (events @ [heal_event (a_at a) (n_ID (a_node a)) e]) (AList.delete (n_ID (a_node a)) out) w1"
  shows "P events' out' w'"
  using assms(1,2) inject heal
proof (induction acts arbitrary: events out w)
  case (Cons a acts)
  obtain b w1 where w1: "nemesis_waitUntil env (t0 + a_at a) w = (b, w1)"
    by force
  note p1 = wait [OF Cons.prems(2) w1]
  show ?case
  proof (cases b)
    case False
    thus ?thesis
      using Cons.prems(1) w1 p1 by simp
  next
    case True
    show ?thesis
    proof (cases "a_inject a")
      case inj: True
      obtain e w2 where w2: "fe_Inject env (fault_of a) (a_node a) w1 = (e, w2)"
        by force
      show ?thesis
        using Cons.prems(1) w1 True inj w2 by (intro Cons.IH [OF _ Cons.prems(3) [OF _ p1 w2] Cons.prems(3,4)]) simp_all
    next
      case inj: False
      obtain e w2 where w2: "fe_Heal env RunCtx (a_node a) w1 = (e, w2)"
        by force
      show ?thesis
        using Cons.prems(1) w1 True inj w2 by (intro Cons.IH [OF _ Cons.prems(4) [OF _ p1 w2] Cons.prems(3,4)]) simp_all
    qed
  qed
qed simp

definition ok_inject :: "nemesis_Event \<Rightarrow> bool" where
  "ok_inject e \<longleftrightarrow> ev_Action e = actionInject \<and> ev_Err e = ''''"

definition heal_of :: "string \<Rightarrow> nemesis_Event \<Rightarrow> bool" where
  "heal_of x e \<longleftrightarrow> ev_Action e = actionHeal \<and> ev_Node e = x"

text \<open>Every successful injection is followed by a heal of its node, but for the nodes of \<open>S\<close>.\<close>

definition healed_but :: "string set \<Rightarrow> nemesis_Event list \<Rightarrow> bool" where
  "healed_but S evs \<longleftrightarrow> (\<forall>i<length evs. ok_inject (evs ! i) \<longrightarrow>
     ev_Node (evs ! i) \<in> S \<or> (\<exists>j<length evs. i < j \<and> heal_of (ev_Node (evs ! i)) (evs ! j)))"

definition errors_have_text :: "'w fault_env \<Rightarrow> bool" where
  "errors_have_text env \<longleftrightarrow> (\<forall>f n w. fst (fe_Inject env f n w) \<noteq> Some '''') \<and> (\<forall>c n w. fst (fe_Heal env c n w) \<noteq> Some '''')"

lemma healed_but_mono: "healed_but S evs \<Longrightarrow> S \<subseteq> S' \<Longrightarrow> healed_but S' evs"
  unfolding healed_but_def by blast

lemma healed_but_snoc:
  assumes "healed_but S evs" "ok_inject e \<Longrightarrow> ev_Node e \<in> S'" "\<And>x. x \<in> S \<Longrightarrow> x \<in> S' \<or> heal_of x e"
  shows "healed_but S' (evs @ [e])"
  unfolding healed_but_def
proof (intro allI impI)
  fix i
  assume i: "i < length (evs @ [e])" "ok_inject ((evs @ [e]) ! i)"
  let ?x = "ev_Node ((evs @ [e]) ! i)"
  show "?x \<in> S' \<or> (\<exists>j<length (evs @ [e]). i < j \<and> heal_of ?x ((evs @ [e]) ! j))"
  proof (cases "i = length evs")
    case True
    thus ?thesis
      using i assms(2) by simp
  next
    case False
    hence il: "i < length evs"
      using i(1) by simp
    then consider "?x \<in> S" | j where "j < length evs" "i < j" "heal_of ?x (evs ! j)"
      using assms(1) i(2) unfolding healed_but_def by (auto simp: nth_append)
    thus ?thesis
    proof cases
      case 1
      thus ?thesis
        using assms(3) [OF 1] il by (auto intro!: exI [of _ "length evs"])
    next
      case 2
      thus ?thesis
        by (intro disjI2 exI [of _ j]) (simp add: nth_append)
    qed
  qed
qed

lemma update_keys: "fst ` set (AList.update k v al) = insert k (fst ` set al)"
  using dom_update [of k v al] by (simp add: dom_map_of_conv_image_fst)

lemma update_entries: "set (AList.update k v al) \<subseteq> insert (k, v) (set al)"
  by (induction al) auto

lemma delete_keys: "fst ` set (AList.delete k al) = fst ` set al - {k}"
  by (auto simp: AList.delete_eq)

lemma run_loop_healed:
  assumes "run_loop env t0 acts [] [] w = (evs, out, w')" "errors_have_text env"
  shows "healed_but (fst ` set out) evs"
proof (rule run_loop_keeps [OF assms(1), where P = "\<lambda>evs (out :: (string \<times> Node) list) w. healed_but (fst ` set out) evs"])
  show "healed_but (fst ` set []) []"
    by (simp add: healed_but_def)
next
  fix a :: action and evs and out :: "(string \<times> Node) list" and w e w1
  assume "healed_but (fst ` set out) evs" "fe_Inject env (fault_of a) (a_node a) w = (e, w1)"
  moreover from this(2) have "e \<noteq> Some ''''"
    using assms(2) unfolding errors_have_text_def by (metis fst_conv)
  ultimately show "healed_but (fst ` set (if e = None then AList.update (n_ID (a_node a)) (a_node a) out else out))
      (evs @ [inject_event a e])"
    by (intro healed_but_snoc) (auto simp: update_keys ok_inject_def errStr_def split: option.splits)
next
  fix a :: action and evs and out :: "(string \<times> Node) list" and w e w1
  assume "healed_but (fst ` set out) evs"
  thus "healed_but (fst ` set (AList.delete (n_ID (a_node a)) out)) (evs @ [heal_event (a_at a) (n_ID (a_node a)) e])"
    by (rule healed_but_snoc) (auto simp: delete_keys ok_inject_def heal_of_def)
qed

lemma heal_loop_healed: "heal_loop env t0 out xs evs w = (evs', w') \<Longrightarrow> healed_but (set xs) evs \<Longrightarrow> healed_but {} evs'"
proof (induction xs arbitrary: evs w)
  case (Cons x xs)
  obtain e w1 where h: "fe_Heal env FreshCtx (case map_of out x of Some n \<Rightarrow> n | None \<Rightarrow> zero_Node) w = (e, w1)"
    by force
  have "healed_but (set xs) (evs @ [heal_event (time_sub (fe_now env w1) t0) x e])"
    using Cons.prems(2) by (rule healed_but_snoc) (auto simp: ok_inject_def heal_of_def)
  thus ?case
    using Cons.prems(1) h by (intro Cons.IH) simp_all
qed simp

lemma Run_healed:
  assumes "nemesis_Run env nodes seed deadline specs t0 w = Some (evs, w')" "errors_have_text env"
  shows "healed_but {} evs"
proof -
  obtain acts events out w1 where r: "run_loop env t0 acts [] [] w = (events, out, w1)" "healAll env t0 out events w1 = (evs, w')"
    using assms(1) by (auto simp: nemesis_Run_def split: option.splits prod.splits)
  note h = run_loop_healed [OF r(1) assms(2)]
  show ?thesis
  proof (cases "out = []")
    case True
    thus ?thesis
      using h r(2) by (simp add: healAll_def)
  next
    case False
    show ?thesis
      using h r(2) False by (intro heal_loop_healed [of env t0 out "sort (map fst out)" events w1 evs w']) (simp_all add: healAll_def)
  qed
qed

text \<open>
  The part of a node the controller acts on, and the contract of a fault controller: an
  injection that succeeds may fault its node and one that fails faults nothing, a heal that
  succeeds ends the fault, and waiting faults nothing.
\<close>

definition endpoint :: "Node \<Rightarrow> string \<times> string \<times> string" where
  "endpoint n = (ce_Method (n_Control n), ce_Ref (n_Control n), ce_Namespace (n_Control n))"

definition fault_contract :: "'w fault_env \<Rightarrow> ('w \<Rightarrow> (string \<times> string \<times> string) set) \<Rightarrow> bool" where
  "fault_contract env faulted \<longleftrightarrow>
     (\<forall>f n w e w'. fe_Inject env f n w = (e, w') \<longrightarrow>
        faulted w' \<subseteq> (if e = None then insert (endpoint n) (faulted w) else faulted w)) \<and>
     (\<forall>c n w e w'. fe_Heal env c n w = (e, w') \<longrightarrow>
        faulted w' \<subseteq> (if e = None then faulted w - {endpoint n} else faulted w)) \<and>
     (\<forall>d w b w'. fe_timer env d w = (b, w') \<longrightarrow> faulted w' \<subseteq> faulted w)"

definition heal_failed :: "nemesis_Event list \<Rightarrow> string \<Rightarrow> bool" where
  "heal_failed evs x \<longleftrightarrow> (\<exists>e\<in>set evs. heal_of x e \<and> ev_Err e \<noteq> '''')"

definition candidates :: "Node list \<Rightarrow> Node set" where
  "candidates nodes = set nodes \<union> (\<lambda>x. zero_Node\<lparr>n_ID := x\<rparr>) ` (- (n_ID ` set nodes))"

text \<open>The endpoints faulted since \<open>w0\<close> are those of open nodes and of nodes with a failed heal.\<close>

definition accounted :: "('w \<Rightarrow> (string \<times> string \<times> string) set) \<Rightarrow> Node set \<Rightarrow> 'w \<Rightarrow> string set \<Rightarrow> nemesis_Event list \<Rightarrow> 'w \<Rightarrow> bool" where
  "accounted faulted N w0 opn evs w \<longleftrightarrow>
     (\<forall>c\<in>faulted w - faulted w0. \<exists>n\<in>N. endpoint n = c \<and> (n_ID n \<in> opn \<or> heal_failed evs (n_ID n)))"

lemma candidates_inj:
  assumes "distinct (map n_ID nodes)"
  shows "inj_on n_ID (candidates nodes)"
proof (rule inj_onI)
  fix m n
  assume mn: "m \<in> candidates nodes" "n \<in> candidates nodes" "n_ID m = n_ID n"
  have cand: "n \<in> set nodes \<or> (\<exists>x. x \<notin> n_ID ` set nodes \<and> n = zero_Node\<lparr>n_ID := x\<rparr>)" if "n \<in> candidates nodes" for n
    using that unfolding candidates_def by blast
  have "inj_on n_ID (set nodes)"
    using assms by (simp add: distinct_map)
  thus "m = n"
    using cand [OF mn(1)] cand [OF mn(2)] mn(3) by (auto dest: inj_onD)
qed

lemma eligible_candidates: "eligible nodes f n \<Longrightarrow> n \<in> candidates nodes"
  by (auto simp: eligible_def candidates_def zero_Node_def image_iff split: if_splits)

lemma heal_failed_mono: "heal_failed evs x \<Longrightarrow> heal_failed (evs @ es) x"
  by (auto simp: heal_failed_def)

lemma accounted_heal:
  assumes "accounted faulted N w0 opn evs w" "inj_on n_ID N" "n \<in> N" "n_ID n = x"
    "faulted w1 \<subseteq> (if e = None then faulted w - {endpoint n} else faulted w)" "e \<noteq> Some ''''"
  shows "accounted faulted N w0 (opn - {x}) (evs @ [heal_event t x e]) w1"
  unfolding accounted_def
proof
  fix c
  assume c: "c \<in> faulted w1 - faulted w0"
  hence "c \<in> faulted w - faulted w0"
    using assms(5) by (auto split: if_splits)
  then obtain m where m: "m \<in> N" "endpoint m = c" "n_ID m \<in> opn \<or> heal_failed evs (n_ID m)"
    using assms(1) unfolding accounted_def by blast
  have "n_ID m \<noteq> x \<or> heal_failed (evs @ [heal_event t x e]) x"
  proof (cases e)
    case None
    hence "m \<noteq> n"
      using assms(5) c m(2) by auto
    thus ?thesis
      using assms(2,3,4) m(1) by (auto dest: inj_onD)
  next
    case (Some s)
    thus ?thesis
      using assms(6) by (auto simp: heal_failed_def heal_of_def errStr_def)
  qed
  thus "\<exists>n\<in>N. endpoint n = c \<and> (n_ID n \<in> opn - {x} \<or> heal_failed (evs @ [heal_event t x e]) (n_ID n))"
    using m heal_failed_mono by blast
qed

lemma accounted_inject:
  assumes "accounted faulted N w0 opn evs w" "n \<in> N" "opn \<subseteq> opn'" "e = None \<longrightarrow> n_ID n \<in> opn'"
    "faulted w1 \<subseteq> (if e = None then insert (endpoint n) (faulted w) else faulted w)"
  shows "accounted faulted N w0 opn' (evs @ [ev]) w1"
  unfolding accounted_def
proof
  fix c
  assume c: "c \<in> faulted w1 - faulted w0"
  show "\<exists>n\<in>N. endpoint n = c \<and> (n_ID n \<in> opn' \<or> heal_failed (evs @ [ev]) (n_ID n))"
  proof (cases "c \<in> faulted w")
    case True
    then obtain m where "m \<in> N" "endpoint m = c" "n_ID m \<in> opn \<or> heal_failed evs (n_ID m)"
      using assms(1) c unfolding accounted_def by blast
    thus ?thesis
      using assms(3) heal_failed_mono by blast
  next
    case False
    hence "e = None" "c = endpoint n"
      using assms(5) c by (auto split: if_splits)
    thus ?thesis
      using assms(2,4) by blast
  qed
qed

lemma waitUntil_keeps:
  "fault_contract env faulted \<Longrightarrow> nemesis_waitUntil env t w = (b, w1) \<Longrightarrow> faulted w1 \<subseteq> faulted w"
  by (auto simp: fault_contract_def nemesis_waitUntil_def Let_def split: if_splits)

lemma Heal_keeps:
  assumes "fault_contract env faulted" "errors_have_text env" "fe_Heal env c n w = (e, w1)"
  shows "faulted w1 \<subseteq> (if e = None then faulted w - {endpoint n} else faulted w)" "e \<noteq> Some ''''"
proof -
  show "faulted w1 \<subseteq> (if e = None then faulted w - {endpoint n} else faulted w)"
    using assms(1,3) unfolding fault_contract_def by blast
  show "e \<noteq> Some ''''"
    using assms(2,3) unfolding errors_have_text_def by (metis fst_conv)
qed

lemma run_loop_accounted:
  assumes "run_loop env t0 acts [] [] w0 = (evs, out, w')" "fault_contract env faulted" "errors_have_text env"
    "inj_on n_ID N" "\<forall>a\<in>set acts. a_node a \<in> N"
  shows "accounted faulted N w0 (fst ` set out) evs w' \<and> (\<forall>(x, n)\<in>set out. n \<in> N \<and> n_ID n = x)"
proof (rule run_loop_keeps [OF assms(1), where P = "\<lambda>evs (out :: (string \<times> Node) list) w.
      accounted faulted N w0 (fst ` set out) evs w \<and> (\<forall>(x, n)\<in>set out. n \<in> N \<and> n_ID n = x)"])
  show "accounted faulted N w0 (fst ` set []) [] w0 \<and> (\<forall>(x, n)\<in>set []. n \<in> N \<and> n_ID n = x)"
    by (simp add: accounted_def)
next
  fix t evs and out :: "(string \<times> Node) list" and w b w1
  assume "accounted faulted N w0 (fst ` set out) evs w \<and> (\<forall>(x, n)\<in>set out. n \<in> N \<and> n_ID n = x)"
    "nemesis_waitUntil env t w = (b, w1)"
  thus "accounted faulted N w0 (fst ` set out) evs w1 \<and> (\<forall>(x, n)\<in>set out. n \<in> N \<and> n_ID n = x)"
    using waitUntil_keeps [OF assms(2)] unfolding accounted_def by blast
next
  fix a :: action and evs and out :: "(string \<times> Node) list" and w e w1
  let ?n = "a_node a"
  assume a: "a \<in> set acts" "accounted faulted N w0 (fst ` set out) evs w \<and> (\<forall>(x, n)\<in>set out. n \<in> N \<and> n_ID n = x)"
    "fe_Inject env (fault_of a) ?n w = (e, w1)"
  have f: "faulted w1 \<subseteq> (if e = None then insert (endpoint ?n) (faulted w) else faulted w)"
    using assms(2) a(3) unfolding fault_contract_def by blast
  have n: "?n \<in> N"
    using assms(5) a(1) by blast
  let ?out = "if e = None then AList.update (n_ID ?n) ?n out else out"
  have "accounted faulted N w0 (fst ` set ?out) (evs @ [inject_event a e]) w1"
    using a(2) n f by (intro accounted_inject [where w = w and n = "a_node a" and e = e and opn = "fst ` set out"]) (auto simp: update_keys)
  moreover have "\<forall>(x, n)\<in>set ?out. n \<in> N \<and> n_ID n = x"
    using a(2) n update_entries [of "n_ID ?n" ?n out] by (auto split: if_splits)
  ultimately show "accounted faulted N w0 (fst ` set ?out) (evs @ [inject_event a e]) w1 \<and> (\<forall>(x, n)\<in>set ?out. n \<in> N \<and> n_ID n = x)"
    by blast
next
  fix a :: action and evs and out :: "(string \<times> Node) list" and w e w1
  assume a: "a \<in> set acts" "accounted faulted N w0 (fst ` set out) evs w \<and> (\<forall>(x, n)\<in>set out. n \<in> N \<and> n_ID n = x)"
    "fe_Heal env RunCtx (a_node a) w = (e, w1)"
  note h = Heal_keeps [OF assms(2,3) a(3)]
  have "accounted faulted N w0 (fst ` set out - {n_ID (a_node a)}) (evs @ [heal_event (a_at a) (n_ID (a_node a)) e]) w1"
    using a assms(4,5) h by (intro accounted_heal [where w = w and n = "a_node a"]) auto
  moreover have "set (AList.delete (n_ID (a_node a)) out) \<subseteq> set out"
    by (auto simp: AList.delete_eq)
  ultimately show "accounted faulted N w0 (fst ` set (AList.delete (n_ID (a_node a)) out))
      (evs @ [heal_event (a_at a) (n_ID (a_node a)) e]) w1 \<and>
      (\<forall>(x, n)\<in>set (AList.delete (n_ID (a_node a)) out). n \<in> N \<and> n_ID n = x)"
    using a(2) by (auto simp: delete_keys)
qed

lemma heal_loop_accounted:
  assumes "heal_loop env t0 out xs evs w = (evs', w')" "fault_contract env faulted" "errors_have_text env" "inj_on n_ID N"
    "\<forall>(x, n)\<in>set out. n \<in> N \<and> n_ID n = x" "set xs \<subseteq> fst ` set out" "accounted faulted N w0 (set xs) evs w"
  shows "accounted faulted N w0 {} evs' w'"
  using assms(1,6,7)
proof (induction xs arbitrary: evs w)
  case (Cons x xs)
  obtain n where n: "map_of out x = Some n"
    using Cons.prems(2) by (cases "map_of out x") (auto simp: map_of_eq_None_iff)
  hence nN: "n \<in> N" "n_ID n = x"
    using assms(5) map_of_SomeD by fast+
  obtain e w1 where h: "fe_Heal env FreshCtx n w = (e, w1)"
    by force
  have "accounted faulted N w0 (set (x # xs) - {x}) (evs @ [heal_event (time_sub (fe_now env w1) t0) x e]) w1"
    using Cons.prems(3) assms(4) nN Heal_keeps [OF assms(2,3) h] by (rule accounted_heal)
  hence "accounted faulted N w0 (set xs) (evs @ [heal_event (time_sub (fe_now env w1) t0) x e]) w1"
    unfolding accounted_def by auto
  thus ?case
    using Cons.prems(1,2) h n by (intro Cons.IH) simp_all
qed simp

lemma plan_nodes:
  assumes "plan nodes seed specs win = Some acts" "a \<in> set acts"
  shows "a_node a \<in> candidates nodes"
proof -
  obtain ocs where "set acts = set (act_loop nodes ocs (newPRNG seed))"
    using assms(1) by (auto simp: plan_def split: option.splits)
  moreover obtain picked where p: "list_all2 (\<lambda>oc n. eligible nodes (fs_Fault (oc_spec oc)) n) ocs picked"
      "act_loop nodes ocs (newPRNG seed) = concat (map2 occ_actions ocs picked)"
    using act_loop_picks by blast
  ultimately obtain oc n where on: "(oc, n) \<in> set (zip ocs picked)" "a \<in> set (occ_actions oc n)"
    using assms(2) by auto
  hence "a_node a = n" "eligible nodes (fs_Fault (oc_spec oc)) n"
    using p(1) by (auto simp: occ_actions_def list_all2_iff split: if_splits)
  thus ?thesis
    using eligible_candidates by blast
qed

lemma Run_accounted:
  assumes "nemesis_Run env nodes seed deadline specs t0 w = Some (evs, w')" "fault_contract env faulted"
    "errors_have_text env" "distinct (map n_ID nodes)"
  shows "accounted faulted (candidates nodes) w {} evs w'"
proof -
  obtain acts events out w1 where r: "plan nodes seed specs (window deadline specs t0) = Some acts"
      "run_loop env t0 acts [] [] w = (events, out, w1)" "healAll env t0 out events w1 = (evs, w')"
    using assms(1) by (auto simp: nemesis_Run_def split: option.splits prod.splits)
  note inj = candidates_inj [OF assms(4)]
  have acc: "accounted faulted (candidates nodes) w (fst ` set out) events w1"
      "\<forall>(x, n)\<in>set out. n \<in> candidates nodes \<and> n_ID n = x"
    using run_loop_accounted [OF r(2) assms(2,3) inj] plan_nodes [OF r(1)] by blast+
  show ?thesis
  proof (cases "out = []")
    case True
    thus ?thesis
      using acc(1) r(3) by (simp add: healAll_def)
  next
    case False
    have "heal_loop env t0 out (sort (map fst out)) events w1 = (evs, w')"
      using r(3) False by (simp add: healAll_def)
    thus ?thesis
      by (rule heal_loop_accounted [OF _ assms(2,3) inj acc(2)]) (simp_all add: acc(1))
  qed
qed

section \<open>A recorded controller\<close>

text \<open>
  A script that obeys its argument vector, in a world of a clock and the faulted endpoints;
  \<open>flaky\<close> makes it refuse to heal under the run's own context.
\<close>

definition demo_script :: "(instant \<times> (string \<times> string \<times> string) set) script_runner" where
  "demo_script path args w =
     (let c = (args ! 2, args ! 4, if length args > 6 \<and> args ! 5 = ''--namespace'' then args ! 6 else '''')
      in (None, fst w, if args ! 0 = actionInject then insert c (snd w) else snd w - {c}))"

definition demo_env :: "bool \<Rightarrow> (instant \<times> (string \<times> string \<times> string) set) fault_env" where
  "demo_env flaky =
     \<lparr>fe_Inject = ScriptController_Inject demo_script ''fault.sh'' (\<lambda>_. '''') (\<lambda>_. []),
      fe_Heal = (\<lambda>c n w. if flaky \<and> c = RunCtx then (Some ''exit status 1'', w)
                         else ScriptController_Heal demo_script ''fault.sh'' (\<lambda>_. '''') n w),
      fe_now = fst, fe_done = (\<lambda>_. False), fe_timer = (\<lambda>d w. (True, fst w + d, snd w))\<rparr>"

definition demo_node :: Node where
  "demo_node = \<lparr>n_ID = ''n0'', n_Role = RolePrimary, n_Client = ''localhost:6379'',
     n_Control = \<lparr>ce_Method = ControlDocker, ce_Ref = ''redis-0'', ce_Namespace = '''', ce_Extra = Map.empty\<rparr>\<rparr>"

definition demo_fault :: "duration \<Rightarrow> FaultSpec" where
  "demo_fault d = \<lparr>fs_Fault = \<lparr>f_Type = ''kill-node'', f_Target = ''n0'', f_Params = Map.empty\<rparr>,
     fs_At = second, fs_Duration = d, fs_Repeat = 0\<rparr>"

lemma demo_script_endpoint:
  "demo_script path (buildArgs show ks action ft n ps) w =
     (None, fst w, if action = actionInject then insert (endpoint n) (snd w) else snd w - {endpoint n})"
  by (simp add: demo_script_def buildArgs_def endpoint_def Let_def nth_append)

lemma demo_contract: "fault_contract (demo_env b) snd"
  by (auto simp: fault_contract_def demo_env_def ScriptController_Inject_def ScriptController_Heal_def demo_script_endpoint
      split: if_splits)

lemma demo_errors: "errors_have_text (demo_env b)"
  by (simp add: errors_have_text_def demo_env_def ScriptController_Inject_def ScriptController_Heal_def demo_script_endpoint)

section \<open>Properties\<close>





text \<open>What a run leaves behind. Against a controller that keeps its contract, with distinct
  node ids, an endpoint that is faulted after the run and was not before belongs to a node for
  which the timeline shows a failed heal; in particular nothing stays faulted when every heal
  succeeds, also when the run is cancelled.\<close>

lemma Run_leftover_faults:
  assumes "nemesis_Run env nodes seed deadline specs t0 w = Some (evs, w')" "fault_contract env faulted"
    "errors_have_text env" "distinct (map n_ID nodes)" "c \<in> faulted w'" "c \<notin> faulted w"
  shows "\<exists>n e. endpoint n = c \<and> e \<in> set evs \<and> ev_Action e = actionHeal \<and> ev_Node e = n_ID n \<and> ev_Err e \<noteq> ''''"
proof -
  obtain n where "endpoint n = c" "heal_failed evs (n_ID n)"
    using Run_accounted [OF assms(1-4)] assms(5,6) unfolding accounted_def by blast
  thus ?thesis
    unfolding heal_failed_def heal_of_def by blast
qed

lemma demo_flaky_run:
  "nemesis_Run (demo_env True) [demo_node] 7 (Some (10 * second)) [demo_fault second] 0 (0, {}) =
     Some ([\<lparr>ev_At = second, ev_Action = actionInject, ev_Type = ''kill-node'', ev_Node = ''n0'', ev_Err = ''''\<rparr>,
            \<lparr>ev_At = 2 * second, ev_Action = actionHeal, ev_Type = '''', ev_Node = ''n0'', ev_Err = ''exit status 1''\<rparr>],
           (2 * second, {endpoint demo_node}))"
proof -
  have occs: "spec_loop (10 * second) 0 [demo_fault second] [] = Some [\<lparr>oc_at = second, oc_idx = 0, oc_spec = demo_fault second\<rparr>]"
    by (simp add: occ_loop.simps demo_fault_def second_def)
  have win: "window (Some (10 * second)) [demo_fault second] 0 = 10 * second"
    by (simp add: window_def time_sub_def second_def)
  have p: "plan [demo_node] 7 [demo_fault second] (10 * second) =
      Some (occ_actions \<lparr>oc_at = second, oc_idx = 0, oc_spec = demo_fault second\<rparr> demo_node)"
    unfolding plan_def occs by (simp add: pick_def occ_actions_def demo_fault_def demo_node_def second_def i64_def)
  show ?thesis
    unfolding nemesis_Run_def win p
    by (simp add: occ_actions_def demo_fault_def nemesis_waitUntil_def demo_env_def ScriptController_Inject_def
        demo_script_endpoint time_sub_def second_def i64_def healAll_def errStr_def demo_node_def)
qed

text \<open>A scheduled heal that fails is not attempted again by the final cleanup, although the
  cleanup, which has a context of its own, would succeed.\<close>

theorem failed_heal_not_retried:
  "\<exists>evs w'. nemesis_Run (demo_env True) [demo_node] 7 (Some (10 * second)) [demo_fault second] 0 (0, {}) = Some (evs, w') \<and>
    endpoint demo_node \<in> snd w' \<and> fst (fe_Heal (demo_env True) FreshCtx demo_node w') = None"
  using demo_flaky_run by (simp add: demo_env_def ScriptController_Heal_def demo_script_endpoint)

text \<open>Without a deadline, a fault that is not to be healed (duration 0) and is the last of the
  schedule is never injected: the window ends at its own offset.\<close>

theorem last_fault_without_duration_dropped:
  assumes "0 < fs_At sp" "in64 (fs_At sp)" "fs_Duration sp = 0"
  shows "nemesis_Run env nodes seed None [sp] t0 w = Some ([], w)"
proof -
  have "window None [sp] t0 = fs_At sp"
    using assms by (simp add: window_def)
  thus ?thesis
    using assms by (simp add: nemesis_Run_def plan_def occ_loop.simps healAll_def)
qed

text \<open>The target generator. SplitMix64 repeats no output within \<open>2^64\<close> calls, from any seed,
  and \<open>intn\<close> stays below its bound.\<close>

lemma prng_full_period:
  assumes "k \<le> 2 ^ 64" "0 < n"
  shows "distinct (prng_run k (newPRNG seed)) \<and> length (prng_run k (newPRNG seed)) = k \<and>
    0 \<le> fst (intn n p) \<and> fst (intn n p) < n"
  using prng_run_distinct [OF assms(1), of "newPRNG seed"] intn_range [OF assms(2), of p] by simp

end
