(* ===== verification/Metrics.thy ===== *)
theory Metrics
  imports Domain
begin

text \<open>
  The package \<open>core/metrics\<close>: per-goroutine latency sinks (\<open>local.go\<close>), their merge, the
  snapshot and the merge of recorders (\<open>recorder.go\<close>), interval deltas (\<open>interval.go\<close>),
  millisecond summaries (\<open>percentiles.go\<close>), the wire format (\<open>codec.go\<close>) and the
  interval log (\<open>hlog.go\<close>). The HdrHistogram library is an argument, a record of the
  functions the package calls; \<open>lawful\<close> states what the package relies on: a histogram
  of a given range counts the recorded values per bucket, merging adds the counts, and
  the export and the encoding keep them. Counters are unbounded integers.
\<close>

section \<open>Definitions\<close>

subsection \<open>The histogram library\<close>

record 'h hist_lib =
  hl_New :: "int \<Rightarrow> int \<Rightarrow> int \<Rightarrow> 'h"
  hl_RecordValue :: "'h \<Rightarrow> int \<Rightarrow> 'h"
  hl_Merge :: "'h \<Rightarrow> 'h \<Rightarrow> 'h"
  hl_Counts :: "'h \<Rightarrow> int list"
  hl_Import :: "'h \<Rightarrow> int list \<Rightarrow> 'h"
  hl_TotalCount :: "'h \<Rightarrow> int"
  hl_ValueAtQuantile :: "'h \<Rightarrow> rat \<Rightarrow> int"
  hl_Mean :: "'h \<Rightarrow> rat"
  hl_Max :: "'h \<Rightarrow> int"
  hl_Encode :: "'h \<Rightarrow> err + string"
  hl_Decode :: "string \<Rightarrow> err + 'h"

subsection \<open>Summaries\<close>

definition defaultSigFigs :: int where "defaultSigFigs = 3"

definition defaultMaxLatency :: duration where "defaultMaxLatency = 60 * second"

definition newHist :: "'h hist_lib \<Rightarrow> int \<Rightarrow> int \<Rightarrow> 'h" where
  "newHist lib high sig = hl_New lib 1 high sig"

definition msAt :: "'h hist_lib \<Rightarrow> 'h \<Rightarrow> rat \<Rightarrow> rat" where
  "msAt lib h p = of_int (hl_ValueAtQuantile lib h p) / 1000000"

definition toPercentiles :: "'h hist_lib \<Rightarrow> 'h \<Rightarrow> Percentiles" where
  "toPercentiles lib h =
     \<lparr>pc_Count = hl_TotalCount lib h, pc_Mean = hl_Mean lib h / 1000000, pc_P50 = msAt lib h 50, pc_P90 = msAt lib h 90,
      pc_P95 = msAt lib h 95, pc_P99 = msAt lib h 99, pc_P999 = msAt lib h (999 / 10), pc_P9999 = msAt lib h (9999 / 100),
      pc_Max = of_int (hl_Max lib h) / 1000000\<rparr>"

subsection \<open>Local sinks\<close>

text \<open>A missing key of the error map counts as 0, as reading it does.\<close>

record 'h Local =
  lo_high :: int
  lo_sig :: int
  lo_overall :: 'h
  lo_byOp :: "OpType \<Rightarrow> 'h option"
  lo_errByOp :: "OpType \<Rightarrow> int"
  lo_errTotal :: int

definition newLocal :: "'h hist_lib \<Rightarrow> int \<Rightarrow> int \<Rightarrow> 'h Local" where
  "newLocal lib high sig =
     \<lparr>lo_high = high, lo_sig = sig, lo_overall = newHist lib high sig, lo_byOp = Map.empty, lo_errByOp = (\<lambda>_. 0), lo_errTotal = 0\<rparr>"

definition Local_Record :: "'h hist_lib \<Rightarrow> OpType \<Rightarrow> duration \<Rightarrow> bool \<Rightarrow> 'h Local \<Rightarrow> 'h Local" where
  "Local_Record lib op latency isErr l =
     (let ns0 = latency;
          ns1 = (if ns0 < 0 then 0 else ns0);
          ns = (if ns1 > lo_high l then lo_high l else ns1);
          h = (case lo_byOp l op of None \<Rightarrow> newHist lib (lo_high l) (lo_sig l) | Some h \<Rightarrow> h);
          l1 = l\<lparr>lo_overall := hl_RecordValue lib (lo_overall l) ns,
                 lo_byOp := (lo_byOp l)(op \<mapsto> hl_RecordValue lib h ns)\<rparr>
      in if isErr then l1\<lparr>lo_errByOp := (lo_errByOp l1)(op := lo_errByOp l1 op + 1), lo_errTotal := lo_errTotal l1 + 1\<rparr> else l1)"

subsection \<open>The recorder\<close>

record metrics_Options =
  mo_SignificantFigures :: int
  mo_MaxLatency :: duration

record 'h Recorder =
  rd_high :: int
  rd_sig :: int
  rd_locals :: "'h Local list"
  rd_prevSnap :: "OpType \<Rightarrow> int list option"
  rd_prevErr :: "OpType \<Rightarrow> int"

definition metrics_New :: "metrics_Options \<Rightarrow> 'h Recorder" where
  "metrics_New o1 =
     (let sig = (if mo_SignificantFigures o1 < 1 \<or> mo_SignificantFigures o1 > 5 then defaultSigFigs else mo_SignificantFigures o1);
          mx = (if mo_MaxLatency o1 \<le> 0 then defaultMaxLatency else mo_MaxLatency o1)
      in \<lparr>rd_high = mx, rd_sig = sig, rd_locals = [], rd_prevSnap = Map.empty, rd_prevErr = (\<lambda>_. 0)\<rparr>)"

definition Recorder_Local :: "'h hist_lib \<Rightarrow> 'h Recorder \<Rightarrow> 'h Recorder" where
  "Recorder_Local lib r = r\<lparr>rd_locals := rd_locals r @ [newLocal lib (rd_high r) (rd_sig r)]\<rparr>"

text \<open>A call of \<open>Record\<close> on the \<open>i\<close>-th sink of a recorder.\<close>

definition record_at :: "'h hist_lib \<Rightarrow> nat \<Rightarrow> OpType \<Rightarrow> duration \<Rightarrow> bool \<Rightarrow> 'h Recorder \<Rightarrow> 'h Recorder" where
  "record_at lib i op latency isErr r = r\<lparr>rd_locals := (rd_locals r)[i := Local_Record lib op latency isErr (rd_locals r ! i)]\<rparr>"

record 'h merged =
  mg_overall :: 'h
  mg_byOp :: "OpType \<Rightarrow> 'h option"
  mg_errByOp :: "OpType \<Rightarrow> int"
  mg_errTotal :: int

text \<open>The loops over the maps of a sink touch each operation type once, so they act pointwise.\<close>

definition merge_local :: "'h hist_lib \<Rightarrow> int \<Rightarrow> int \<Rightarrow> 'h Local \<Rightarrow> 'h merged \<Rightarrow> 'h merged" where
  "merge_local lib high sig l m =
     \<lparr>mg_overall = hl_Merge lib (mg_overall m) (lo_overall l),
      mg_byOp = (\<lambda>op. case lo_byOp l op of
                        None \<Rightarrow> mg_byOp m op
                      | Some h \<Rightarrow> Some (hl_Merge lib (case mg_byOp m op of None \<Rightarrow> newHist lib high sig | Some dst \<Rightarrow> dst) h)),
      mg_errByOp = (\<lambda>op. mg_errByOp m op + lo_errByOp l op),
      mg_errTotal = mg_errTotal m + lo_errTotal l\<rparr>"

definition collect :: "'h hist_lib \<Rightarrow> 'h Recorder \<Rightarrow> 'h merged" where
  "collect lib r = fold (merge_local lib (rd_high r) (rd_sig r)) (rd_locals r)
     \<lparr>mg_overall = newHist lib (rd_high r) (rd_sig r), mg_byOp = Map.empty, mg_errByOp = (\<lambda>_. 0), mg_errTotal = 0\<rparr>"

definition Snapshot :: "'h hist_lib \<Rightarrow> string \<Rightarrow> duration \<Rightarrow> 'h Recorder \<Rightarrow> RunResult" where
  "Snapshot lib phase dur r =
     (let m = collect lib r; total' = hl_TotalCount lib (mg_overall m)
      in \<lparr>rr_RunID = '''', rr_Phase = phase, rr_Total = total', rr_Errors = mg_errTotal m, rr_Duration = dur,
          rr_Throughput = (if dur > 0 then of_int total' / (of_int dur / of_int second) else 0),
          rr_Overall = toPercentiles lib (mg_overall m),
          rr_ByOp = (\<lambda>op. map_option (toPercentiles lib) (mg_byOp m op)), rr_ClientBound = False\<rparr>)"

definition Recorder_Merge :: "'h hist_lib \<Rightarrow> 'h Recorder \<Rightarrow> 'h Recorder \<Rightarrow> 'h Recorder" where
  "Recorder_Merge lib other r =
     (let om = collect lib other
      in r\<lparr>rd_locals := rd_locals r @
           [\<lparr>lo_high = rd_high r, lo_sig = rd_sig r, lo_overall = mg_overall om, lo_byOp = mg_byOp om,
             lo_errByOp = mg_errByOp om, lo_errTotal = mg_errTotal om\<rparr>]\<rparr>)"

subsection \<open>Intervals\<close>

definition delta_count :: "int list \<Rightarrow> int list \<Rightarrow> nat \<Rightarrow> int" where
  "delta_count cs prev i =
     (let d0 = cs ! i; d = (if i < length prev then d0 - prev ! i else d0) in if d < 0 then 0 else d)"

definition deltaHist :: "'h hist_lib \<Rightarrow> 'h \<Rightarrow> int list option \<Rightarrow> 'h" where
  "deltaHist lib cur prev =
     (let cs = hl_Counts lib cur
      in case prev of None \<Rightarrow> hl_Import lib cur cs | Some p \<Rightarrow> hl_Import lib cur (map (delta_count cs p) [0..<length cs]))"

fun interval_loop :: "'h hist_lib \<Rightarrow> instant \<Rightarrow> duration \<Rightarrow> 'h merged \<Rightarrow> OpType list \<Rightarrow> 'h Recorder \<Rightarrow> LatencySnapshot list \<times> 'h Recorder" where
  "interval_loop lib now dt m [] r = ([], r)"
| "interval_loop lib now dt m (op # ops) r =
     (case mg_byOp m op of
        None \<Rightarrow> interval_loop lib now dt m ops r
      | Some cur \<Rightarrow>
          (let delta = deltaHist lib cur (rd_prevSnap r op);
               snap = \<lparr>ls_T = now, ls_OpType = op,
                       ls_Throughput = (if dt > 0 then of_int (hl_TotalCount lib delta) / (of_int dt / of_int second) else 0),
                       ls_InFlight = 0, ls_Errors = mg_errByOp m op - rd_prevErr r op, ls_Pct = toPercentiles lib delta\<rparr>;
               r1 = r\<lparr>rd_prevSnap := (rd_prevSnap r)(op \<mapsto> hl_Counts lib cur), rd_prevErr := (rd_prevErr r)(op := mg_errByOp m op)\<rparr>;
               (out, r2) = interval_loop lib now dt m ops r1
           in (snap # out, r2)))"

text \<open>\<open>ks\<close> is the order in which the map of histograms is ranged over.\<close>

definition TakeInterval :: "'h hist_lib \<Rightarrow> OpType list \<Rightarrow> instant \<Rightarrow> duration \<Rightarrow> 'h Recorder \<Rightarrow> LatencySnapshot list \<times> 'h Recorder" where
  "TakeInterval lib ks now dt r = interval_loop lib now dt (collect lib r) (sort ks) r"

subsection \<open>Wire format\<close>

record wireEnvelope =
  en_High :: int
  en_Sig :: int
  en_Overall :: string
  en_ByOp :: "OpType \<Rightarrow> string option"
  en_ErrByOp :: "OpType \<Rightarrow> int"
  en_ErrTotal :: int

text \<open>The codecs of the standard library that \<open>Encode\<close> and \<open>Decode\<close> compose: JSON and base64.\<close>

record wire_codec =
  wc_Marshal :: "wireEnvelope \<Rightarrow> err + string"
  wc_Unmarshal :: "string \<Rightarrow> err + wireEnvelope"
  wc_EncodeToString :: "string \<Rightarrow> string"
  wc_DecodeString :: "string \<Rightarrow> err + string"

fun encode_ops :: "'h hist_lib \<Rightarrow> (OpType \<Rightarrow> 'h option) \<Rightarrow> OpType list \<Rightarrow> (OpType \<Rightarrow> string option) \<Rightarrow> err + (OpType \<Rightarrow> string option)" where
  "encode_ops lib byOp [] acc = Inr acc"
| "encode_ops lib byOp (op # ops) acc =
     (case byOp op of
        None \<Rightarrow> encode_ops lib byOp ops acc
      | Some h \<Rightarrow> (case hl_Encode lib h of
            Inl e \<Rightarrow> Inl (''encode op '' @ fmt_q op @ '': '' @ e)
          | Inr s \<Rightarrow> encode_ops lib byOp ops (acc(op \<mapsto> s))))"

definition Encode :: "'h hist_lib \<Rightarrow> wire_codec \<Rightarrow> OpType list \<Rightarrow> 'h Recorder \<Rightarrow> err + string" where
  "Encode lib wc ks r =
     (let m = collect lib r
      in case hl_Encode lib (mg_overall m) of
           Inl e \<Rightarrow> Inl (''encode overall: '' @ e)
         | Inr overall \<Rightarrow>
             (case encode_ops lib (mg_byOp m) ks Map.empty of
                Inl e \<Rightarrow> Inl e
              | Inr byOp \<Rightarrow>
                  (case wc_Marshal wc \<lparr>en_High = rd_high r, en_Sig = rd_sig r, en_Overall = overall, en_ByOp = byOp,
                                       en_ErrByOp = mg_errByOp m, en_ErrTotal = mg_errTotal m\<rparr> of
                     Inl e \<Rightarrow> Inl (''marshal envelope: '' @ e)
                   | Inr raw \<Rightarrow> Inr (wc_EncodeToString wc raw))))"

fun decode_ops :: "'h hist_lib \<Rightarrow> (OpType \<Rightarrow> string option) \<Rightarrow> OpType list \<Rightarrow> (OpType \<Rightarrow> 'h option) \<Rightarrow> err + (OpType \<Rightarrow> 'h option)" where
  "decode_ops lib byOp [] acc = Inr acc"
| "decode_ops lib byOp (op # ops) acc =
     (case byOp op of
        None \<Rightarrow> decode_ops lib byOp ops acc
      | Some s \<Rightarrow> (case hl_Decode lib s of
            Inl e \<Rightarrow> Inl (''decode op '' @ fmt_q op @ '': '' @ e)
          | Inr h \<Rightarrow> decode_ops lib byOp ops (acc(op \<mapsto> h))))"

definition Decode :: "'h hist_lib \<Rightarrow> wire_codec \<Rightarrow> OpType list \<Rightarrow> string \<Rightarrow> err + 'h Recorder" where
  "Decode lib wc ks b =
     (case wc_DecodeString wc b of
        Inl e \<Rightarrow> Inl (''base64 decode: '' @ e)
      | Inr raw \<Rightarrow>
          (case wc_Unmarshal wc raw of
             Inl e \<Rightarrow> Inl (''unmarshal envelope: '' @ e)
           | Inr env \<Rightarrow>
               (case hl_Decode lib (en_Overall env) of
                  Inl e \<Rightarrow> Inl (''decode overall: '' @ e)
                | Inr overall \<Rightarrow>
                    (case decode_ops lib (en_ByOp env) ks Map.empty of
                       Inl e \<Rightarrow> Inl e
                     | Inr byOp \<Rightarrow>
                         (let sig = (if en_Sig env < 1 \<or> en_Sig env > 5 then defaultSigFigs else en_Sig env)
                          in Inr \<lparr>rd_high = en_High env, rd_sig = sig,
                                  rd_locals = [\<lparr>lo_high = en_High env, lo_sig = sig, lo_overall = overall, lo_byOp = byOp,
                                                lo_errByOp = en_ErrByOp env, lo_errTotal = en_ErrTotal env\<rparr>],
                                  rd_prevSnap = Map.empty, rd_prevErr = (\<lambda>_. 0)\<rparr>)))))"

subsection \<open>Interval log\<close>

definition tag_char :: "char \<Rightarrow> char" where
  "tag_char c = (if c \<in> {CHR '','', CHR '' '', CHR 0x09, CHR 0x0D, CHR 0x0A} then CHR ''_'' else c)"

definition tagFor :: "OpType \<Rightarrow> string" where
  "tagFor op = (let s = map tag_char op in if s = '''' then ''op'' else s)"

text \<open>The calls on the log writer, each with its error, in a world \<open>'w\<close>; \<open>lw_Interval\<close> gets the tag
  and the start and end times set on the histogram.\<close>

record ('h, 'w) log_writer =
  lw_Version :: "'w \<Rightarrow> err option \<times> 'w"
  lw_StartTime :: "int \<Rightarrow> 'w \<Rightarrow> err option \<times> 'w"
  lw_Legend :: "'w \<Rightarrow> err option \<times> 'w"
  lw_Interval :: "'h \<Rightarrow> string \<Rightarrow> int \<Rightarrow> int \<Rightarrow> 'w \<Rightarrow> err option \<times> 'w"

definition writeInterval :: "('h, 'w) log_writer \<Rightarrow> 'h \<Rightarrow> string \<Rightarrow> int \<Rightarrow> 'w \<Rightarrow> err option \<times> 'w" where
  "writeInterval lw h tag startMs w = (case lw_Interval lw h tag startMs startMs w of
      (Some e, w1) \<Rightarrow> (Some (''write interval '' @ fmt_q tag @ '': '' @ e), w1)
    | (None, w1) \<Rightarrow> (None, w1))"

fun hlog_ops :: "('h, 'w) log_writer \<Rightarrow> (OpType \<Rightarrow> 'h option) \<Rightarrow> int \<Rightarrow> OpType list \<Rightarrow> 'w \<Rightarrow> err option \<times> 'w" where
  "hlog_ops lw byOp startMs [] w = (None, w)"
| "hlog_ops lw byOp startMs (op # ops) w =
     (case byOp op of
        None \<Rightarrow> hlog_ops lw byOp startMs ops w
      | Some h \<Rightarrow> (case writeInterval lw h (tagFor op) startMs w of
            (Some e, w1) \<Rightarrow> (Some e, w1)
          | (None, w1) \<Rightarrow> hlog_ops lw byOp startMs ops w1))"

definition WriteHLog :: "'h hist_lib \<Rightarrow> ('h, 'w) log_writer \<Rightarrow> OpType list \<Rightarrow> instant \<Rightarrow> 'h Recorder \<Rightarrow> 'w \<Rightarrow> err option \<times> 'w" where
  "WriteHLog lib lw ks start r w =
     (let m = collect lib r; startMs = start div 1000000
      in case lw_Version lw w of
           (Some e, w1) \<Rightarrow> (Some (''write version: '' @ e), w1)
         | (None, w1) \<Rightarrow>
             (case lw_StartTime lw startMs w1 of
                (Some e, w2) \<Rightarrow> (Some (''write start time: '' @ e), w2)
              | (None, w2) \<Rightarrow>
                  (case lw_Legend lw w2 of
                     (Some e, w3) \<Rightarrow> (Some (''write legend: '' @ e), w3)
                   | (None, w3) \<Rightarrow>
                       (case writeInterval lw (mg_overall m) ''overall'' startMs w3 of
                          (Some e, w4) \<Rightarrow> (Some e, w4)
                        | (None, w4) \<Rightarrow> hlog_ops lw (mg_byOp m) startMs (sort ks) w4))))"

section \<open>Samples and their tallies\<close>

type_synonym sample = "OpType \<times> duration \<times> bool"

definition clamp :: "int \<Rightarrow> duration \<Rightarrow> int" where
  "clamp high v = max 0 (min high v)"

definition tally :: "nat \<Rightarrow> (int \<Rightarrow> nat) \<Rightarrow> int list \<Rightarrow> int list" where
  "tally n idx vs = map (\<lambda>b. int (length (filter (\<lambda>v. idx v = b) vs))) [0..<n]"

definition samples :: "OpType \<Rightarrow> sample list \<Rightarrow> sample list" where
  "samples op es = filter (\<lambda>e. fst e = op) es"

definition lat_values :: "int \<Rightarrow> sample list \<Rightarrow> int list" where
  "lat_values high es = map (\<lambda>e. clamp high (fst (snd e))) es"

definition errs :: "sample list \<Rightarrow> int" where
  "errs es = int (length (filter (\<lambda>e. snd (snd e)) es))"

text \<open>What the package relies on of the library, for histograms of one range and precision with
  \<open>n\<close> buckets, \<open>idx\<close> giving the bucket of a value.\<close>

definition lawful :: "'h hist_lib \<Rightarrow> int \<Rightarrow> int \<Rightarrow> nat \<Rightarrow> (int \<Rightarrow> nat) \<Rightarrow> bool" where
  "lawful lib high sig n idx \<longleftrightarrow>
     hl_Counts lib (hl_New lib 1 high sig) = replicate n 0 \<and>
     (\<forall>v. 0 \<le> v \<and> v \<le> high \<longrightarrow> idx v < n) \<and>
     (\<forall>h v. length (hl_Counts lib h) = n \<and> 0 \<le> v \<and> v \<le> high \<longrightarrow>
        hl_Counts lib (hl_RecordValue lib h v) = (hl_Counts lib h)[idx v := hl_Counts lib h ! idx v + 1]) \<and>
     (\<forall>a b. length (hl_Counts lib a) = n \<and> length (hl_Counts lib b) = n \<longrightarrow>
        hl_Counts lib (hl_Merge lib a b) = map2 (+) (hl_Counts lib a) (hl_Counts lib b)) \<and>
     (\<forall>h cs. length (hl_Counts lib h) = n \<and> length cs = n \<longrightarrow> hl_Counts lib (hl_Import lib h cs) = cs) \<and>
     (\<forall>h. length (hl_Counts lib h) = n \<longrightarrow> hl_TotalCount lib h = sum_list (hl_Counts lib h))"

lemma tally_simps [simp]: "length (tally n idx vs) = n" "tally n idx [] = replicate n 0"
  by (simp_all add: tally_def map_replicate_const)

lemma tally_nth [simp]: "b < n \<Longrightarrow> tally n idx vs ! b = int (length (filter (\<lambda>v. idx v = b) vs))"
  by (simp add: tally_def)

lemma tally_snoc: "tally n idx (vs @ [v]) = (tally n idx vs)[idx v := tally n idx vs ! idx v + 1]"
  by (intro nth_equalityI) (auto simp: nth_list_update)

lemma tally_append: "tally n idx (us @ vs) = map2 (+) (tally n idx us) (tally n idx vs)"
  by (intro nth_equalityI) auto

lemma sum_list_update: "i < length xs \<Longrightarrow> sum_list (xs[i := x]) = sum_list xs - xs ! i + (x :: int)"
  by (induction xs arbitrary: i) (auto split: nat.splits)

lemma sum_tally: "\<forall>v\<in>set vs. idx v < n \<Longrightarrow> sum_list (tally n idx vs) = int (length vs)"
proof (induction vs rule: rev_induct)
  case (snoc v vs)
  thus ?case
    by (simp add: tally_snoc sum_list_update)
qed (simp add: sum_list_replicate)

lemma tally_perm: "mset us = mset vs \<Longrightarrow> tally n idx us = tally n idx vs"
  unfolding tally_def by (metis mset_eq_length mset_filter)

lemma clamp_range [simp]: "0 \<le> high \<Longrightarrow> 0 \<le> clamp high v \<and> clamp high v \<le> high"
  by (simp add: clamp_def)

lemma samples_append [simp]: "samples op (xs @ ys) = samples op xs @ samples op ys" "samples op [] = []"
  by (simp_all add: samples_def)

lemma lat_values_append [simp]: "lat_values high (xs @ ys) = lat_values high xs @ lat_values high ys" "lat_values high [] = []"
  by (simp_all add: lat_values_def)

lemma errs_append [simp]: "errs (xs @ ys) = errs xs + errs ys" "errs [] = 0"
  by (simp_all add: errs_def)

lemma single_sample [simp]: "lat_values high [(op, d, e)] = [clamp high d]"
  "samples op' [(op, d, e)] = (if op' = op then [(op, d, e)] else [])" "errs [(op, d, e)] = (if e then 1 else 0)"
  by (simp_all add: lat_values_def samples_def errs_def)

lemma length_lat_values [simp]: "length (lat_values high es) = length es"
  by (simp add: lat_values_def)

section \<open>The recorder represents the samples it was given\<close>

definition hists_rep :: "'h hist_lib \<Rightarrow> int \<Rightarrow> nat \<Rightarrow> (int \<Rightarrow> nat) \<Rightarrow> 'h \<Rightarrow> (OpType \<Rightarrow> 'h option) \<Rightarrow> (OpType \<Rightarrow> int) \<Rightarrow> int \<Rightarrow>
    sample list \<Rightarrow> bool" where
  "hists_rep lib high n idx overall byOp errByOp errTotal es \<longleftrightarrow>
     hl_Counts lib overall = tally n idx (lat_values high es) \<and>
     (\<forall>op. case byOp op of None \<Rightarrow> samples op es = []
                         | Some h \<Rightarrow> samples op es \<noteq> [] \<and> hl_Counts lib h = tally n idx (lat_values high (samples op es))) \<and>
     (\<forall>op. errByOp op = errs (samples op es)) \<and> errTotal = errs es"

definition local_rep :: "'h hist_lib \<Rightarrow> int \<Rightarrow> int \<Rightarrow> nat \<Rightarrow> (int \<Rightarrow> nat) \<Rightarrow> 'h Local \<Rightarrow> sample list \<Rightarrow> bool" where
  "local_rep lib high sig n idx l es \<longleftrightarrow> lo_high l = high \<and> lo_sig l = sig \<and>
     hists_rep lib high n idx (lo_overall l) (lo_byOp l) (lo_errByOp l) (lo_errTotal l) es"

definition recorder_rep :: "'h hist_lib \<Rightarrow> int \<Rightarrow> int \<Rightarrow> nat \<Rightarrow> (int \<Rightarrow> nat) \<Rightarrow> 'h Recorder \<Rightarrow> sample list list \<Rightarrow> bool" where
  "recorder_rep lib high sig n idx r ess \<longleftrightarrow> rd_high r = high \<and> rd_sig r = sig \<and>
     list_all2 (local_rep lib high sig n idx) (rd_locals r) ess"

lemma hists_repD:
  assumes "hists_rep lib high n idx overall byOp errByOp errTotal es"
  shows "hl_Counts lib overall = tally n idx (lat_values high es)"
    "byOp op = None \<longleftrightarrow> samples op es = []"
    "byOp op = Some h \<Longrightarrow> hl_Counts lib h = tally n idx (lat_values high (samples op es))"
    "errByOp op = errs (samples op es)" "errTotal = errs es"
  using assms unfolding hists_rep_def by (auto split: option.splits dest!: spec [of _ op])

lemma hists_repI:
  assumes "hl_Counts lib overall = tally n idx (lat_values high es)"
    "\<And>op. byOp op = None \<longleftrightarrow> samples op es = []"
    "\<And>op h. byOp op = Some h \<Longrightarrow> hl_Counts lib h = tally n idx (lat_values high (samples op es))"
    "\<And>op. errByOp op = errs (samples op es)" "errTotal = errs es"
  shows "hists_rep lib high n idx overall byOp errByOp errTotal es"
  unfolding hists_rep_def using assms by (auto split: option.split) (metis option.distinct(1))

lemma newLocal_rep:
  assumes "lawful lib high sig n idx"
  shows "local_rep lib high sig n idx (newLocal lib high sig) []"
  using assms by (simp add: local_rep_def hists_rep_def newLocal_def newHist_def lawful_def)

lemma Local_Record_parts:
  "lo_high (Local_Record lib op d e l) = lo_high l" "lo_sig (Local_Record lib op d e l) = lo_sig l"
  "0 \<le> lo_high l \<Longrightarrow> lo_overall (Local_Record lib op d e l) = hl_RecordValue lib (lo_overall l) (clamp (lo_high l) d)"
  "0 \<le> lo_high l \<Longrightarrow> lo_byOp (Local_Record lib op d e l) = (lo_byOp l)(op \<mapsto> hl_RecordValue lib
     (case lo_byOp l op of None \<Rightarrow> newHist lib (lo_high l) (lo_sig l) | Some h \<Rightarrow> h) (clamp (lo_high l) d))"
  "lo_errByOp (Local_Record lib op d e l) = (if e then (lo_errByOp l)(op := lo_errByOp l op + 1) else lo_errByOp l)"
  "lo_errTotal (Local_Record lib op d e l) = (if e then lo_errTotal l + 1 else lo_errTotal l)"
  by (simp_all add: Local_Record_def Let_def clamp_def max_def min_def)

lemma record_counts:
  assumes "lawful lib high sig n idx" "hl_Counts lib h = tally n idx vs" "0 \<le> high"
  shows "hl_Counts lib (hl_RecordValue lib h (clamp high d)) = tally n idx (vs @ [clamp high d])"
proof -
  have "hl_Counts lib (hl_RecordValue lib h (clamp high d)) =
      (hl_Counts lib h)[idx (clamp high d) := hl_Counts lib h ! idx (clamp high d) + 1]"
    using assms clamp_range [OF assms(3), of d] unfolding lawful_def by (metis tally_simps(1))
  thus ?thesis
    by (simp only: assms(2) tally_snoc)
qed

lemma Local_Record_rep:
  assumes "lawful lib high sig n idx" "local_rep lib high sig n idx l es" "0 \<le> high"
  shows "local_rep lib high sig n idx (Local_Record lib op d e l) (es @ [(op, d, e)])"
proof -
  have l: "lo_high l = high" "lo_sig l = sig"
      and rep: "hists_rep lib high n idx (lo_overall l) (lo_byOp l) (lo_errByOp l) (lo_errTotal l) es"
    using assms(2) by (simp_all add: local_rep_def)
  note D = hists_repD [OF rep]
  let ?h = "case lo_byOp l op of None \<Rightarrow> newHist lib (lo_high l) (lo_sig l) | Some h \<Rightarrow> h"
  have h: "hl_Counts lib ?h = tally n idx (lat_values high (samples op es))"
  proof (cases "lo_byOp l op")
    case None
    hence "samples op es = []"
      using D(2) by blast
    thus ?thesis
      using None assms(1) l by (simp add: newHist_def lawful_def)
  qed (use D(3) in simp)
  have "hists_rep lib high n idx (hl_RecordValue lib (lo_overall l) (clamp high d))
      ((lo_byOp l)(op \<mapsto> hl_RecordValue lib ?h (clamp high d)))
      (if e then (lo_errByOp l)(op := lo_errByOp l op + 1) else lo_errByOp l)
      (if e then lo_errTotal l + 1 else lo_errTotal l) (es @ [(op, d, e)])"
  proof (rule hists_repI)
    fix op' h'
    assume a: "((lo_byOp l)(op \<mapsto> hl_RecordValue lib ?h (clamp high d))) op' = Some h'"
    show "hl_Counts lib h' = tally n idx (lat_values high (samples op' (es @ [(op, d, e)])))"
    proof (cases "op' = op")
      case True
      thus ?thesis
        using a record_counts [OF assms(1) h assms(3), of d] by simp
    next
      case False
      thus ?thesis
        using a D(3) by simp
    qed
  qed (use record_counts [OF assms(1) D(1) assms(3), of d] D(2,4,5) in simp_all)
  thus ?thesis
    using assms(3) l by (simp add: local_rep_def Local_Record_parts)
qed

abbreviation merged_rep :: "'h hist_lib \<Rightarrow> int \<Rightarrow> nat \<Rightarrow> (int \<Rightarrow> nat) \<Rightarrow> 'h merged \<Rightarrow> sample list \<Rightarrow> bool" where
  "merged_rep lib high n idx m es \<equiv> hists_rep lib high n idx (mg_overall m) (mg_byOp m) (mg_errByOp m) (mg_errTotal m) es"

lemma merge_counts:
  assumes "lawful lib high sig n idx" "hl_Counts lib a = tally n idx us" "hl_Counts lib b = tally n idx vs"
  shows "hl_Counts lib (hl_Merge lib a b) = tally n idx (us @ vs)"
proof -
  have "hl_Counts lib (hl_Merge lib a b) = map2 (+) (hl_Counts lib a) (hl_Counts lib b)"
    using assms unfolding lawful_def by (metis tally_simps(1))
  thus ?thesis
    by (simp only: assms(2,3) tally_append)
qed

lemma merge_local_rep:
  assumes "lawful lib high sig n idx" "local_rep lib high sig n idx l fs" "merged_rep lib high n idx m es"
  shows "merged_rep lib high n idx (merge_local lib high sig l m) (es @ fs)"
proof -
  note D = hists_repD [OF assms(3)]
  note L = hists_repD [OF assms(2) [unfolded local_rep_def, THEN conjunct2, THEN conjunct2]]
  have "hists_rep lib high n idx (hl_Merge lib (mg_overall m) (lo_overall l))
     (\<lambda>op. case lo_byOp l op of
                        None \<Rightarrow> mg_byOp m op
                      | Some h \<Rightarrow> Some (hl_Merge lib (case mg_byOp m op of None \<Rightarrow> newHist lib high sig | Some dst \<Rightarrow> dst) h))
     (\<lambda>op. mg_errByOp m op + lo_errByOp l op) (mg_errTotal m + lo_errTotal l) (es @ fs)" (is "hists_rep _ _ _ _ _ ?byOp _ _ _")
  proof (rule hists_repI)
    show "hl_Counts lib (hl_Merge lib (mg_overall m) (lo_overall l)) = tally n idx (lat_values high (es @ fs))"
      using merge_counts [OF assms(1) D(1) L(1)] by simp
    show "?byOp op = None \<longleftrightarrow> samples op (es @ fs) = []" for op
      using D(2) [of op] L(2) [of op] by (auto split: option.splits)
    show "hl_Counts lib h' = tally n idx (lat_values high (samples op (es @ fs)))" if h': "?byOp op = Some h'" for op h'
    proof (cases "lo_byOp l op")
      case None
      hence "samples op fs = []"
        using L(2) by blast
      thus ?thesis
        using None h' D(3) by simp
    next
      case (Some h)
      let ?dst = "case mg_byOp m op of None \<Rightarrow> newHist lib high sig | Some dst \<Rightarrow> dst"
      have "hl_Counts lib ?dst = tally n idx (lat_values high (samples op es))"
      proof (cases "mg_byOp m op")
        case None
        hence "samples op es = []"
          using D(2) by blast
        thus ?thesis
          using None assms(1) by (simp add: newHist_def lawful_def)
      qed (use D(3) in simp)
      thus ?thesis
        using merge_counts [OF assms(1) _ L(3) [OF Some]] Some h' by fastforce
    qed
  qed (use D(4,5) L(4,5) in simp_all)
  thus ?thesis
    by (simp add: merge_local_def)
qed

lemma collect_rep:
  assumes "lawful lib high sig n idx" "recorder_rep lib high sig n idx r ess"
  shows "merged_rep lib high n idx (collect lib r) (concat ess)"
proof -
  let ?m0 = "\<lparr>mg_overall = newHist lib high sig, mg_byOp = Map.empty, mg_errByOp = (\<lambda>_. 0), mg_errTotal = 0\<rparr>"
  have fold: "merged_rep lib high n idx (fold (merge_local lib high sig) ls m) (es @ concat ess)"
    if "list_all2 (local_rep lib high sig n idx) ls ess" "merged_rep lib high n idx m es" for ls m es
    using that
  proof (induction ls ess arbitrary: m es rule: list_all2_induct)
    case (Cons l ls fs ess)
    show ?case
      using Cons.IH [OF merge_local_rep [OF assms(1) Cons.hyps(1) Cons.prems]] by simp
  qed simp
  have "merged_rep lib high n idx ?m0 []"
    using assms(1) by (simp add: hists_rep_def newHist_def lawful_def)
  hence "merged_rep lib high n idx (fold (merge_local lib high sig) (rd_locals r) ?m0) ([] @ concat ess)"
    using assms(2) unfolding recorder_rep_def by (intro fold) simp_all
  thus ?thesis
    using assms(2) by (simp add: collect_def recorder_rep_def)
qed

lemma total_count:
  assumes "lawful lib high sig n idx" "hl_Counts lib h = tally n idx (lat_values high es)" "0 \<le> high"
  shows "hl_TotalCount lib h = int (length es)"
proof -
  have "hl_TotalCount lib h = sum_list (tally n idx (lat_values high es))"
    using assms(1,2) unfolding lawful_def by (metis tally_simps(1))
  also have "\<dots> = int (length (lat_values high es))"
    using assms(1,3) by (intro sum_tally) (auto simp: lat_values_def lawful_def)
  finally show ?thesis
    by simp
qed

lemma Recorder_Local_rep:
  assumes "lawful lib high sig n idx" "recorder_rep lib high sig n idx r ess"
  shows "recorder_rep lib high sig n idx (Recorder_Local lib r) (ess @ [[]])"
  using assms newLocal_rep [OF assms(1)] by (auto simp: recorder_rep_def Recorder_Local_def intro: list_all2_appendI)

lemma record_at_rep:
  assumes "lawful lib high sig n idx" "recorder_rep lib high sig n idx r ess" "0 \<le> high" "i < length ess"
  shows "recorder_rep lib high sig n idx (record_at lib i op d e r) (ess[i := ess ! i @ [(op, d, e)]])"
proof -
  have "local_rep lib high sig n idx (rd_locals r ! i) (ess ! i)" "length (rd_locals r) = length ess"
    using assms(2,4) by (auto simp: recorder_rep_def list_all2_conv_all_nth)
  thus ?thesis
    using Local_Record_rep [OF assms(1) _ assms(3)] assms(2)
    by (auto simp: recorder_rep_def record_at_def intro!: list_all2_update_cong)
qed

lemma Recorder_Merge_rep:
  assumes "lawful lib high sig n idx" "recorder_rep lib high sig n idx r ess" "recorder_rep lib high sig n idx other fss"
  shows "recorder_rep lib high sig n idx (Recorder_Merge lib other r) (ess @ [concat fss])"
proof -
  have "local_rep lib high sig n idx \<lparr>lo_high = high, lo_sig = sig, lo_overall = mg_overall (collect lib other),
      lo_byOp = mg_byOp (collect lib other), lo_errByOp = mg_errByOp (collect lib other), lo_errTotal = mg_errTotal (collect lib other)\<rparr>
      (concat fss)"
    using collect_rep [OF assms(1,3)] by (simp add: local_rep_def)
  thus ?thesis
    using assms(2) by (auto simp: recorder_rep_def Recorder_Merge_def Let_def intro: list_all2_appendI)
qed

lemma metrics_New_range: "0 < rd_high (metrics_New o1)" "1 \<le> rd_sig (metrics_New o1) \<and> rd_sig (metrics_New o1) \<le> 5"
  by (auto simp: metrics_New_def Let_def defaultMaxLatency_def second_def defaultSigFigs_def)

lemma metrics_New_rep: "recorder_rep lib (rd_high (metrics_New o1)) (rd_sig (metrics_New o1)) n idx (metrics_New o1) []"
  by (simp add: recorder_rep_def) (simp add: metrics_New_def Let_def)

section \<open>Intervals\<close>

definition prev_rep :: "int \<Rightarrow> nat \<Rightarrow> (int \<Rightarrow> nat) \<Rightarrow> 'h Recorder \<Rightarrow> sample list \<Rightarrow> bool" where
  "prev_rep high n idx r pre \<longleftrightarrow> (\<forall>op. rd_prevErr r op = errs (samples op pre) \<and>
     rd_prevSnap r op = (if samples op pre = [] then None else Some (tally n idx (lat_values high (samples op pre)))))"

lemma samples_mset: "mset (samples op es) = filter_mset (\<lambda>e. fst e = op) (mset es)"
  by (simp add: samples_def mset_filter)

lemma mset_samples: "mset es = mset fs \<Longrightarrow> mset (samples op es) = mset (samples op fs)"
  by (simp only: samples_mset)

lemma mset_lat_values: "mset es = mset fs \<Longrightarrow> mset (lat_values high es) = mset (lat_values high fs)"
  by (simp only: lat_values_def mset_map)

lemma errs_mset: "mset es = mset fs \<Longrightarrow> errs es = errs fs"
  unfolding errs_def by (metis mset_filter size_mset)

lemma delta_tally: "map (delta_count (tally n idx (us @ vs)) (tally n idx us)) [0..<n] = tally n idx vs"
  by (intro nth_equalityI) (simp_all add: delta_count_def Let_def)

lemma deltaHist_counts:
  assumes "lawful lib high sig n idx" "hl_Counts lib cur = tally n idx (lat_values high (samples op es))"
    "mset es = mset (pre @ new)" "prev_rep high n idx r pre"
  shows "hl_Counts lib (deltaHist lib cur (rd_prevSnap r op)) = tally n idx (lat_values high (samples op new))"
proof -
  have "mset (samples op es) = mset (samples op pre @ samples op new)"
    using mset_samples [OF assms(3), of op] by simp
  hence cur: "hl_Counts lib cur = tally n idx (lat_values high (samples op pre) @ lat_values high (samples op new))"
    using assms(2) mset_lat_values tally_perm by (metis lat_values_append(1))
  have imp: "hl_Counts lib (hl_Import lib cur cs) = cs" if "length cs = n" for cs
    using assms(1) cur that unfolding lawful_def by (metis tally_simps(1))
  show ?thesis
  proof (cases "samples op pre = []")
    case True
    thus ?thesis
      using assms(4) cur imp by (simp add: prev_rep_def deltaHist_def Let_def)
  next
    case False
    thus ?thesis
      using assms(4) imp by (simp add: prev_rep_def deltaHist_def Let_def cur delta_tally)
  qed
qed

text \<open>What an interval reports for the samples recorded since the last one.\<close>

definition snap_of :: "'h hist_lib \<Rightarrow> int \<Rightarrow> nat \<Rightarrow> (int \<Rightarrow> nat) \<Rightarrow> sample list \<Rightarrow> LatencySnapshot \<Rightarrow> bool" where
  "snap_of lib high n idx new s \<longleftrightarrow>
     pc_Count (ls_Pct s) = int (length (samples (ls_OpType s) new)) \<and> ls_Errors s = errs (samples (ls_OpType s) new) \<and>
     (\<exists>h. hl_Counts lib h = tally n idx (lat_values high (samples (ls_OpType s) new)) \<and> ls_Pct s = toPercentiles lib h)"

lemma interval_loop_rep:
  assumes "lawful lib high sig n idx" "0 \<le> high" "merged_rep lib high n idx m es" "mset es = mset (pre @ new)"
    "distinct ops" "\<forall>op\<in>set ops. mg_byOp m op \<noteq> None \<and> rd_prevErr r op = errs (samples op pre) \<and>
     rd_prevSnap r op = (if samples op pre = [] then None else Some (tally n idx (lat_values high (samples op pre))))"
    "interval_loop lib now dt m ops r = (out, r')"
  shows "map ls_OpType out = ops \<and> (\<forall>s\<in>set out. snap_of lib high n idx new s) \<and>
    rd_high r' = rd_high r \<and> rd_sig r' = rd_sig r \<and> rd_locals r' = rd_locals r \<and>
    (\<forall>op. rd_prevErr r' op = (if op \<in> set ops then errs (samples op es) else rd_prevErr r op) \<and>
          rd_prevSnap r' op = (if op \<in> set ops then Some (tally n idx (lat_values high (samples op es))) else rd_prevSnap r op))"
  using assms(5-7)
proof (induction ops arbitrary: r out)
  case (Cons op ops)
  note D = hists_repD [OF assms(3)]
  obtain cur where cur: "mg_byOp m op = Some cur"
    using Cons.prems(2) by auto
  let ?delta = "deltaHist lib cur (rd_prevSnap r op)"
  let ?snap = "\<lparr>ls_T = now, ls_OpType = op,
      ls_Throughput = (if dt > 0 then of_int (hl_TotalCount lib ?delta) / (of_int dt / of_int second) else 0),
      ls_InFlight = 0, ls_Errors = mg_errByOp m op - rd_prevErr r op, ls_Pct = toPercentiles lib ?delta\<rparr>"
  let ?r = "r\<lparr>rd_prevSnap := (rd_prevSnap r)(op \<mapsto> hl_Counts lib cur), rd_prevErr := (rd_prevErr r)(op := mg_errByOp m op)\<rparr>"
  obtain out2 where o: "interval_loop lib now dt m ops ?r = (out2, r')" "out = ?snap # out2"
    using Cons.prems(3) cur by (auto simp: Let_def split: prod.splits)
  have prev: "prev_rep high n idx (r\<lparr>rd_prevSnap := (\<lambda>op. if samples op pre = [] then None
        else Some (tally n idx (lat_values high (samples op pre)))), rd_prevErr := (\<lambda>op. errs (samples op pre))\<rparr>) pre"
    by (simp add: prev_rep_def)
  have delta: "hl_Counts lib ?delta = tally n idx (lat_values high (samples op new))"
    using deltaHist_counts [OF assms(1) D(3) [OF cur] assms(4) prev] Cons.prems(2) by simp
  have "errs (samples op es) = errs (samples op pre) + errs (samples op new)"
    using errs_mset [OF mset_samples [OF assms(4), of op]] by simp
  hence "snap_of lib high n idx new ?snap"
    using delta total_count [OF assms(1) delta assms(2)] D(4) Cons.prems(2)
    by (auto simp: snap_of_def toPercentiles_def)
  moreover have "map ls_OpType out2 = ops \<and> (\<forall>s\<in>set out2. snap_of lib high n idx new s) \<and>
      rd_high r' = rd_high ?r \<and> rd_sig r' = rd_sig ?r \<and> rd_locals r' = rd_locals ?r \<and>
      (\<forall>op. rd_prevErr r' op = (if op \<in> set ops then errs (samples op es) else rd_prevErr ?r op) \<and>
            rd_prevSnap r' op = (if op \<in> set ops then Some (tally n idx (lat_values high (samples op es))) else rd_prevSnap ?r op))"
    using Cons.prems o(1) by (intro Cons.IH) auto
  ultimately show ?case
    using o(2) D(3) [OF cur] D(4) [of op] Cons.prems(1) by auto
qed simp

lemma TakeInterval_rep:
  assumes "lawful lib high sig n idx" "0 \<le> high" "recorder_rep lib high sig n idx r ess" "prev_rep high n idx r pre"
    "mset (concat ess) = mset (pre @ new)" "order_of (mg_byOp (collect lib r)) ks" "TakeInterval lib ks now dt r = (out, r')"
  shows "map ls_OpType out = sort ks" "\<forall>s\<in>set out. snap_of lib high n idx new s"
    "recorder_rep lib high sig n idx r' ess" "prev_rep high n idx r' (concat ess)"
    "set ks = fst ` set (concat ess)"
proof -
  note rep = collect_rep [OF assms(1,3)]
  note D = hists_repD [OF rep]
  have ks: "distinct (sort ks)" "set (sort ks) = {op. samples op (concat ess) \<noteq> []}"
    using assms(6) D(2) by (auto simp: order_of_def dom_def)
  have 1: "map ls_OpType out = sort ks \<and> (\<forall>s\<in>set out. snap_of lib high n idx new s) \<and>
      rd_high r' = rd_high r \<and> rd_sig r' = rd_sig r \<and> rd_locals r' = rd_locals r \<and>
      (\<forall>op. rd_prevErr r' op = (if op \<in> set (sort ks) then errs (samples op (concat ess)) else rd_prevErr r op) \<and>
          rd_prevSnap r' op = (if op \<in> set (sort ks) then Some (tally n idx (lat_values high (samples op (concat ess)))) else rd_prevSnap r op))"
    using assms(4,7) ks D(2) by (intro interval_loop_rep [OF assms(1,2) rep assms(5)])
      (auto simp: TakeInterval_def prev_rep_def)
  thus "map ls_OpType out = sort ks" "\<forall>s\<in>set out. snap_of lib high n idx new s"
    "recorder_rep lib high sig n idx r' ess"
    using assms(3) by (auto simp: recorder_rep_def)
  have "samples op pre = []" if "samples op (concat ess) = []" for op
    using mset_samples [OF assms(5), of op] that by simp
  thus "prev_rep high n idx r' (concat ess)"
    using 1 ks(2) assms(4) by (auto simp: prev_rep_def)
  show "set ks = fst ` set (concat ess)"
    using ks(2) by (auto simp: samples_def filter_empty_conv)
qed

text \<open>Batches of calls of \<open>Record\<close>, each followed by a \<open>TakeInterval\<close>; \<open>keys\<close> gives the order in which
  the map of a recorder is ranged over.\<close>

definition record_batch :: "'h hist_lib \<Rightarrow> (nat \<times> sample) list \<Rightarrow> 'h Recorder \<Rightarrow> 'h Recorder" where
  "record_batch lib b r = fold (\<lambda>(i, op, d, e). record_at lib i op d e) b r"

fun interval_run :: "'h hist_lib \<Rightarrow> ('h Recorder \<Rightarrow> OpType list) \<Rightarrow> instant \<Rightarrow> duration \<Rightarrow> (nat \<times> sample) list list \<Rightarrow> 'h Recorder \<Rightarrow>
    LatencySnapshot list list \<times> 'h Recorder" where
  "interval_run lib keys now dt [] r = ([], r)"
| "interval_run lib keys now dt (b # bs) r =
     (let r1 = record_batch lib b r; (out, r2) = TakeInterval lib (keys r1) now dt r1; (outs, r3) = interval_run lib keys now dt bs r2
      in (out # outs, r3))"

definition counted :: "OpType \<Rightarrow> LatencySnapshot list \<Rightarrow> int" where
  "counted op out = (\<Sum>s\<leftarrow>filter (\<lambda>s. ls_OpType s = op) out. pc_Count (ls_Pct s))"

lemma mset_concat_update: "i < length xs \<Longrightarrow> mset (concat (xs[i := xs ! i @ ys])) = mset (concat xs) + mset ys"
  by (induction xs arbitrary: i) (auto split: nat.splits)

lemma record_batch_rep:
  assumes "lawful lib high sig n idx" "recorder_rep lib high sig n idx r ess" "0 \<le> high" "\<forall>x\<in>set b. fst x < length ess"
  shows "\<exists>ess'. recorder_rep lib high sig n idx (record_batch lib b r) ess' \<and> length ess' = length ess \<and>
    mset (concat ess') = mset (concat ess @ map snd b) \<and> rd_prevSnap (record_batch lib b r) = rd_prevSnap r \<and>
    rd_prevErr (record_batch lib b r) = rd_prevErr r"
  using assms(2,4)
proof (induction b arbitrary: r ess)
  case (Cons x b)
  obtain i op d e where x: "x = (i, op, d, e)"
    by (cases x) auto
  let ?r = "record_at lib i op d e r" and ?ess = "ess[i := ess ! i @ [(op, d, e)]]"
  have i: "i < length ess"
    using Cons.prems(2) x by simp
  have "mset (concat ?ess) = mset (concat ess @ [(op, d, e)])"
    using mset_concat_update [OF i, of "[(op, d, e)]"] by simp
  moreover have "recorder_rep lib high sig n idx ?r ?ess" "rd_prevSnap ?r = rd_prevSnap r" "rd_prevErr ?r = rd_prevErr r"
    using record_at_rep [OF assms(1) Cons.prems(1) assms(3) i] by (simp_all add: record_at_def)
  moreover from this(1) obtain ess' where "recorder_rep lib high sig n idx (record_batch lib b ?r) ess' \<and> length ess' = length ?ess \<and>
      mset (concat ess') = mset (concat ?ess @ map snd b) \<and> rd_prevSnap (record_batch lib b ?r) = rd_prevSnap ?r \<and>
      rd_prevErr (record_batch lib b ?r) = rd_prevErr ?r"
    using Cons.IH [of ?r ?ess] Cons.prems(2) by auto
  moreover have "record_batch lib (x # b) r = record_batch lib b ?r"
    by (simp add: record_batch_def x)
  ultimately show ?case
    by (intro exI [of _ ess']) (simp add: x)
qed (auto simp: record_batch_def)

lemma counted_snaps:
  assumes "map ls_OpType out = ops" "distinct ops" "\<forall>s\<in>set out. snap_of lib high n idx new s"
  shows "counted op out = (if op \<in> set ops then int (length (samples op new)) else 0)"
  using assms
proof (induction out arbitrary: ops)
  case (Cons s out)
  let ?ops = "map ls_OpType out"
  have "counted op out = (if op \<in> set ?ops then int (length (samples op new)) else 0)"
    using Cons by (intro Cons.IH) auto
  moreover have "pc_Count (ls_Pct s) = int (length (samples (ls_OpType s) new))" "ls_OpType s \<notin> set ?ops" "ops = ls_OpType s # ?ops"
    using Cons.prems by (auto simp: snap_of_def)
  ultimately show ?case
    by (auto simp: counted_def)
qed (simp add: counted_def)

lemma interval_run_rep:
  assumes "lawful lib high sig n idx" "0 \<le> high" "recorder_rep lib high sig n idx r ess" "prev_rep high n idx r (concat ess)"
    "\<forall>b\<in>set bs. \<forall>x\<in>set b. fst x < length ess" "\<forall>r. finite (dom (mg_byOp (collect lib r))) \<longrightarrow> order_of (mg_byOp (collect lib r)) (keys r)"
    "interval_run lib keys now dt bs r = (outs, r')"
  shows "(\<Sum>out\<leftarrow>outs. counted op out) = int (length (samples op (map snd (concat bs))))"
  using assms(3,4,5,7)
proof (induction bs arbitrary: r ess outs)
  case (Cons b bs)
  obtain ess1 where e1: "recorder_rep lib high sig n idx (record_batch lib b r) ess1" "length ess1 = length ess"
      "mset (concat ess1) = mset (concat ess @ map snd b)" "rd_prevSnap (record_batch lib b r) = rd_prevSnap r"
      "rd_prevErr (record_batch lib b r) = rd_prevErr r"
    using record_batch_rep [OF assms(1) Cons.prems(1) assms(2)] Cons.prems(3) by (metis list.set_intros(1))
  let ?r1 = "record_batch lib b r"
  obtain out r2 outs2 where o: "TakeInterval lib (keys ?r1) now dt ?r1 = (out, r2)" "interval_run lib keys now dt bs r2 = (outs2, r')"
      "outs = out # outs2"
    using Cons.prems(4) by (auto simp: Let_def split: prod.splits)
  have "dom (mg_byOp (collect lib ?r1)) \<subseteq> fst ` set (concat ess1)"
    using hists_repD(2) [OF collect_rep [OF assms(1) e1(1)]] by (auto simp: dom_def samples_def filter_empty_conv)
  hence ord: "order_of (mg_byOp (collect lib ?r1)) (keys ?r1)"
    using assms(6) finite_subset by (metis List.finite_set finite_imageI)
  have prev: "prev_rep high n idx ?r1 (concat ess)"
    using Cons.prems(2) e1(4,5) by (simp add: prev_rep_def)
  note T = TakeInterval_rep [OF assms(1,2) e1(1) prev e1(3) ord o(1)]
  have "counted op out = int (length (samples op (map snd b)))"
  proof -
    have "op \<in> set (sort (keys ?r1)) \<or> samples op (map snd b) = []"
      using T(5) mset_eq_setD [OF e1(3)] by (auto simp: samples_def filter_empty_conv image_iff)
    moreover have "distinct (sort (keys ?r1))"
      using ord by (simp add: order_of_def)
    ultimately show ?thesis
      using counted_snaps [OF T(1) _ T(2)] by auto
  qed
  moreover have "(\<Sum>out\<leftarrow>outs2. counted op out) = int (length (samples op (map snd (concat bs))))"
    using Cons.IH [OF T(3,4) _ o(2)] Cons.prems(3) e1(2) by simp
  ultimately show ?case
    using o(3) by simp
qed simp

section \<open>The wire format\<close>

text \<open>The documented round trips: what is encoded decodes, with the same counts or the same envelope.\<close>

definition hist_codec :: "'h hist_lib \<Rightarrow> bool" where
  "hist_codec lib \<longleftrightarrow> (\<forall>h s. hl_Encode lib h = Inr s \<longrightarrow> (\<exists>h'. hl_Decode lib s = Inr h' \<and> hl_Counts lib h' = hl_Counts lib h))"

definition envelope_codec :: "wire_codec \<Rightarrow> bool" where
  "envelope_codec wc \<longleftrightarrow> (\<forall>env raw. wc_Marshal wc env = Inr raw \<longrightarrow> wc_Unmarshal wc raw = Inr env) \<and>
     (\<forall>raw. wc_DecodeString wc (wc_EncodeToString wc raw) = Inr raw)"

lemma encode_ops_val:
  assumes "encode_ops lib byOp ks acc = Inr m"
  shows "m op = (if op \<in> set ks \<and> byOp op \<noteq> None then m op else acc op)"
    "op \<in> set ks \<Longrightarrow> byOp op = Some h \<Longrightarrow> \<exists>s. hl_Encode lib h = Inr s \<and> m op = Some s"
  using assms
proof (induction ks arbitrary: acc)
  case (Cons k ks)
  {
    case 1
    show ?case
    proof (cases "byOp k")
      case None
      thus ?thesis
        using Cons.IH(1) 1 by auto
    next
      case (Some h)
      then obtain s where "hl_Encode lib h = Inr s" "encode_ops lib byOp ks (acc(k \<mapsto> s)) = Inr m"
        using 1 by (auto split: sum.splits)
      hence "m op = (if op \<in> set ks \<and> byOp op \<noteq> None then m op else (acc(k \<mapsto> s)) op)"
        using Cons.IH(1) by blast
      thus ?thesis
        using Some by (cases "op = k") (simp_all split: if_splits)
    qed
  next
    case 2
    show ?case
    proof (cases "byOp k")
      case None
      thus ?thesis
        using Cons.IH(2) 2 by auto
    next
      case (Some g)
      then obtain s where s: "hl_Encode lib g = Inr s" "encode_ops lib byOp ks (acc(k \<mapsto> s)) = Inr m"
        using 2 by (auto split: sum.splits)
      show ?thesis
      proof (cases "op \<in> set ks")
        case True
        thus ?thesis
          using Cons.IH(2) 2(2) s(2) by blast
      next
        case False
        hence "op = k" "m op = (acc(k \<mapsto> s)) op"
          using 2(1) Cons.IH(1) [OF s(2)] by auto
        thus ?thesis
          using s(1) 2(2) Some by simp
      qed
    qed
  }
qed simp_all

lemma decode_ops_val:
  assumes "\<forall>op\<in>set ks. \<forall>s. byOp op = Some s \<longrightarrow> (\<exists>h. hl_Decode lib s = Inr h)"
  shows "\<exists>m. decode_ops lib byOp ks acc = Inr m \<and>
    (\<forall>op. m op = (if op \<in> set ks \<and> byOp op \<noteq> None then (case hl_Decode lib (the (byOp op)) of Inr h \<Rightarrow> Some h | Inl _ \<Rightarrow> None) else acc op))"
  using assms
proof (induction ks arbitrary: acc)
  case (Cons k ks)
  show ?case
  proof (cases "byOp k")
    case None
    obtain m where "decode_ops lib byOp ks acc = Inr m" "\<forall>op. m op = (if op \<in> set ks \<and> byOp op \<noteq> None
        then (case hl_Decode lib (the (byOp op)) of Inr h \<Rightarrow> Some h | Inl _ \<Rightarrow> None) else acc op)"
      using Cons by fastforce
    thus ?thesis
      using None by (intro exI [of _ m]) auto
  next
    case (Some s)
    then obtain h where h: "hl_Decode lib s = Inr h"
      using Cons.prems by auto
    obtain m where "decode_ops lib byOp ks (acc(k \<mapsto> h)) = Inr m" "\<forall>op. m op = (if op \<in> set ks \<and> byOp op \<noteq> None
        then (case hl_Decode lib (the (byOp op)) of Inr h \<Rightarrow> Some h | Inl _ \<Rightarrow> None) else (acc(k \<mapsto> h)) op)"
      using Cons by fastforce
    thus ?thesis
      using Some h by auto
  qed
qed simp

lemma Decode_Encode:
  assumes "hist_codec lib" "envelope_codec wc" "recorder_rep lib high sig n idx r ess" "lawful lib high sig n idx"
    "1 \<le> sig" "sig \<le> 5" "order_of (mg_byOp (collect lib r)) ks" "order_of (mg_byOp (collect lib r)) ks'" "Encode lib wc ks r = Inr s"
  shows "\<exists>r'. Decode lib wc ks' s = Inr r' \<and> recorder_rep lib high sig n idx r' [concat ess]"
proof -
  let ?m = "collect lib r"
  note rep = collect_rep [OF assms(4,3)]
  note D = hists_repD [OF rep]
  obtain ov m raw where e: "hl_Encode lib (mg_overall ?m) = Inr ov" "encode_ops lib (mg_byOp ?m) ks Map.empty = Inr m"
      "wc_Marshal wc \<lparr>en_High = high, en_Sig = sig, en_Overall = ov, en_ByOp = m, en_ErrByOp = mg_errByOp ?m, en_ErrTotal = mg_errTotal ?m\<rparr> = Inr raw"
      "s = wc_EncodeToString wc raw"
    using assms(3,9) by (auto simp: Encode_def Let_def recorder_rep_def split: sum.splits)
  obtain oh where oh: "hl_Decode lib ov = Inr oh" "hl_Counts lib oh = hl_Counts lib (mg_overall ?m)"
    using assms(1) e(1) unfolding hist_codec_def by blast
  note E = encode_ops_val [OF e(2)]
  have m: "(mg_byOp ?m op = None \<longrightarrow> m op = None) \<and> (\<forall>h. mg_byOp ?m op = Some h \<longrightarrow>
      (\<exists>t h'. m op = Some t \<and> hl_Decode lib t = Inr h' \<and> hl_Counts lib h' = hl_Counts lib h))" for op
  proof (intro conjI impI allI)
    show "m op = None" if "mg_byOp ?m op = None"
      using E(1) [of op] that by simp
    show "\<exists>t h'. m op = Some t \<and> hl_Decode lib t = Inr h' \<and> hl_Counts lib h' = hl_Counts lib h" if "mg_byOp ?m op = Some h" for h
    proof -
      have "op \<in> set ks"
        using assms(7) that by (auto simp: order_of_def)
      thus ?thesis
        using E(2) that assms(1) unfolding hist_codec_def by metis
    qed
  qed
  have "\<forall>op\<in>set ks'. \<forall>t. m op = Some t \<longrightarrow> (\<exists>h. hl_Decode lib t = Inr h)"
    using m by (metis option.exhaust option.inject option.distinct(1))
  then obtain b where b: "decode_ops lib m ks' Map.empty = Inr b"
      "\<forall>op. b op = (if op \<in> set ks' \<and> m op \<noteq> None then (case hl_Decode lib (the (m op)) of Inr h \<Rightarrow> Some h | Inl _ \<Rightarrow> None) else None)"
    using decode_ops_val by blast
  have B: "(b op = None \<longleftrightarrow> mg_byOp ?m op = None) \<and>
      (\<forall>h'. b op = Some h' \<longrightarrow> (\<exists>h. mg_byOp ?m op = Some h \<and> hl_Counts lib h' = hl_Counts lib h))" for op
  proof (cases "mg_byOp ?m op")
    case None
    thus ?thesis
      using b(2) [rule_format, of op] m [of op] by simp
  next
    case (Some h)
    then obtain t h' where "m op = Some t" "hl_Decode lib t = Inr h'" "hl_Counts lib h' = hl_Counts lib h" "op \<in> set ks'"
      using m [of op] assms(8) by (auto simp: order_of_def)
    thus ?thesis
      using b(2) [rule_format, of op] Some by simp
  qed
  let ?r' = "\<lparr>rd_high = high, rd_sig = sig, rd_locals = [\<lparr>lo_high = high, lo_sig = sig, lo_overall = oh, lo_byOp = b,
      lo_errByOp = mg_errByOp ?m, lo_errTotal = mg_errTotal ?m\<rparr>], rd_prevSnap = Map.empty, rd_prevErr = (\<lambda>_. 0)\<rparr>"
  have "Decode lib wc ks' s = Inr ?r'"
    using assms(2,5,6) e(3,4) oh(1) b(1) by (simp add: Decode_def envelope_codec_def Let_def)
  moreover have "hists_rep lib high n idx oh b (mg_errByOp ?m) (mg_errTotal ?m) (concat ess)"
  proof (rule hists_repI)
    show "hl_Counts lib h' = tally n idx (lat_values high (samples op (concat ess)))" if "b op = Some h'" for op h'
      using B [of op] that D(3) by metis
  qed (use oh(2) D(1,2,4,5) B in simp_all)
  ultimately show ?thesis
    by (intro exI [of _ ?r']) (simp add: recorder_rep_def local_rep_def)
qed

section \<open>A histogram with two buckets\<close>

definition demo_lib :: "int list hist_lib" where
  "demo_lib =
     \<lparr>hl_New = (\<lambda>_ _ _. [0, 0]), hl_RecordValue = (\<lambda>h v. let b = (if v < 1000 then 0 else 1) in h[b := h ! b + 1]),
      hl_Merge = map2 (+), hl_Counts = (\<lambda>h. h), hl_Import = (\<lambda>_ cs. cs), hl_TotalCount = sum_list,
      hl_ValueAtQuantile = (\<lambda>_ _. 0), hl_Mean = (\<lambda>_. 0), hl_Max = (\<lambda>_. 0),
      hl_Encode = (\<lambda>h. if \<forall>c\<in>set h. 0 \<le> c \<and> c < 256 then Inr (map (\<lambda>c. char_of (nat c)) h) else Inl ''count too large''),
      hl_Decode = (\<lambda>s. Inr (map (\<lambda>c. int (of_char c)) s))\<rparr>"

definition demo_idx :: "int \<Rightarrow> nat" where
  "demo_idx v = (if v < 1000 then 0 else 1)"

definition demo_recorder :: "int list Recorder" where
  "demo_recorder = record_at demo_lib 0 ''r'' 5 True (Recorder_Local demo_lib (metrics_New \<lparr>mo_SignificantFigures = 3, mo_MaxLatency = 0\<rparr>))"

lemma demo_lawful: "lawful demo_lib high sig 2 demo_idx"
  by (simp add: lawful_def demo_lib_def demo_idx_def Let_def numeral_2_eq_2)

lemma demo_new: "metrics_New \<lparr>mo_SignificantFigures = 3, mo_MaxLatency = 0\<rparr> =
    \<lparr>rd_high = 60 * second, rd_sig = 3, rd_locals = [], rd_prevSnap = Map.empty, rd_prevErr = (\<lambda>_. 0)\<rparr>"
  by (simp add: metrics_New_def defaultMaxLatency_def)

lemma demo_rep: "recorder_rep demo_lib (60 * second) 3 2 demo_idx demo_recorder [[(''r'', 5, True)]]"
proof -
  have "recorder_rep demo_lib (60 * second) 3 2 demo_idx (metrics_New \<lparr>mo_SignificantFigures = 3, mo_MaxLatency = 0\<rparr>) []"
    by (simp add: recorder_rep_def demo_new)
  from Recorder_Local_rep [OF demo_lawful this] have "recorder_rep demo_lib (60 * second) 3 2 demo_idx
      (Recorder_Local demo_lib (metrics_New \<lparr>mo_SignificantFigures = 3, mo_MaxLatency = 0\<rparr>)) [[]]"
    by simp
  from record_at_rep [OF demo_lawful this, of 0 "''r''" 5 True] show ?thesis
    by (simp add: demo_recorder_def second_def)
qed

definition demo_env :: wireEnvelope where
  "demo_env = \<lparr>en_High = 60 * second, en_Sig = 3, en_Overall = [CHR 0x01, CHR 0x00], en_ByOp = [''r'' \<mapsto> [CHR 0x01, CHR 0x00]],
     en_ErrByOp = mg_errByOp (collect demo_lib demo_recorder), en_ErrTotal = mg_errTotal (collect demo_lib demo_recorder)\<rparr>"

text \<open>A codec for one envelope.\<close>

definition demo_wire :: wire_codec where
  "demo_wire = \<lparr>wc_Marshal = (\<lambda>e. if e = demo_env then Inr ''env'' else Inl ''unknown''), wc_Unmarshal = (\<lambda>_. Inr demo_env),
     wc_EncodeToString = (\<lambda>s. s), wc_DecodeString = (\<lambda>s. Inr s)\<rparr>"

lemma demo_hist_codec: "hist_codec demo_lib"
  by (auto simp: hist_codec_def demo_lib_def o_def intro!: map_idI)

lemma demo_envelope_codec: "envelope_codec demo_wire"
  by (simp add: envelope_codec_def demo_wire_def)

lemma demo_collect:
  "mg_overall (collect demo_lib demo_recorder) = [1, 0]" "mg_byOp (collect demo_lib demo_recorder) = [''r'' \<mapsto> [1, 0]]"
  by (simp_all add: collect_def demo_recorder_def record_at_def Recorder_Local_def demo_new newLocal_def Local_Record_def merge_local_def
      newHist_def demo_lib_def second_def fun_eq_iff)

lemma demo_order: "order_of (mg_byOp (collect demo_lib demo_recorder)) [''r'']"
  by (simp add: demo_collect order_of_def)

lemma demo_Encode: "Encode demo_lib demo_wire [''r''] demo_recorder = Inr ''env''"
proof -
  have enc: "hl_Encode demo_lib [1, 0] = Inr [CHR 0x01, CHR 0x00]"
    by (simp add: demo_lib_def char_of_def bit_0)
  have rd: "rd_high demo_recorder = 60 * second" "rd_sig demo_recorder = 3"
    using demo_rep by (simp_all add: recorder_rep_def)
  show ?thesis
    by (simp add: Encode_def Let_def rd demo_collect enc demo_wire_def demo_env_def)
qed

section \<open>Properties\<close>

text \<open>C18: the recorder loses nothing. Relative to the abstract state that lists, sink by sink, the
  recorded samples, a new recorder is empty, \<open>Local\<close> adds an empty sink, \<open>Record\<close> appends its
  sample to its own sink whatever the latency, and \<open>Merge\<close> adds all samples of the other recorder.\<close>

theorem recorder_refines:
  assumes "lawful lib high sig n idx" "0 \<le> high" "recorder_rep lib high sig n idx r ess" "recorder_rep lib high sig n idx other fss"
    "i < length ess"
  shows "recorder_rep lib (rd_high (metrics_New o1)) (rd_sig (metrics_New o1)) n idx (metrics_New o1) [] \<and>
    recorder_rep lib high sig n idx (Recorder_Local lib r) (ess @ [[]]) \<and>
    recorder_rep lib high sig n idx (record_at lib i op d e r) (ess[i := ess ! i @ [(op, d, e)]]) \<and>
    recorder_rep lib high sig n idx (Recorder_Merge lib other r) (ess @ [concat fss])"
  using metrics_New_rep Recorder_Local_rep [OF assms(1,3)] record_at_rep [OF assms(1,3,2,5)] Recorder_Merge_rep [OF assms(1,3,4)]
  by (intro conjI)

theorem recorder_refines_witness:
  "recorder_rep demo_lib (60 * second) 3 2 demo_idx (Recorder_Merge demo_lib demo_recorder demo_recorder)
     [[(''r'', 5, True)], [(''r'', 5, True)]]"
  using recorder_refines [OF demo_lawful _ demo_rep demo_rep, of 0]
  by (auto simp: second_def)



text \<open>C20: intervals add up. Whatever samples are recorded between the calls of \<open>TakeInterval\<close>, and in
  whatever order maps are iterated, the counts that all intervals report for an operation type sum to
  the number of samples recorded for it.\<close>

theorem intervals_sum_to_total:
  assumes "lawful lib high sig n idx" "0 \<le> high" "recorder_rep lib high sig n idx r ess" "prev_rep high n idx r (concat ess)"
    "\<forall>b\<in>set bs. \<forall>x\<in>set b. fst x < length ess"
    "\<forall>r. finite (dom (mg_byOp (collect lib r))) \<longrightarrow> order_of (mg_byOp (collect lib r)) (keys r)"
  shows "(\<Sum>out\<leftarrow>fst (interval_run lib keys now dt bs r). counted op out) = int (length (samples op (map snd (concat bs))))"
  using interval_run_rep [OF assms] by (metis prod.collapse)

theorem intervals_sum_to_total_witness:
  "\<exists>keys. (\<Sum>out\<leftarrow>fst (interval_run demo_lib keys 0 second [[(0, ''w'', 7, False)], [(0, ''w'', 2000, False), (0, ''r'', 1, True)]]
      (Recorder_Local demo_lib (metrics_New \<lparr>mo_SignificantFigures = 3, mo_MaxLatency = 0\<rparr>))). counted ''w'' out) = 2"
proof -
  let ?r = "Recorder_Local demo_lib (metrics_New \<lparr>mo_SignificantFigures = 3, mo_MaxLatency = 0\<rparr>)"
  let ?keys = "\<lambda>r :: int list Recorder. sorted_list_of_set (dom (mg_byOp (collect demo_lib r)))"
  have "recorder_rep demo_lib (60 * second) 3 2 demo_idx (metrics_New \<lparr>mo_SignificantFigures = 3, mo_MaxLatency = 0\<rparr>) []"
    by (simp add: recorder_rep_def demo_new)
  from Recorder_Local_rep [OF demo_lawful this] have rep: "recorder_rep demo_lib (60 * second) 3 2 demo_idx ?r [[]]"
    by simp
  have prev: "prev_rep (60 * second) 2 demo_idx ?r (concat [[]])"
    by (simp add: prev_rep_def demo_new Recorder_Local_def)
  have keys: "\<forall>r. finite (dom (mg_byOp (collect demo_lib r))) \<longrightarrow> order_of (mg_byOp (collect demo_lib r)) (?keys r)"
    by (simp add: order_of_def)
  show ?thesis
    using intervals_sum_to_total [OF demo_lawful _ rep prev _ keys,
        of "[[(0, ''w'', 7, False)], [(0, ''w'', 2000, False), (0, ''r'', 1, True)]]" "''w''" 0 second]
    by (intro exI [of _ ?keys]) (simp add: second_def samples_def)
qed

text \<open>C21: shipping a recorder is lossless. When the codecs of the libraries round-trip, a recorder that
  \<open>Encode\<close> accepts is decoded, in any iteration order, to one that represents exactly its samples.\<close>

theorem wire_roundtrip:
  assumes "hist_codec lib" "envelope_codec wc" "recorder_rep lib high sig n idx r ess" "lawful lib high sig n idx"
    "1 \<le> sig" "sig \<le> 5" "order_of (mg_byOp (collect lib r)) ks" "order_of (mg_byOp (collect lib r)) ks'" "Encode lib wc ks r = Inr s"
  shows "\<exists>r'. Decode lib wc ks' s = Inr r' \<and> recorder_rep lib high sig n idx r' [concat ess]"
  using assms by (rule Decode_Encode)

theorem wire_roundtrip_witness:
  "\<exists>s r'. Encode demo_lib demo_wire [''r''] demo_recorder = Inr s \<and> Decode demo_lib demo_wire [''r''] s = Inr r' \<and>
     recorder_rep demo_lib (60 * second) 3 2 demo_idx r' [[(''r'', 5, True)]]"
  using wire_roundtrip [OF demo_hist_codec demo_envelope_codec demo_rep demo_lawful _ _ demo_order demo_order demo_Encode] demo_Encode
  by auto

end
