(* ===== verification/Runner.thy ===== *)
theory Runner
  imports Domain "HOL-Library.Multiset"
begin

text \<open>
  \<open>core/runner\<close>: the load loop. The workers share a clock, the run context, the scheduler and
  an accumulator updated by atomic operations only; each has its own connection, generator, sink and
  observer. A worker is a program counter over the statements of \<open>worker\<close> and \<open>observe\<close>,
  \<open>wstep\<close> executes one statement, and \<open>rstep\<close> interleaves the workers with the clock, the
  deadline and cancellation. The compare-and-swap loops of \<open>atomicMin\<close> and \<open>atomicMax\<close> are
  separate steps. \<open>connectAll\<close>, \<open>closeAll\<close>, \<open>report\<close> and \<open>validate\<close> are functions, and
  \<open>runner_Run\<close> composes all of it.

  The driver, the generator, the scheduler, the sink and the observer are interfaces of the source;
  their methods are fields of \<open>Deps\<close>. \<open>wk_log\<close> and \<open>sh_issued\<close> are history variables: the
  measured operations of a worker, and the intended times the scheduler gave out.
\<close>

section \<open>Definitions\<close>

record ('c, 'w) Driver =
  dv_Connect :: "Config \<Rightarrow> 'w \<Rightarrow> (err + 'c) \<times> 'w"
  dv_Prepare :: "Workload \<Rightarrow> 'c \<Rightarrow> 'w \<Rightarrow> err option \<times> 'w"
  dv_Execute :: "err option \<Rightarrow> Operation \<Rightarrow> 'c \<Rightarrow> 'w \<Rightarrow> OpResult \<times> 'w"
  dv_Close :: "'c \<Rightarrow> 'w \<Rightarrow> err option \<times> 'w"

text \<open>An interface value that may be nil is an \<open>option\<close>.\<close>

record ('c, 'w, 's, 'g, 'k, 'o) Deps =
  dp_Driver :: "('c, 'w) Driver option"
  dp_Cfg :: Config
  dp_Workload :: Workload
  dp_Sched :: "('s \<times> (instant \<Rightarrow> 's \<Rightarrow> instant \<times> 's)) option"
  dp_Gen :: "(nat \<Rightarrow> 'g) option"
  dp_GenNext :: "'g \<Rightarrow> Operation \<times> 'g"
  dp_Sink :: "(nat \<Rightarrow> 'k option) option"
  dp_Record :: "OpType \<Rightarrow> duration \<Rightarrow> bool \<Rightarrow> 'k \<Rightarrow> 'k"
  dp_Observer :: "(nat \<Rightarrow> 'o option) option"
  dp_Observe :: "Operation \<Rightarrow> OpResult \<Rightarrow> instant \<Rightarrow> instant \<Rightarrow> 'o \<Rightarrow> 'o"

record runner_Options =
  ro_Connections :: int
  ro_Warmup :: duration
  ro_Duration :: duration
  ro_LatenessThreshold :: duration

record RunReport =
  rn_Total :: int
  rn_Errors :: int
  rn_Records :: int
  rn_ClientBound :: bool
  rn_MeanLateness :: duration
  rn_MeanService :: duration
  rn_Duration :: duration

definition zero_RunReport :: RunReport where
  "zero_RunReport = \<lparr>rn_Total = 0, rn_Errors = 0, rn_Records = 0, rn_ClientBound = False, rn_MeanLateness = 0,
     rn_MeanService = 0, rn_Duration = 0\<rparr>"

definition validate :: "('c, 'w, 's, 'g, 'k, 'o) Deps \<Rightarrow> runner_Options \<Rightarrow> err option" where
  "validate d o1 =
     (if dp_Driver d = None then Some ''runner: nil Driver''
      else if dp_Sched d = None then Some ''runner: nil Scheduler''
      else if dp_Gen d = None then Some ''runner: nil Gen''
      else if ro_Connections o1 < 1 then Some (''runner: Connections must be >= 1, got '' @ fmt_int (ro_Connections o1))
      else if ro_Duration o1 \<le> 0 then Some (''runner: Duration must be > 0, got '' @ duration_String (ro_Duration o1))
      else if ro_Warmup o1 < 0 then Some (''runner: Warmup must be >= 0, got '' @ duration_String (ro_Warmup o1))
      else None)"

fun closeAll :: "('c, 'w) Driver \<Rightarrow> 'c list \<Rightarrow> 'w \<Rightarrow> 'w" where
  "closeAll dv [] w = w"
| "closeAll dv (c # cs) w = closeAll dv cs (snd (dv_Close dv c w))"

fun connect_loop :: "('c, 'w) Driver \<Rightarrow> Config \<Rightarrow> Workload \<Rightarrow> nat \<Rightarrow> nat \<Rightarrow> 'c list \<Rightarrow> 'w \<Rightarrow> (err + 'c list) \<times> 'w" where
  "connect_loop dv cfg wl i 0 conns w = (Inr conns, w)"
| "connect_loop dv cfg wl i (Suc n) conns w =
     (case dv_Connect dv cfg w of
        (Inl e, w1) \<Rightarrow> (Inl (''runner: connect '' @ fmt_nat i @ '': '' @ e), closeAll dv conns w1)
      | (Inr c, w1) \<Rightarrow>
          (case dv_Prepare dv wl c w1 of
             (Some e, w2) \<Rightarrow>
               (let w3 = snd (dv_Close dv c w2)
                in (Inl (''runner: prepare '' @ fmt_nat i @ '': '' @ e), closeAll dv conns w3))
           | (None, w2) \<Rightarrow> connect_loop dv cfg wl (Suc i) n (conns @ [c]) w2))"

definition connectAll :: "('c, 'w) Driver \<Rightarrow> Config \<Rightarrow> Workload \<Rightarrow> int \<Rightarrow> 'w \<Rightarrow> (err + 'c list) \<times> 'w" where
  "connectAll dv cfg wl n w = connect_loop dv cfg wl 0 (nat n) [] w"

record accumulator =
  ac_total :: int
  ac_errors :: int
  ac_latenessSum :: int
  ac_serviceSum :: int
  ac_records :: int
  ac_minIntended :: int
  ac_maxIntended :: int

definition acc0 :: accumulator where
  "acc0 = \<lparr>ac_total = 0, ac_errors = 0, ac_latenessSum = 0, ac_serviceSum = 0, ac_records = 0,
     ac_minIntended = 9223372036854775807, ac_maxIntended = - 9223372036854775808\<rparr>"

text \<open>The updates of the accumulator that \<open>observe\<close> makes, one per atomic call.\<close>

datatype acc_action =
    AddTotal int | AddErrors int | AddRecords int | AddLateness int | AddService int
  | AtomicMin int | AtomicMax int

text \<open>One step of a compare-and-swap loop. The first argument is the value loaded before the
  swap, \<open>None\<close> at the head of the loop; the result is \<open>None\<close> when the loop returns.\<close>

definition atomicMin :: "int option \<Rightarrow> int \<Rightarrow> int \<Rightarrow> int option option \<times> int" where
  "atomicMin loaded v cell =
     (case loaded of
        None \<Rightarrow> if cell \<le> v then (None, cell) else (Some (Some cell), cell)
      | Some old \<Rightarrow> if cell = old then (None, v) else (Some None, cell))"

definition atomicMax :: "int option \<Rightarrow> int \<Rightarrow> int \<Rightarrow> int option option \<times> int" where
  "atomicMax loaded v cell =
     (case loaded of
        None \<Rightarrow> if cell \<ge> v then (None, cell) else (Some (Some cell), cell)
      | Some old \<Rightarrow> if cell = old then (None, v) else (Some None, cell))"

fun acc_step :: "int option \<Rightarrow> acc_action \<Rightarrow> accumulator \<Rightarrow> int option option \<times> accumulator" where
  "acc_step ld (AddTotal x) a = (None, a\<lparr>ac_total := i64 (ac_total a + x)\<rparr>)"
| "acc_step ld (AddErrors x) a = (None, a\<lparr>ac_errors := i64 (ac_errors a + x)\<rparr>)"
| "acc_step ld (AddRecords x) a = (None, a\<lparr>ac_records := i64 (ac_records a + x)\<rparr>)"
| "acc_step ld (AddLateness x) a = (None, a\<lparr>ac_latenessSum := i64 (ac_latenessSum a + x)\<rparr>)"
| "acc_step ld (AddService x) a = (None, a\<lparr>ac_serviceSum := i64 (ac_serviceSum a + x)\<rparr>)"
| "acc_step ld (AtomicMin v) a = (let (r, c) = atomicMin ld v (ac_minIntended a) in (r, a\<lparr>ac_minIntended := c\<rparr>))"
| "acc_step ld (AtomicMax v) a = (let (r, c) = atomicMax ld v (ac_maxIntended a) in (r, a\<lparr>ac_maxIntended := c\<rparr>))"

text \<open>A measured operation: what it was, and its three instants.\<close>

record measured =
  me_op :: Operation
  me_res :: OpResult
  me_intended :: instant
  me_dispatch :: instant
  me_done :: instant

text \<open>The updates in the order of \<open>observe\<close>.\<close>

definition acc_actions :: "measured \<Rightarrow> acc_action list" where
  "acc_actions m =
     (let lateness = time_sub (me_dispatch m) (me_intended m); svc = time_sub (me_done m) (me_dispatch m);
          v = i64 (me_intended m)
      in [AddTotal 1]
         @ (if r_Err (me_res m) \<noteq> None then [AddErrors 1]
            else [AddRecords (if r_Rows (me_res m) < 1 then 1 else r_Rows (me_res m))])
         @ [AddLateness (if lateness < 0 then 0 else lateness)]
         @ (if svc > 0 then [AddService svc] else [])
         @ [AtomicMin v, AtomicMax v])"

text \<open>The program counter names the next statement of \<open>worker\<close>; its arguments are the local
  variables that are set by then.\<close>

datatype pc =
    AtCheck
  | AtSched
  | AtSleep instant
  | AtTimer instant
  | AtGen instant
  | AtDispatch instant Operation
  | AtExecute instant Operation instant
  | AtReturn instant Operation instant OpResult
  | AtObserve instant Operation instant OpResult instant
  | AtUpdate "int option" "acc_action list"
  | Exited

record ('c, 'g, 'k, 'o) worker =
  wk_conn :: 'c
  wk_gen :: 'g
  wk_sink :: "'k option"
  wk_obs :: "'o option"
  wk_pc :: pc
  wk_log :: "measured list"

record ('w, 's) shared =
  sh_now :: instant
  sh_err :: "err option"
  sh_sched :: 's
  sh_issued :: "instant list"
  sh_acc :: accumulator
  sh_world :: 'w

text \<open>\<open>None\<close> is the discard sink.\<close>

definition measureSink :: "('c, 'w, 's, 'g, 'k, 'o) Deps \<Rightarrow> nat \<Rightarrow> 'k option" where
  "measureSink d shard = (case dp_Sink d of None \<Rightarrow> None | Some f \<Rightarrow> f shard)"

definition measureObserver :: "('c, 'w, 's, 'g, 'k, 'o) Deps \<Rightarrow> nat \<Rightarrow> 'o option" where
  "measureObserver d shard = (case dp_Observer d of None \<Rightarrow> None | Some f \<Rightarrow> f shard)"

text \<open>\<open>observe\<close>: sink and observer are called, and the updates of the accumulator follow.\<close>

definition observe :: "('c, 'w, 's, 'g, 'k, 'o) Deps \<Rightarrow> instant \<Rightarrow> measured \<Rightarrow> ('c, 'g, 'k, 'o) worker \<Rightarrow>
    ('c, 'g, 'k, 'o) worker \<times> acc_action list" where
  "observe d warmupEnd m wk =
     (if me_dispatch m < warmupEnd then (wk, [])
      else let latency = time_sub (me_done m) (me_intended m); isErr = (r_Err (me_res m) \<noteq> None)
           in (wk\<lparr>wk_sink := map_option (dp_Record d (r_Type (me_res m)) latency isErr) (wk_sink wk),
                  wk_obs := map_option (dp_Observe d (me_op m) (me_res m) (me_dispatch m) (me_done m)) (wk_obs wk),
                  wk_log := wk_log wk @ [m]\<rparr>,
               acc_actions m))"

text \<open>The end of the updates is the head of the loop of \<open>worker\<close>.\<close>

definition after_update :: "int option \<Rightarrow> acc_action list \<Rightarrow> pc" where
  "after_update ld acts = (if acts = [] then AtCheck else AtUpdate ld acts)"

text \<open>The statements of \<open>worker\<close> and, between \<open>AtSleep\<close> and \<open>AtGen\<close>, of \<open>sleepUntil\<close>.\<close>

inductive wstep :: "('c, 'w, 's, 'g, 'k, 'o) Deps \<Rightarrow> ('c, 'w) Driver \<Rightarrow> (instant \<Rightarrow> 's \<Rightarrow> instant \<times> 's) \<Rightarrow> instant \<Rightarrow>
    ('w, 's) shared \<Rightarrow> ('c, 'g, 'k, 'o) worker \<Rightarrow> ('w, 's) shared \<Rightarrow> ('c, 'g, 'k, 'o) worker \<Rightarrow> bool"
  for d dv nxt warmupEnd where
  check: "wk_pc wk = AtCheck \<Longrightarrow>
    wstep d dv nxt warmupEnd sh wk sh (wk\<lparr>wk_pc := (if sh_err sh \<noteq> None then Exited else AtSched)\<rparr>)"
| sched: "wk_pc wk = AtSched \<Longrightarrow> nxt (sh_now sh) (sh_sched sh) = (intended, s') \<Longrightarrow>
    wstep d dv nxt warmupEnd sh wk (sh\<lparr>sh_sched := s', sh_issued := sh_issued sh @ [intended]\<rparr>) (wk\<lparr>wk_pc := AtSleep intended\<rparr>)"
| sleep: "wk_pc wk = AtSleep intended \<Longrightarrow>
    wstep d dv nxt warmupEnd sh wk sh
      (wk\<lparr>wk_pc := (if time_sub intended (sh_now sh) \<le> 0 then if sh_err sh \<noteq> None then Exited else AtGen intended
                    else AtTimer intended)\<rparr>)"
| fired: "wk_pc wk = AtTimer intended \<Longrightarrow> intended \<le> sh_now sh \<Longrightarrow> wstep d dv nxt warmupEnd sh wk sh (wk\<lparr>wk_pc := AtGen intended\<rparr>)"
| interrupted: "wk_pc wk = AtTimer intended \<Longrightarrow> sh_err sh \<noteq> None \<Longrightarrow> wstep d dv nxt warmupEnd sh wk sh (wk\<lparr>wk_pc := Exited\<rparr>)"
| gen: "wk_pc wk = AtGen intended \<Longrightarrow> dp_GenNext d (wk_gen wk) = (op, g') \<Longrightarrow>
    wstep d dv nxt warmupEnd sh wk sh (wk\<lparr>wk_gen := g', wk_pc := AtDispatch intended op\<rparr>)"
| dispatch: "wk_pc wk = AtDispatch intended op \<Longrightarrow>
    wstep d dv nxt warmupEnd sh wk sh (wk\<lparr>wk_pc := AtExecute intended op (sh_now sh)\<rparr>)"
| execute: "wk_pc wk = AtExecute intended op dispatch \<Longrightarrow> dv_Execute dv (sh_err sh) op (wk_conn wk) (sh_world sh) = (res, w') \<Longrightarrow>
    wstep d dv nxt warmupEnd sh wk (sh\<lparr>sh_world := w'\<rparr>) (wk\<lparr>wk_pc := AtReturn intended op dispatch res\<rparr>)"
| return: "wk_pc wk = AtReturn intended op dispatch res \<Longrightarrow>
    wstep d dv nxt warmupEnd sh wk sh (wk\<lparr>wk_pc := AtObserve intended op dispatch res (sh_now sh)\<rparr>)"
| discard: "wk_pc wk = AtObserve intended op dispatch res fin \<Longrightarrow> sh_err sh \<noteq> None \<Longrightarrow>
    wstep d dv nxt warmupEnd sh wk sh (wk\<lparr>wk_pc := Exited\<rparr>)"
| observe: "wk_pc wk = AtObserve intended op dispatch res fin \<Longrightarrow> sh_err sh = None \<Longrightarrow>
    observe d warmupEnd \<lparr>me_op = op, me_res = res, me_intended = intended, me_dispatch = dispatch, me_done = fin\<rparr> wk = (wk', acts) \<Longrightarrow>
    wstep d dv nxt warmupEnd sh wk sh (wk'\<lparr>wk_pc := after_update None acts\<rparr>)"
| update: "wk_pc wk = AtUpdate ld (a # acts) \<Longrightarrow> acc_step ld a (sh_acc sh) = (r, acc') \<Longrightarrow>
    wstep d dv nxt warmupEnd sh wk (sh\<lparr>sh_acc := acc'\<rparr>)
      (wk\<lparr>wk_pc := (case r of None \<Rightarrow> after_update None acts | Some ld' \<Rightarrow> AtUpdate ld' (a # acts))\<rparr>)"

text \<open>The run: any worker moves, time passes, the deadline of the run context passes, or the
  caller cancels. The first component of the state is what \<open>ctx.Err()\<close> gives for the caller's context.\<close>

type_synonym ('c, 'w, 's, 'g, 'k, 'o) run_state = "err option \<times> ('w, 's) shared \<times> ('c, 'g, 'k, 'o) worker list"

definition DeadlineExceeded :: err where
  "DeadlineExceeded = ''context deadline exceeded''"

inductive rstep :: "('c, 'w, 's, 'g, 'k, 'o) Deps \<Rightarrow> ('c, 'w) Driver \<Rightarrow> (instant \<Rightarrow> 's \<Rightarrow> instant \<times> 's) \<Rightarrow> instant \<Rightarrow> instant \<Rightarrow>
    ('c, 'w, 's, 'g, 'k, 'o) run_state \<Rightarrow> ('c, 'w, 's, 'g, 'k, 'o) run_state \<Rightarrow> bool"
  for d dv nxt warmupEnd measureEnd where
  work: "i < length wks \<Longrightarrow> wstep d dv nxt warmupEnd sh (wks ! i) sh' wk' \<Longrightarrow>
    rstep d dv nxt warmupEnd measureEnd (ce, sh, wks) (ce, sh', wks[i := wk'])"
| tick: "sh_now sh \<le> t \<Longrightarrow> rstep d dv nxt warmupEnd measureEnd (ce, sh, wks) (ce, sh\<lparr>sh_now := t\<rparr>, wks)"
| deadline: "measureEnd \<le> sh_now sh \<Longrightarrow> sh_err sh = None \<Longrightarrow>
    rstep d dv nxt warmupEnd measureEnd (ce, sh, wks) (ce, sh\<lparr>sh_err := Some DeadlineExceeded\<rparr>, wks)"
| cancel: "ce = None \<Longrightarrow>
    rstep d dv nxt warmupEnd measureEnd (ce, sh, wks)
      (Some e, sh\<lparr>sh_err := (case sh_err sh of None \<Rightarrow> Some e | Some e' \<Rightarrow> Some e')\<rparr>, wks)"

definition new_worker :: "('c, 'w, 's, 'g, 'k, 'o) Deps \<Rightarrow> (nat \<Rightarrow> 'g) \<Rightarrow> nat \<Rightarrow> 'c \<Rightarrow> ('c, 'g, 'k, 'o) worker" where
  "new_worker d gen shard c = \<lparr>wk_conn = c, wk_gen = gen shard, wk_sink = measureSink d shard, wk_obs = measureObserver d shard,
     wk_pc = AtCheck, wk_log = []\<rparr>"

definition run_init :: "('c, 'w, 's, 'g, 'k, 'o) Deps \<Rightarrow> (nat \<Rightarrow> 'g) \<Rightarrow> 's \<Rightarrow> err option \<Rightarrow> instant \<Rightarrow> 'c list \<Rightarrow> 'w \<Rightarrow>
    ('c, 'w, 's, 'g, 'k, 'o) run_state" where
  "run_init d gen s ce base conns w =
     (ce, \<lparr>sh_now = base, sh_err = ce, sh_sched = s, sh_issued = [], sh_acc = acc0, sh_world = w\<rparr>,
      map (\<lambda>i. new_worker d gen i (conns ! i)) [0..<length conns])"

definition meanInterArrival :: "accumulator \<Rightarrow> int \<Rightarrow> duration" where
  "meanInterArrival a tot =
     (if tot < 2 then 0
      else let spn = i64 (ac_maxIntended a - ac_minIntended a)
           in if spn \<le> 0 then 0 else spn sdiv (tot - 1))"

definition measureElapsed :: "instant \<Rightarrow> instant \<Rightarrow> duration \<Rightarrow> duration" where
  "measureElapsed now warmupEnd limit =
     (let d = time_sub now warmupEnd in if d < 0 then 0 else if d > limit then limit else d)"

definition runner_report :: "instant \<Rightarrow> instant \<Rightarrow> runner_Options \<Rightarrow> accumulator \<Rightarrow> RunReport" where
  "runner_report now warmupEnd o1 a =
     (let tot = ac_total a;
          rep = zero_RunReport\<lparr>rn_Total := tot, rn_Errors := ac_errors a, rn_Records := ac_records a,
                  rn_Duration := measureElapsed now warmupEnd (ro_Duration o1)\<rparr>
      in if tot = 0 then rep
         else let lateness = ac_latenessSum a sdiv tot; service = ac_serviceSum a sdiv tot;
                  threshold = (if ro_LatenessThreshold o1 \<le> 0 then meanInterArrival a tot else ro_LatenessThreshold o1);
                  lowErrors = (i64 (rn_Errors rep * 20) < tot)
              in rep\<lparr>rn_MeanLateness := lateness, rn_MeanService := service,
                     rn_ClientBound := (threshold > 0 \<and> lateness > threshold \<and> lateness > service \<and> lowErrors)\<rparr>)"

text \<open>\<open>Run\<close>: \<open>base\<close> is the clock after connecting; \<open>now\<close> in the report is the clock when all workers
  have exited.\<close>

inductive runner_Run :: "('c, 'w, 's, 'g, 'k, 'o) Deps \<Rightarrow> runner_Options \<Rightarrow> 'w \<Rightarrow> RunReport \<times> err option \<Rightarrow> 'w \<Rightarrow> bool"
  for d o1 where
  invalid: "validate d o1 = Some e \<Longrightarrow> runner_Run d o1 w (zero_RunReport, Some e) w"
| unconnected: "validate d o1 = None \<Longrightarrow> dp_Driver d = Some dv \<Longrightarrow>
    connectAll dv (dp_Cfg d) (dp_Workload d) (ro_Connections o1) w = (Inl e, w') \<Longrightarrow> runner_Run d o1 w (zero_RunReport, Some e) w'"
| finished: "validate d o1 = None \<Longrightarrow> dp_Driver d = Some dv \<Longrightarrow> dp_Sched d = Some (s0, nxt) \<Longrightarrow> dp_Gen d = Some gen \<Longrightarrow>
    connectAll dv (dp_Cfg d) (dp_Workload d) (ro_Connections o1) w = (Inr conns, w1) \<Longrightarrow>
    warmupEnd = base + ro_Warmup o1 \<Longrightarrow>
    (rstep d dv nxt warmupEnd (warmupEnd + ro_Duration o1))\<^sup>*\<^sup>* (run_init d gen s0 ce0 base conns w1) (ce, sh, wks) \<Longrightarrow>
    \<forall>wk\<in>set wks. wk_pc wk = Exited \<Longrightarrow>
    runner_Run d o1 w (runner_report (sh_now sh) warmupEnd o1 (sh_acc sh), ce) (closeAll dv conns (sh_world sh))"

section \<open>Compare-and-swap loops\<close>

text \<open>How far a loop is from its end if the cell is left alone: at a stale load, at the head, or at a
  swap that will succeed.\<close>

fun cas_rank :: "int option \<Rightarrow> int \<Rightarrow> nat" where
  "cas_rank None cell = 1"
| "cas_rank (Some old) cell = (if old = cell then 0 else 2)"

text \<open>A loop that loads a cell and swaps in its value while that is better. When it returns, the
  cell was set to the better of the two in one step; a retry means the cell changed since the load.\<close>

locale atomic_update =
  fixes step :: "int option \<Rightarrow> int \<Rightarrow> int \<Rightarrow> int option option \<times> int" and pick :: "int \<Rightarrow> int \<Rightarrow> int" and better :: "int \<Rightarrow> int \<Rightarrow> bool"
  assumes load: "step None v cell = (if better v cell then (Some (Some cell), cell) else (None, cell))"
    and swap: "step (Some old) v cell = (if cell = old then (None, v) else (Some None, cell))"
    and pick: "pick cell v = (if better v cell then v else cell)"
begin

lemma step_effect:
  assumes "step ld v cell = (r, cell')" "\<forall>old. ld = Some old \<longrightarrow> better v old"
  shows "case r of None \<Rightarrow> cell' = pick cell v | Some ld' \<Rightarrow> cell' = cell \<and> (\<forall>old. ld' = Some old \<longrightarrow> better v old)"
  using assms by (cases ld) (auto simp: load swap pick split: if_splits)

lemma step_retry:
  assumes "step ld v cell = (Some ld', cell')"
  shows "cell' = cell \<and> cas_rank ld' cell < cas_rank ld cell"
  using assms by (cases ld) (auto simp: load swap split: if_splits)

end

interpretation amin: atomic_update atomicMin min "(<)"
  by unfold_locales (auto simp: atomicMin_def)

interpretation amax: atomic_update atomicMax max "(>)"
  by unfold_locales (auto simp: atomicMax_def)

text \<open>The effect of an update as one atomic step, and the condition on a loaded value.\<close>

fun apply_action :: "acc_action \<Rightarrow> accumulator \<Rightarrow> accumulator" where
  "apply_action (AddTotal x) a = a\<lparr>ac_total := i64 (ac_total a + x)\<rparr>"
| "apply_action (AddErrors x) a = a\<lparr>ac_errors := i64 (ac_errors a + x)\<rparr>"
| "apply_action (AddRecords x) a = a\<lparr>ac_records := i64 (ac_records a + x)\<rparr>"
| "apply_action (AddLateness x) a = a\<lparr>ac_latenessSum := i64 (ac_latenessSum a + x)\<rparr>"
| "apply_action (AddService x) a = a\<lparr>ac_serviceSum := i64 (ac_serviceSum a + x)\<rparr>"
| "apply_action (AtomicMin v) a = a\<lparr>ac_minIntended := min (ac_minIntended a) v\<rparr>"
| "apply_action (AtomicMax v) a = a\<lparr>ac_maxIntended := max (ac_maxIntended a) v\<rparr>"

fun loaded_ok :: "int option \<Rightarrow> acc_action \<Rightarrow> bool" where
  "loaded_ok ld (AtomicMin v) = (\<forall>old. ld = Some old \<longrightarrow> v < old)"
| "loaded_ok ld (AtomicMax v) = (\<forall>old. ld = Some old \<longrightarrow> v > old)"
| "loaded_ok ld _ = True"

lemma acc_step_linear:
  assumes "acc_step ld a acc = (r, acc')" "loaded_ok ld a"
  shows "case r of None \<Rightarrow> acc' = apply_action a acc | Some ld' \<Rightarrow> acc' = acc \<and> loaded_ok ld' a"
proof (cases a)
  case (AtomicMin v)
  thus ?thesis
    using assms amin.step_effect [of ld v "ac_minIntended acc"] by (auto split: prod.splits option.splits)
next
  case (AtomicMax v)
  thus ?thesis
    using assms amax.step_effect [of ld v "ac_maxIntended acc"] by (auto split: prod.splits option.splits)
qed (use assms in auto)

lemma i64_add_commute: "i64 (i64 (a + x) + y) = i64 (i64 (a + y) + x)"
  by (simp add: i64_add_i64 add.assoc add.commute [of x y])

interpretation updates: comp_fun_commute apply_action
proof
  show "apply_action y \<circ> apply_action x = apply_action x \<circ> apply_action y" for x y
    by (cases x; cases y) (auto simp: fun_eq_iff i64_add_commute min.assoc max.assoc min.commute max.commute)
qed

section \<open>Invariants of a run\<close>

definition pend :: "('c, 'g, 'k, 'o) worker \<Rightarrow> acc_action multiset" where
  "pend wk = (case wk_pc wk of AtUpdate ld acts \<Rightarrow> mset acts | _ \<Rightarrow> {#})"

definition logged :: "('c, 'g, 'k, 'o) worker \<Rightarrow> acc_action multiset" where
  "logged wk = mset (concat (map acc_actions (wk_log wk)))"

text \<open>The intended time a worker holds.\<close>

definition held :: "pc \<Rightarrow> instant multiset" where
  "held p = (case p of AtSleep i \<Rightarrow> {#i#} | AtTimer i \<Rightarrow> {#i#} | AtGen i \<Rightarrow> {#i#} | AtDispatch i _ \<Rightarrow> {#i#} | AtExecute i _ _ \<Rightarrow> {#i#}
     | AtReturn i _ _ _ \<Rightarrow> {#i#} | AtObserve i _ _ _ _ \<Rightarrow> {#i#} | _ \<Rightarrow> {#})"

definition taken :: "('c, 'g, 'k, 'o) worker \<Rightarrow> instant multiset" where
  "taken wk = held (wk_pc wk) + mset (map me_intended (wk_log wk))"

definition pc_ok :: "instant \<Rightarrow> pc \<Rightarrow> bool" where
  "pc_ok now p = (case p of AtGen i \<Rightarrow> i \<le> now | AtDispatch i _ \<Rightarrow> i \<le> now | AtExecute i _ dsp \<Rightarrow> i \<le> dsp \<and> dsp \<le> now
     | AtReturn i _ dsp _ \<Rightarrow> i \<le> dsp \<and> dsp \<le> now | AtObserve i _ dsp _ fin \<Rightarrow> i \<le> dsp \<and> dsp \<le> fin \<and> fin \<le> now
     | AtUpdate ld acts \<Rightarrow> acts \<noteq> [] \<and> loaded_ok ld (hd acts) | _ \<Rightarrow> True)"

definition measured_ok :: "instant \<Rightarrow> instant \<Rightarrow> measured \<Rightarrow> bool" where
  "measured_ok warmupEnd now m \<longleftrightarrow> me_intended m \<le> me_dispatch m \<and> me_dispatch m \<le> me_done m \<and> me_done m \<le> now \<and> warmupEnd \<le> me_dispatch m"

definition record_measured :: "('c, 'w, 's, 'g, 'k, 'o) Deps \<Rightarrow> measured \<Rightarrow> 'k \<Rightarrow> 'k" where
  "record_measured d m = dp_Record d (r_Type (me_res m)) (time_sub (me_done m) (me_intended m)) (r_Err (me_res m) \<noteq> None)"

definition observe_measured :: "('c, 'w, 's, 'g, 'k, 'o) Deps \<Rightarrow> measured \<Rightarrow> 'o \<Rightarrow> 'o" where
  "observe_measured d m = dp_Observe d (me_op m) (me_res m) (me_dispatch m) (me_done m)"

definition wk_inv :: "('c, 'w, 's, 'g, 'k, 'o) Deps \<Rightarrow> instant \<Rightarrow> instant \<Rightarrow> nat \<Rightarrow> ('c, 'g, 'k, 'o) worker \<Rightarrow> bool" where
  "wk_inv d warmupEnd now i wk \<longleftrightarrow> pc_ok now (wk_pc wk) \<and> (\<forall>m\<in>set (wk_log wk). measured_ok warmupEnd now m) \<and>
     wk_sink wk = map_option (fold (record_measured d) (wk_log wk)) (measureSink d i) \<and>
     wk_obs wk = map_option (fold (observe_measured d) (wk_log wk)) (measureObserver d i)"

lemma pc_ok_after_update: "loaded_ok None (hd (acts @ [AddTotal 1])) \<Longrightarrow> pc_ok now (after_update None acts)"
  by (cases acts) (auto simp: pc_ok_def after_update_def)

lemma loaded_ok_None [simp]: "loaded_ok None a"
  by (cases a) auto

lemma time_sub_nonpos: "time_sub a b \<le> 0 \<longleftrightarrow> a \<le> b"
  by (auto simp: time_sub_def)

lemma wstep_inv:
  assumes "wstep d dv nxt warmupEnd sh wk sh' wk'" "wk_inv d warmupEnd (sh_now sh) i wk"
  shows "wk_inv d warmupEnd (sh_now sh') i wk'"
  using assms
proof (induction rule: wstep.induct)
  case (observe wk intended op dispatch res fin sh wk' acts)
  show ?case
  proof (cases "dispatch < warmupEnd")
    case True
    with observe show ?thesis
      by (auto simp: observe_def wk_inv_def pc_ok_def after_update_def)
  next
    case False
    with observe show ?thesis
      by (auto simp: observe_def Let_def wk_inv_def pc_ok_after_update measured_ok_def pc_ok_def [of _ "AtObserve _ _ _ _ _"]
          option.map_comp o_def record_measured_def observe_measured_def)
  qed
next
  case (update wk ld a acts sh r acc')
  from update acc_step_linear [OF update(2)] show ?case
    by (auto simp: wk_inv_def pc_ok_after_update pc_ok_def [of _ "AtUpdate _ _"] split: option.splits)
qed (auto simp: wk_inv_def pc_ok_def time_sub_nonpos split: if_splits)

lemma wstep_shared:
  assumes "wstep d dv nxt warmupEnd sh wk sh' wk'"
  shows "sh_now sh' = sh_now sh \<and> sh_err sh' = sh_err sh"
  using assms by (induction rule: wstep.induct) auto

lemma wstep_accounts:
  assumes "wstep d dv nxt warmupEnd sh wk sh' wk'" "wk_inv d warmupEnd (sh_now sh) i wk"
  shows "\<exists>A. sh_acc sh' = fold_mset apply_action (sh_acc sh) A \<and> pend wk + logged wk' = pend wk' + A + logged wk"
  using assms
proof (induction rule: wstep.induct)
  case (observe wk intended op dispatch res fin sh wk' acts)
  thus ?case
    by (intro exI [of _ "{#}"]) (auto simp: observe_def Let_def pend_def logged_def after_update_def split: if_splits)
next
  case (update wk ld a acts sh r acc')
  hence ok: "loaded_ok ld a"
    by (simp add: wk_inv_def pc_ok_def)
  show ?case
  proof (cases r)
    case None
    with acc_step_linear [OF update(2) ok] have "acc' = apply_action a (sh_acc sh)"
      by simp
    with None update(1) show ?thesis
      by (intro exI [of _ "{#a#}"]) (auto simp: pend_def logged_def after_update_def)
  next
    case (Some ld')
    with acc_step_linear [OF update(2) ok] update(1) show ?thesis
      by (intro exI [of _ "{#}"]) (auto simp: pend_def logged_def)
  qed
qed (auto simp: pend_def logged_def intro!: exI [of _ "{#}"])

lemma wstep_issued:
  assumes "wstep d dv nxt warmupEnd sh wk sh' wk'"
  shows "\<exists>I. sh_issued sh' = sh_issued sh @ I \<and> taken wk' \<subseteq># taken wk + mset I"
  using assms
proof (induction rule: wstep.induct)
  case (observe wk intended op dispatch res fin sh wk' acts)
  thus ?case
    by (intro exI [of _ "[]"]) (auto simp: observe_def Let_def taken_def held_def after_update_def split: if_splits)
next
  case (sched wk sh intended s')
  thus ?case
    by (auto simp: taken_def held_def)
qed (auto simp: taken_def held_def after_update_def split: option.splits)

definition acc_inv :: "accumulator \<Rightarrow> ('c, 'g, 'k, 'o) worker list \<Rightarrow> bool" where
  "acc_inv acc wks \<longleftrightarrow> (\<exists>F. acc = fold_mset apply_action acc0 F \<and> F + (\<Sum>wk\<leftarrow>wks. pend wk) = (\<Sum>wk\<leftarrow>wks. logged wk))"

fun run_inv :: "('c, 'w, 's, 'g, 'k, 'o) Deps \<Rightarrow> instant \<Rightarrow> ('c, 'w, 's, 'g, 'k, 'o) run_state \<Rightarrow> bool" where
  "run_inv d warmupEnd (ce, sh, wks) \<longleftrightarrow> (\<forall>i<length wks. wk_inv d warmupEnd (sh_now sh) i (wks ! i)) \<and> acc_inv (sh_acc sh) wks \<and>
     (\<Sum>wk\<leftarrow>wks. taken wk) \<subseteq># mset (sh_issued sh)"

lemma acc_inv_step:
  assumes "acc_inv acc wks" "i < length wks" "acc' = fold_mset apply_action acc A"
    "pend (wks ! i) + logged wk' = pend wk' + A + logged (wks ! i)"
  shows "acc_inv acc' (wks[i := wk'])"
proof -
  obtain F where F: "acc = fold_mset apply_action acc0 F" "F + (\<Sum>wk\<leftarrow>wks. pend wk) = (\<Sum>wk\<leftarrow>wks. logged wk)"
    using assms(1) by (auto simp: acc_inv_def)
  have "F + A + (\<Sum>wk\<leftarrow>wks[i := wk']. pend wk) + (pend (wks ! i) + logged (wks ! i)) =
      F + (\<Sum>wk\<leftarrow>wks. pend wk) + (pend wk' + A + logged (wks ! i))"
    using sum_list_map_update [OF assms(2), of pend wk'] by (simp add: ac_simps)
  also have "\<dots> = (\<Sum>wk\<leftarrow>wks. logged wk) + logged wk' + pend (wks ! i)"
    unfolding F(2) assms(4) [symmetric] by (simp only: ac_simps)
  also have "\<dots> = (\<Sum>wk\<leftarrow>wks[i := wk']. logged wk) + (pend (wks ! i) + logged (wks ! i))"
    using sum_list_map_update [OF assms(2), of logged wk'] by (simp add: ac_simps)
  finally have "F + A + (\<Sum>wk\<leftarrow>wks[i := wk']. pend wk) = (\<Sum>wk\<leftarrow>wks[i := wk']. logged wk)"
    by simp
  moreover have "acc' = fold_mset apply_action acc0 (F + A)"
    by (simp add: assms(3) F(1))
  ultimately show ?thesis
    unfolding acc_inv_def by blast
qed

lemma taken_step:
  assumes "(\<Sum>wk\<leftarrow>wks. taken wk) \<subseteq># M" "i < length wks" "taken wk' \<subseteq># taken (wks ! i) + I"
  shows "(\<Sum>wk\<leftarrow>wks[i := wk']. taken wk) \<subseteq># M + I"
proof -
  have "(\<Sum>wk\<leftarrow>wks[i := wk']. taken wk) + taken (wks ! i) \<subseteq># M + (taken (wks ! i) + I)"
    unfolding sum_list_map_update [OF assms(2)] using assms(1,3) by (rule subset_mset.add_mono)
  thus ?thesis
    by (simp add: ac_simps)
qed

lemma wk_inv_later: "wk_inv d warmupEnd now i wk \<Longrightarrow> now \<le> t \<Longrightarrow> wk_inv d warmupEnd t i wk"
  by (auto simp: wk_inv_def pc_ok_def measured_ok_def split: pc.splits)

interpretation run: invariant_system "rstep d dv nxt warmupEnd measureEnd" "run_inv d warmupEnd" for d dv nxt warmupEnd measureEnd
proof
  fix s t
  assume inv: "run_inv d warmupEnd s" and "rstep d dv nxt warmupEnd measureEnd s t"
  from \<open>rstep d dv nxt warmupEnd measureEnd s t\<close> inv show "run_inv d warmupEnd t"
  proof (induction rule: rstep.induct)
    case (work i wks sh sh' wk' ce)
    note W = work(1,2)
    have I: "\<forall>i<length wks. wk_inv d warmupEnd (sh_now sh) i (wks ! i)" "acc_inv (sh_acc sh) wks"
        "(\<Sum>wk\<leftarrow>wks. taken wk) \<subseteq># mset (sh_issued sh)"
      using work(3) by auto
    hence wi: "wk_inv d warmupEnd (sh_now sh) i (wks ! i)"
      using W(1) by blast
    have "\<forall>j<length (wks[i := wk']). wk_inv d warmupEnd (sh_now sh') j (wks[i := wk'] ! j)"
      using I(1) W(1) wstep_inv [OF W(2) wi] wstep_shared [OF W(2)] by (auto simp: nth_list_update)
    moreover have "acc_inv (sh_acc sh') (wks[i := wk'])"
      using wstep_accounts [OF W(2) wi] acc_inv_step [OF I(2) W(1)] by blast
    moreover have "(\<Sum>wk\<leftarrow>wks[i := wk']. taken wk) \<subseteq># mset (sh_issued sh')"
      using wstep_issued [OF W(2)] taken_step [OF I(3) W(1)] by auto
    ultimately show ?case
      by simp
  qed (auto intro: wk_inv_later)
qed

lemma run_init_inv: "run_inv d warmupEnd (run_init d gen s ce base conns w)"
proof -
  have "(\<Sum>i\<leftarrow>xs. pend (new_worker d gen i (conns ! i))) = {#}" "(\<Sum>i\<leftarrow>xs. logged (new_worker d gen i (conns ! i))) = {#}"
    "(\<Sum>i\<leftarrow>xs. taken (new_worker d gen i (conns ! i))) = {#}" for xs
    by (induction xs) (simp_all add: new_worker_def pend_def logged_def taken_def held_def)
  thus ?thesis
    by (auto simp: run_init_def acc_inv_def o_def wk_inv_def new_worker_def pc_ok_def option.map_id intro!: exI [of _ "{#}"])
qed

section \<open>What the accumulator holds\<close>

definition lateness :: "measured \<Rightarrow> duration" where
  "lateness m = time_sub (me_dispatch m) (me_intended m)"

definition service :: "measured \<Rightarrow> duration" where
  "service m = time_sub (me_done m) (me_dispatch m)"

definition rows :: "measured \<Rightarrow> int" where
  "rows m = (if r_Err (me_res m) \<noteq> None then 0 else max 1 (r_Rows (me_res m)))"

text \<open>The accumulator as a function of the measured operations, in any order: sums wrap at 64 bits.\<close>

definition acc_of :: "measured list \<Rightarrow> accumulator" where
  "acc_of ms = \<lparr>ac_total = i64 (int (length ms)), ac_errors = i64 (int (length (filter (\<lambda>m. r_Err (me_res m) \<noteq> None) ms))),
     ac_latenessSum = i64 (\<Sum>m\<leftarrow>ms. max 0 (lateness m)), ac_serviceSum = i64 (\<Sum>m\<leftarrow>ms. max 0 (service m)),
     ac_records = i64 (\<Sum>m\<leftarrow>ms. rows m),
     ac_minIntended = fold min (map (\<lambda>m. i64 (me_intended m)) ms) 9223372036854775807,
     ac_maxIntended = fold max (map (\<lambda>m. i64 (me_intended m)) ms) (- 9223372036854775808)\<rparr>"

lemma i64_0 [simp]: "i64 0 = 0"
  by (simp add: i64_def)

lemma apply_actions_snoc: "fold apply_action (acc_actions m) (acc_of ms) = acc_of (ms @ [m])"
  apply (cases "r_Err (me_res m)"; cases "service m > 0"; cases "lateness m < 0")
  apply (simp_all add: acc_actions_def Let_def acc_of_def lateness_def [symmetric] service_def [symmetric] rows_def i64_add_i64
      min.commute [of _ "i64 (me_intended m)"] max.commute [of _ "i64 (me_intended m)"] add.commute [of 1])
  done

lemma apply_actions_all: "fold apply_action (concat (map acc_actions ms)) acc0 = acc_of ms"
proof (induction ms rule: rev_induct)
  case Nil
  thus ?case
    by (simp add: acc0_def acc_of_def)
next
  case (snoc m ms)
  thus ?case
    by (simp add: apply_actions_snoc)
qed

lemma fold_mset_acc: "fold_mset apply_action a (mset xs) = fold apply_action xs a"
proof (induction xs arbitrary: a)
  case (Cons x xs)
  thus ?case
    using updates.fold_mset_fun_left_comm [of x a "mset xs"] by simp
qed simp

lemma logged_all: "(\<Sum>wk\<leftarrow>wks. logged wk) = mset (concat (map acc_actions (concat (map wk_log wks))))"
  by (induction wks) (simp_all add: logged_def)

lemma acc_exited:
  assumes "run_inv d warmupEnd (ce, sh, wks)" "\<forall>wk\<in>set wks. pend wk = {#}"
  shows "sh_acc sh = acc_of (concat (map wk_log wks))"
proof -
  have "(\<Sum>wk\<leftarrow>wks. pend wk) = {#}"
    using assms(2) by (induction wks) auto
  with assms(1) show ?thesis
    by (auto simp: acc_inv_def logged_all fold_mset_acc apply_actions_all simp del: mset_concat)
qed

section \<open>Termination after the context is done\<close>

text \<open>Statements left once the context is done, retries aside.\<close>

fun pc_rank :: "pc \<Rightarrow> nat" where
  "pc_rank AtCheck = 1"
| "pc_rank AtSched = 10"
| "pc_rank (AtSleep _) = 9"
| "pc_rank (AtTimer _) = 8"
| "pc_rank (AtGen _) = 7"
| "pc_rank (AtDispatch _ _) = 6"
| "pc_rank (AtExecute _ _ _) = 5"
| "pc_rank (AtReturn _ _ _ _) = 4"
| "pc_rank (AtObserve _ _ _ _ _) = 3"
| "pc_rank (AtUpdate ld acts) = 2 + length acts"
| "pc_rank Exited = 0"

fun retry_rank :: "accumulator \<Rightarrow> pc \<Rightarrow> nat" where
  "retry_rank acc (AtUpdate ld (AtomicMin v # acts)) = cas_rank ld (ac_minIntended acc)"
| "retry_rank acc (AtUpdate ld (AtomicMax v # acts)) = cas_rank ld (ac_maxIntended acc)"
| "retry_rank acc _ = 0"

lemma acc_step_retry:
  "acc_step ld a acc = (Some ld', acc') \<Longrightarrow>
   acc' = acc \<and> retry_rank acc (AtUpdate ld' (a # acts)) < retry_rank acc (AtUpdate ld (a # acts))"
  using amin.step_retry amax.step_retry by (cases a) (auto split: prod.splits)

lemma wstep_rank:
  assumes "wstep d dv nxt warmupEnd sh wk sh' wk'" "sh_err sh \<noteq> None"
  shows "pc_rank (wk_pc wk') < pc_rank (wk_pc wk) \<or>
    pc_rank (wk_pc wk') = pc_rank (wk_pc wk) \<and> sh_acc sh' = sh_acc sh \<and> retry_rank (sh_acc sh) (wk_pc wk') < retry_rank (sh_acc sh) (wk_pc wk)"
  using assms
proof (induction rule: wstep.induct)
  case (update wk ld a acts sh r acc')
  show ?case
  proof (cases r)
    case None
    with update(1) show ?thesis
      by (simp add: after_update_def)
  next
    case (Some ld')
    with update(1) acc_step_retry [of ld a "sh_acc sh" ld' acc' acts] update(2) show ?thesis
      by simp
  qed
qed auto

lemma wstep_exists:
  assumes "sh_err sh \<noteq> None" "wk_pc wk \<noteq> Exited" "pc_ok (sh_now sh) (wk_pc wk)"
  shows "\<exists>sh' wk'. wstep d dv nxt warmupEnd sh wk sh' wk'"
proof (cases "wk_pc wk")
  case (AtUpdate ld acts)
  then obtain a as where "acts = a # as"
    using assms(3) by (cases acts) (auto simp: pc_ok_def)
  with AtUpdate show ?thesis
    using wstep.update by (metis surj_pair)
next
  case AtSched
  thus ?thesis
    using wstep.sched by (metis surj_pair)
next
  case (AtGen i)
  thus ?thesis
    using wstep.gen by (metis surj_pair)
next
  case (AtExecute i op dsp)
  thus ?thesis
    using wstep.execute by (metis surj_pair)
qed (use assms wstep.intros in \<open>metis+\<close>)

text \<open>The steps of the workers alone.\<close>

definition worker_step :: "('c, 'w, 's, 'g, 'k, 'o) Deps \<Rightarrow> ('c, 'w) Driver \<Rightarrow> (instant \<Rightarrow> 's \<Rightarrow> instant \<times> 's) \<Rightarrow> instant \<Rightarrow>
    ('c, 'w, 's, 'g, 'k, 'o) run_state \<Rightarrow> ('c, 'w, 's, 'g, 'k, 'o) run_state \<Rightarrow> bool" where
  "worker_step d dv nxt warmupEnd s t \<longleftrightarrow> (\<exists>ce sh wks i sh' wk'. s = (ce, sh, wks) \<and> i < length wks \<and>
     wstep d dv nxt warmupEnd sh (wks ! i) sh' wk' \<and> t = (ce, sh', wks[i := wk']))"

lemma worker_step_rstep: "worker_step d dv nxt warmupEnd s t \<Longrightarrow> rstep d dv nxt warmupEnd measureEnd s t"
  by (auto simp: worker_step_def intro: rstep.work)

definition ctx_done :: "('c, 'w, 's, 'g, 'k, 'o) run_state \<Rightarrow> bool" where
  "ctx_done s \<longleftrightarrow> sh_err (fst (snd s)) \<noteq> None"

definition all_exited :: "('c, 'w, 's, 'g, 'k, 'o) run_state \<Rightarrow> bool" where
  "all_exited s \<longleftrightarrow> (\<forall>wk\<in>set (snd (snd s)). wk_pc wk = Exited)"

definition left_rank :: "('c, 'w, 's, 'g, 'k, 'o) run_state \<Rightarrow> nat" where
  "left_rank s = (\<Sum>wk\<leftarrow>snd (snd s). pc_rank (wk_pc wk))"

definition retries_rank :: "('c, 'w, 's, 'g, 'k, 'o) run_state \<Rightarrow> nat" where
  "retries_rank s = (\<Sum>wk\<leftarrow>snd (snd s). retry_rank (sh_acc (fst (snd s))) (wk_pc wk))"

lemma worker_step_rank:
  assumes "worker_step d dv nxt warmupEnd s t" "ctx_done s"
  shows "(t, s) \<in> measures [left_rank, retries_rank]"
proof -
  obtain ce sh wks i sh' wk' where s: "s = (ce, sh, wks)" "i < length wks" "wstep d dv nxt warmupEnd sh (wks ! i) sh' wk'"
      "t = (ce, sh', wks[i := wk'])"
    using assms(1) by (auto simp: worker_step_def)
  have l: "left_rank t + pc_rank (wk_pc (wks ! i)) = left_rank s + pc_rank (wk_pc wk')"
    using sum_list_map_update [OF s(2), of "\<lambda>wk. pc_rank (wk_pc wk)"] by (simp add: left_rank_def s)
  have "sh_acc sh' = sh_acc sh \<Longrightarrow> retries_rank t + retry_rank (sh_acc sh) (wk_pc (wks ! i)) = retries_rank s + retry_rank (sh_acc sh) (wk_pc wk')"
    using sum_list_map_update [OF s(2), of "\<lambda>wk. retry_rank (sh_acc sh) (wk_pc wk)"] by (simp add: retries_rank_def s)
  with l wstep_rank [OF s(3)] assms(2) show ?thesis
    by (auto simp: ctx_done_def s(1))
qed

lemma worker_step_done: "worker_step d dv nxt warmupEnd s t \<Longrightarrow> ctx_done s \<Longrightarrow> ctx_done t"
  using wstep_shared by (fastforce simp: worker_step_def ctx_done_def)

lemma worker_step_progress:
  assumes "run_inv d warmupEnd s" "ctx_done s" "\<not> all_exited s"
  shows "\<exists>t. worker_step d dv nxt warmupEnd s t"
proof -
  obtain ce sh wks where s: "s = (ce, sh, wks)"
    by (cases s)
  then obtain i where i: "i < length wks" "wk_pc (wks ! i) \<noteq> Exited"
    using assms(3) by (auto simp: all_exited_def in_set_conv_nth)
  hence "pc_ok (sh_now sh) (wk_pc (wks ! i))"
    using assms(1) by (auto simp: s wk_inv_def)
  then obtain sh' wk' where "wstep d dv nxt warmupEnd sh (wks ! i) sh' wk'"
    using wstep_exists i(2) assms(2) by (fastforce simp: ctx_done_def s)
  with i(1) show ?thesis
    unfolding worker_step_def s by blast
qed

lemma worker_steps_end:
  assumes "run_inv d warmupEnd s" "ctx_done s"
  shows "\<exists>t. (worker_step d dv nxt warmupEnd)\<^sup>*\<^sup>* s t \<and> all_exited t"
  using assms
proof (induction s rule: wf_induct [OF wf_measures [of "[left_rank, retries_rank]"]])
  case (1 s)
  show ?case
  proof (cases "all_exited s")
    case False
    then obtain t where t: "worker_step d dv nxt warmupEnd s t"
      using worker_step_progress 1(2,3) by blast
    hence "run_inv d warmupEnd t" "ctx_done t"
      using 1(2,3) run.inv_step worker_step_rstep worker_step_done by blast+
    with 1(1) t worker_step_rank [OF t 1(3)] show ?thesis
      by (meson converse_rtranclp_into_rtranclp)
  qed blast
qed

section \<open>Connections\<close>

text \<open>\<open>opn\<close> tells which connections are open in a world: \<open>Connect\<close> opens the one it returns, \<open>Close\<close>
  closes its own, and nothing else opens or closes any.\<close>

definition tracks :: "('c, 'w) Driver \<Rightarrow> ('w \<Rightarrow> 'c multiset) \<Rightarrow> bool" where
  "tracks dv opn \<longleftrightarrow>
     (\<forall>cfg w. opn (snd (dv_Connect dv cfg w)) = (case fst (dv_Connect dv cfg w) of Inl _ \<Rightarrow> opn w | Inr c \<Rightarrow> add_mset c (opn w))) \<and>
     (\<forall>wl c w. opn (snd (dv_Prepare dv wl c w)) = opn w) \<and> (\<forall>e op c w. opn (snd (dv_Execute dv e op c w)) = opn w) \<and>
     (\<forall>c w. opn (snd (dv_Close dv c w)) = opn w - {#c#})"

lemma tracksD:
  assumes "tracks dv opn"
  shows "dv_Connect dv cfg w = (rc, w1) \<Longrightarrow> opn w1 = (case rc of Inl _ \<Rightarrow> opn w | Inr c \<Rightarrow> add_mset c (opn w))"
    "dv_Prepare dv wl c w = (e, w2) \<Longrightarrow> opn w2 = opn w" "dv_Execute dv ce op c w = (res, w3) \<Longrightarrow> opn w3 = opn w"
  using assms unfolding tracks_def by (metis fst_conv snd_conv)+

lemma closeAll_closes: "tracks dv opn \<Longrightarrow> opn (closeAll dv cs w) = opn w - mset cs"
  by (induction dv cs w rule: closeAll.induct) (simp_all add: tracks_def)

lemma connect_loop_opens:
  assumes "tracks dv opn" "connect_loop dv cfg wl i n conns w = (r, w')" "opn w = B + mset conns"
  shows "case r of Inl _ \<Rightarrow> opn w' = B | Inr cs \<Rightarrow> opn w' = B + mset cs \<and> length cs = length conns + n"
  using assms(2,3)
proof (induction n arbitrary: i conns w)
  case (Suc n)
  obtain rc w1 where c: "dv_Connect dv cfg w = (rc, w1)"
    by (cases "dv_Connect dv cfg w")
  have w1: "opn w1 = (case rc of Inl _ \<Rightarrow> opn w | Inr c \<Rightarrow> add_mset c (opn w))"
    by (rule tracksD(1) [OF assms(1) c])
  show ?case
  proof (cases rc)
    case (Inl e)
    thus ?thesis
      using Suc.prems c w1 closeAll_closes [OF assms(1)] by auto
  next
    case (Inr cn)
    obtain e w2 where p: "dv_Prepare dv wl cn w1 = (e, w2)"
      by (cases "dv_Prepare dv wl cn w1")
    have w2: "opn w2 = opn w1"
      by (rule tracksD(2) [OF assms(1) p])
    show ?thesis
    proof (cases e)
      case None
      hence "connect_loop dv cfg wl (Suc i) n (conns @ [cn]) w2 = (r, w')"
        using Suc.prems(1) c Inr p by simp
      from Suc.IH [OF this] show ?thesis
        using Suc.prems(2) w1 w2 Inr by (simp split: sum.splits)
    next
      case (Some x)
      have "opn (snd (dv_Close dv cn w2)) = opn w2 - {#cn#}"
        using assms(1) by (simp add: tracks_def)
      thus ?thesis
        using Suc.prems c Inr p Some w1 w2 closeAll_closes [OF assms(1)] by (auto simp: Let_def)
    qed
  qed
qed (auto split: sum.splits)

lemma rstep_opn:
  assumes "rstep d dv nxt warmupEnd measureEnd s t" "tracks dv opn"
  shows "opn (sh_world (fst (snd t))) = opn (sh_world (fst (snd s)))"
proof -
  have "opn (sh_world sh') = opn (sh_world sh)" if "wstep d dv nxt warmupEnd sh wk sh' wk'" for sh sh' wk wk'
    using that by (induction rule: wstep.induct) (auto dest: tracksD(3) [OF assms(2)] simp: observe_def Let_def)
  with assms(1) show ?thesis
    by (induction rule: rstep.induct) auto
qed

lemma rsteps_opn:
  "(rstep d dv nxt warmupEnd measureEnd)\<^sup>*\<^sup>* s t \<Longrightarrow> tracks dv opn \<Longrightarrow> opn (sh_world (fst (snd t))) = opn (sh_world (fst (snd s)))"
  by (induction rule: rtranclp_induct) (simp_all add: rstep_opn)

section \<open>Executing a run\<close>

text \<open>One step of a worker as a function, where the step is determined; a worker waiting for its timer
  fires when the time has come.\<close>

definition wnext :: "('c, 'w, 's, 'g, 'k, 'o) Deps \<Rightarrow> ('c, 'w) Driver \<Rightarrow> (instant \<Rightarrow> 's \<Rightarrow> instant \<times> 's) \<Rightarrow> instant \<Rightarrow>
    ('w, 's) shared \<Rightarrow> ('c, 'g, 'k, 'o) worker \<Rightarrow> (('w, 's) shared \<times> ('c, 'g, 'k, 'o) worker) option" where
  "wnext d dv nxt warmupEnd sh wk =
     (case wk_pc wk of
        AtCheck \<Rightarrow> Some (sh, wk\<lparr>wk_pc := (if sh_err sh \<noteq> None then Exited else AtSched)\<rparr>)
      | AtSched \<Rightarrow> (let (i, s') = nxt (sh_now sh) (sh_sched sh)
                    in Some (sh\<lparr>sh_sched := s', sh_issued := sh_issued sh @ [i]\<rparr>, wk\<lparr>wk_pc := AtSleep i\<rparr>))
      | AtSleep i \<Rightarrow> Some (sh, wk\<lparr>wk_pc := (if time_sub i (sh_now sh) \<le> 0 then if sh_err sh \<noteq> None then Exited else AtGen i else AtTimer i)\<rparr>)
      | AtTimer i \<Rightarrow> if i \<le> sh_now sh then Some (sh, wk\<lparr>wk_pc := AtGen i\<rparr>)
                     else if sh_err sh \<noteq> None then Some (sh, wk\<lparr>wk_pc := Exited\<rparr>) else None
      | AtGen i \<Rightarrow> (let (op, g') = dp_GenNext d (wk_gen wk) in Some (sh, wk\<lparr>wk_gen := g', wk_pc := AtDispatch i op\<rparr>))
      | AtDispatch i op \<Rightarrow> Some (sh, wk\<lparr>wk_pc := AtExecute i op (sh_now sh)\<rparr>)
      | AtExecute i op dsp \<Rightarrow> (let (res, w') = dv_Execute dv (sh_err sh) op (wk_conn wk) (sh_world sh)
                               in Some (sh\<lparr>sh_world := w'\<rparr>, wk\<lparr>wk_pc := AtReturn i op dsp res\<rparr>))
      | AtReturn i op dsp res \<Rightarrow> Some (sh, wk\<lparr>wk_pc := AtObserve i op dsp res (sh_now sh)\<rparr>)
      | AtObserve i op dsp res fin \<Rightarrow>
          if sh_err sh \<noteq> None then Some (sh, wk\<lparr>wk_pc := Exited\<rparr>)
          else (let (wk', acts) = observe d warmupEnd \<lparr>me_op = op, me_res = res, me_intended = i, me_dispatch = dsp, me_done = fin\<rparr> wk
                in Some (sh, wk'\<lparr>wk_pc := after_update None acts\<rparr>))
      | AtUpdate ld acts \<Rightarrow>
          (case acts of
             [] \<Rightarrow> None
           | a # as \<Rightarrow> (let (r, acc') = acc_step ld a (sh_acc sh)
                        in Some (sh\<lparr>sh_acc := acc'\<rparr>,
                             wk\<lparr>wk_pc := (case r of None \<Rightarrow> after_update None as | Some ld' \<Rightarrow> AtUpdate ld' (a # as))\<rparr>)))
      | Exited \<Rightarrow> None)"

lemma wnext_sound: "wnext d dv nxt warmupEnd sh wk = Some (sh', wk') \<Longrightarrow> wstep d dv nxt warmupEnd sh wk sh' wk'"
proof (cases "wk_pc wk")
  case AtCheck
  thus "wnext d dv nxt warmupEnd sh wk = Some (sh', wk') \<Longrightarrow> wstep d dv nxt warmupEnd sh wk sh' wk'"
    using wstep.check [of wk d dv nxt warmupEnd sh] by (auto simp: wnext_def)
next
  case (AtSleep i)
  thus "wnext d dv nxt warmupEnd sh wk = Some (sh', wk') \<Longrightarrow> wstep d dv nxt warmupEnd sh wk sh' wk'"
    using wstep.sleep [of wk i d dv nxt warmupEnd sh] by (auto simp: wnext_def)
qed (auto simp: wnext_def Let_def intro: wstep.intros split: if_splits list.splits prod.splits)

text \<open>A schedule of a run: which worker moves, or how the environment does.\<close>

datatype event = Work nat | Tick instant | Deadline | Cancel err

fun rnext :: "('c, 'w, 's, 'g, 'k, 'o) Deps \<Rightarrow> ('c, 'w) Driver \<Rightarrow> (instant \<Rightarrow> 's \<Rightarrow> instant \<times> 's) \<Rightarrow> instant \<Rightarrow> instant \<Rightarrow> event \<Rightarrow>
    ('c, 'w, 's, 'g, 'k, 'o) run_state \<Rightarrow> ('c, 'w, 's, 'g, 'k, 'o) run_state option" where
  "rnext d dv nxt we me (Work i) (ce, sh, wks) =
     (if i < length wks then map_option (\<lambda>(sh', wk'). (ce, sh', wks[i := wk'])) (wnext d dv nxt we sh (wks ! i)) else None)"
| "rnext d dv nxt we me (Tick t) (ce, sh, wks) = (if sh_now sh \<le> t then Some (ce, sh\<lparr>sh_now := t\<rparr>, wks) else None)"
| "rnext d dv nxt we me Deadline (ce, sh, wks) =
     (if me \<le> sh_now sh \<and> sh_err sh = None then Some (ce, sh\<lparr>sh_err := Some DeadlineExceeded\<rparr>, wks) else None)"
| "rnext d dv nxt we me (Cancel e) (ce, sh, wks) =
     (if ce = None then Some (Some e, sh\<lparr>sh_err := (case sh_err sh of None \<Rightarrow> Some e | Some e' \<Rightarrow> Some e')\<rparr>, wks) else None)"

fun rnexts :: "('c, 'w, 's, 'g, 'k, 'o) Deps \<Rightarrow> ('c, 'w) Driver \<Rightarrow> (instant \<Rightarrow> 's \<Rightarrow> instant \<times> 's) \<Rightarrow> instant \<Rightarrow> instant \<Rightarrow> event list \<Rightarrow>
    ('c, 'w, 's, 'g, 'k, 'o) run_state \<Rightarrow> ('c, 'w, 's, 'g, 'k, 'o) run_state option" where
  "rnexts d dv nxt we me [] s = Some s"
| "rnexts d dv nxt we me (ev # evs) s = (case rnext d dv nxt we me ev s of None \<Rightarrow> None | Some t \<Rightarrow> rnexts d dv nxt we me evs t)"

lemma rnext_sound: "rnext d dv nxt we me ev s = Some t \<Longrightarrow> rstep d dv nxt we me s t"
  by (cases ev; cases s) (auto intro: rstep.intros wnext_sound split: if_splits)

lemma rnexts_sound: "rnexts d dv nxt we me evs s = Some t \<Longrightarrow> (rstep d dv nxt we me)\<^sup>*\<^sup>* s t"
  by (induction evs arbitrary: s) (auto split: option.splits dest: rnext_sound intro: converse_rtranclp_into_rtranclp)

section \<open>A small run\<close>

text \<open>One connection, arrivals every 10ns, and a sink and an observer that keep what they are given.\<close>

definition demo_driver :: "(nat, nat list) Driver" where
  "demo_driver = \<lparr>dv_Connect = (\<lambda>_ w. (Inr (length w), length w # w)), dv_Prepare = (\<lambda>_ _ w. (None, w)),
     dv_Execute = (\<lambda>_ op _ w. (\<lparr>r_Type = op_Type op, r_Rows = 1, r_Observed = ANil, r_Err = None\<rparr>, w)),
     dv_Close = (\<lambda>c w. (None, remove1 c w))\<rparr>"

definition demo_op :: Operation where
  "demo_op = \<lparr>op_Type = ''read'', op_Key = 1, op_Value = [], op_Seq = 0, op_Args = Map.empty\<rparr>"

definition demo_next :: "instant \<Rightarrow> int \<Rightarrow> instant \<times> int" where
  "demo_next now k = (10 * k, k + 1)"

definition demo_deps :: "Config \<Rightarrow> Workload \<Rightarrow>
    (nat, nat list, int, unit, (OpType \<times> duration \<times> bool) list, (Operation \<times> instant \<times> instant) list) Deps" where
  "demo_deps cfg wl = \<lparr>dp_Driver = Some demo_driver, dp_Cfg = cfg, dp_Workload = wl, dp_Sched = Some (0, demo_next),
     dp_Gen = Some (\<lambda>_. ()), dp_GenNext = (\<lambda>g. (demo_op, g)), dp_Sink = Some (\<lambda>_. Some []),
     dp_Record = (\<lambda>t l e k. k @ [(t, l, e)]), dp_Observer = Some (\<lambda>_. Some []),
     dp_Observe = (\<lambda>op _ inv cmp k. k @ [(op, inv, cmp)])\<rparr>"

definition demo_events :: "event list" where
  "demo_events = replicate 4 (Work 0) @ [Tick 3] @ replicate 2 (Work 0) @ [Tick 7] @ replicate 10 (Work 0) @ [Tick 100, Deadline]
     @ replicate 1 (Work 0)"

definition demo_measured :: measured where
  "demo_measured = \<lparr>me_op = demo_op, me_res = \<lparr>r_Type = ''read'', r_Rows = 1, r_Observed = ANil, r_Err = None\<rparr>, me_intended = 0,
     me_dispatch = 3, me_done = 7\<rparr>"

lemma demo_tracks: "tracks demo_driver mset"
  by (simp add: tracks_def demo_driver_def)

lemma one_op_run:
  "(rstep (demo_deps cfg wl) demo_driver demo_next 0 100)\<^sup>*\<^sup>* (run_init (demo_deps cfg wl) (\<lambda>_. ()) 0 None 0 [0] [0])
     (None, \<lparr>sh_now = 100, sh_err = Some DeadlineExceeded, sh_sched = 1, sh_issued = [0],
             sh_acc = \<lparr>ac_total = 1, ac_errors = 0, ac_latenessSum = i64 3, ac_serviceSum = i64 4, ac_records = 1,
                       ac_minIntended = 0, ac_maxIntended = 0\<rparr>, sh_world = [0]\<rparr>,
      [\<lparr>wk_conn = 0, wk_gen = (), wk_sink = Some [(''read'', 7, False)], wk_obs = Some [(demo_op, 3, 7)], wk_pc = Exited,
        wk_log = [demo_measured]\<rparr>])"
  by (rule rnexts_sound [of _ _ _ _ _ demo_events])
    (simp add: demo_events_def demo_deps_def demo_driver_def demo_next_def run_init_def new_worker_def measureSink_def
      measureObserver_def numeral_eq_Suc wnext_def time_sub_def demo_op_def demo_measured_def observe_def after_update_def
      acc_actions_def atomicMin_def atomicMax_def acc0_def)

section \<open>Properties\<close>

lemma all_logged: "(\<Sum>wk\<leftarrow>wks. mset (f (wk_log wk))) = mset (concat (map (\<lambda>wk. f (wk_log wk)) wks))"
  by (induction wks) simp_all

lemma run_invD:
  assumes "(rstep d dv nxt warmupEnd measureEnd)\<^sup>*\<^sup>* (run_init d gen s0 ce0 base conns w) s"
  shows "run_inv d warmupEnd s"
  using run.inv_reachable [OF assms run_init_inv] .

text \<open>C22: the run loses and invents nothing. However the workers interleave, once they have exited the
  accumulator is the sum over the measured operations; each sink and observer was called once for
  every measured operation of its connection, in order, with the latency from the intended start; every
  measured operation was dispatched after the warm-up and not before its intended start; and no arrival of
  the scheduler was used twice.\<close>

theorem run_accounting:
  assumes "(rstep d dv nxt warmupEnd measureEnd)\<^sup>*\<^sup>* (run_init d gen s0 ce0 base conns w) (ce, sh, wks)"
    "\<forall>wk\<in>set wks. wk_pc wk = Exited"
  shows "sh_acc sh = acc_of (concat (map wk_log wks)) \<and>
    (\<forall>i<length wks.
       wk_sink (wks ! i) = map_option (fold (record_measured d) (wk_log (wks ! i))) (measureSink d i) \<and>
       wk_obs (wks ! i) = map_option (fold (observe_measured d) (wk_log (wks ! i))) (measureObserver d i)) \<and>
    (\<forall>m\<in>set (concat (map wk_log wks)). me_intended m \<le> me_dispatch m \<and> me_dispatch m \<le> me_done m \<and> warmupEnd \<le> me_dispatch m) \<and>
    mset (map me_intended (concat (map wk_log wks))) \<subseteq># mset (sh_issued sh)"
proof -
  note inv = run_invD [OF assms(1)]
  have "(\<Sum>wk\<leftarrow>wks. taken wk) = (\<Sum>wk\<leftarrow>wks. mset (map me_intended (wk_log wk)))"
    using assms(2) by (intro arg_cong [where f = sum_list] map_cong) (auto simp: taken_def held_def)
  hence "(\<Sum>wk\<leftarrow>wks. taken wk) = mset (map me_intended (concat (map wk_log wks)))"
    unfolding all_logged by (simp add: map_concat o_def del: mset_map mset_concat)
  moreover have "measured_ok warmupEnd (sh_now sh) m" if "m \<in> set (concat (map wk_log wks))" for m
    using that inv by (auto simp: wk_inv_def in_set_conv_nth [of _ wks])
  moreover have "\<forall>wk\<in>set wks. pend wk = {#}"
    using assms(2) by (simp add: pend_def)
  ultimately show ?thesis
    using inv acc_exited [OF inv] by (auto simp: wk_inv_def measured_ok_def)
qed

theorem run_accounting_witness:
  "\<forall>cfg wl. \<exists>sh wks. (rstep (demo_deps cfg wl) demo_driver demo_next 0 100)\<^sup>*\<^sup>*
       (run_init (demo_deps cfg wl) (\<lambda>_. ()) 0 None 0 [0] [0]) (None, sh, wks) \<and>
     sh_acc sh = acc_of [demo_measured] \<and> wk_sink (wks ! 0) = Some [(''read'', 7, False)]"
proof (intro allI)
  fix cfg wl
  show "\<exists>sh wks. (rstep (demo_deps cfg wl) demo_driver demo_next 0 100)\<^sup>*\<^sup>*
       (run_init (demo_deps cfg wl) (\<lambda>_. ()) 0 None 0 [0] [0]) (None, sh, wks) \<and>
     sh_acc sh = acc_of [demo_measured] \<and> wk_sink (wks ! 0) = Some [(''read'', 7, False)]"
    using run_accounting [OF one_op_run] one_op_run [of cfg wl] by (intro exI) auto
qed

text \<open>C23: the run ends. Once the run context is done, by the deadline or by cancellation, the workers
  cannot go on forever, retries of the compare-and-swap loops included; and while one has not exited, some
  worker can move, so all exit.\<close>

theorem run_terminates:
  "wf {(t, s). ctx_done s \<and> worker_step d dv nxt warmupEnd s t} \<and>
   ((rstep d dv nxt warmupEnd measureEnd)\<^sup>*\<^sup>* (run_init d gen s0 ce0 base conns w) s \<and> ctx_done s \<longrightarrow>
      (all_exited s \<or> (\<exists>t. worker_step d dv nxt warmupEnd s t)) \<and>
      (\<exists>t. (worker_step d dv nxt warmupEnd)\<^sup>*\<^sup>* s t \<and> all_exited t))"
proof -
  have "{(t, s). ctx_done s \<and> worker_step d dv nxt warmupEnd s t} \<subseteq> measures [left_rank, retries_rank]"
    using worker_step_rank by (auto simp del: in_measures)
  hence "wf {(t, s). ctx_done s \<and> worker_step d dv nxt warmupEnd s t}"
    by (rule wf_subset [OF wf_measures])
  moreover have "(all_exited s \<or> (\<exists>t. worker_step d dv nxt warmupEnd s t)) \<and>
      (\<exists>t. (worker_step d dv nxt warmupEnd)\<^sup>*\<^sup>* s t \<and> all_exited t)"
    if "(rstep d dv nxt warmupEnd measureEnd)\<^sup>*\<^sup>* (run_init d gen s0 ce0 base conns w) s" "ctx_done s"
    using run_invD [OF that(1)] that(2) worker_step_progress worker_steps_end by blast
  ultimately show ?thesis
    by blast
qed

theorem run_terminates_witness:
  "\<forall>cfg wl. \<exists>t. (worker_step (demo_deps cfg wl) demo_driver demo_next 0)\<^sup>*\<^sup>*
     (run_init (demo_deps cfg wl) (\<lambda>_. ()) 0 (Some ''context canceled'') 0 [0] [0]) t \<and> all_exited t"
proof (intro allI)
  fix cfg wl
  let ?s = "run_init (demo_deps cfg wl) (\<lambda>_. ()) 0 (Some ''context canceled'') 0 [0] [0]"
  have "ctx_done ?s"
    by (simp add: ctx_done_def run_init_def)
  with run_terminates [of "demo_deps cfg wl" demo_driver demo_next 0 100 "\<lambda>_. ()" 0 "Some ''context canceled''" 0 "[0]" "[0]" ?s]
  show "\<exists>t. (worker_step (demo_deps cfg wl) demo_driver demo_next 0)\<^sup>*\<^sup>* ?s t \<and> all_exited t"
    by blast
qed

text \<open>C24: connections do not leak. Whether the options are refused, a connection or its preparation
  fails, or the run ends, exactly the connections that were open before \<open>Run\<close> are open after it.\<close>

theorem Run_closes_connections:
  assumes "tracks dv opn" "dp_Driver d = Some dv" "runner_Run d o1 w r w'"
  shows "opn w' = opn w"
  using assms(3,2)
proof (induction rule: runner_Run.induct)
  case (unconnected dv' w e w')
  thus ?case
    using connect_loop_opens [OF assms(1), of "dp_Cfg d" "dp_Workload d" 0 "nat (ro_Connections o1)" "[]" w "Inl e" w' "opn w"]
    by (auto simp: connectAll_def)
next
  case (finished dv' s0 nxt gen w conns w1 warmupEnd base ce0 ce sh wks)
  have dv: "dv' = dv"
    using finished by simp
  hence "opn w1 = opn w + mset conns"
    using finished connect_loop_opens [OF assms(1), of "dp_Cfg d" "dp_Workload d" 0 "nat (ro_Connections o1)" "[]" w "Inr conns" w1 "opn w"]
    by (auto simp: connectAll_def)
  moreover have "opn (sh_world sh) = opn w1"
    using rsteps_opn [of d dv nxt warmupEnd _ _ _ opn] finished(7) dv assms(1) by (fastforce simp: run_init_def)
  ultimately show ?case
    using closeAll_closes [OF assms(1)] dv by simp
qed simp

theorem Run_closes_connections_witness:
  "\<forall>cfg wl. \<exists>r w'. runner_Run (demo_deps cfg wl) \<lparr>ro_Connections = 1, ro_Warmup = 0, ro_Duration = 100, ro_LatenessThreshold = 0\<rparr> [] r w' \<and> w' = []"
proof (intro allI)
  fix cfg wl
  let ?o = "\<lparr>ro_Connections = 1, ro_Warmup = 0, ro_Duration = 100, ro_LatenessThreshold = 0\<rparr>" and ?d = "demo_deps cfg wl"
  have d: "dp_Driver ?d = Some demo_driver" "dp_Sched ?d = Some (0, demo_next)" "dp_Gen ?d = Some (\<lambda>_. ())"
    by (simp_all add: demo_deps_def)
  have "validate ?d ?o = None"
    by (simp add: validate_def d)
  moreover have "connectAll demo_driver (dp_Cfg ?d) (dp_Workload ?d) (ro_Connections ?o) [] = (Inr [0], [0])"
    by (simp add: connectAll_def demo_driver_def)
  ultimately obtain r w' where r: "runner_Run ?d ?o [] r w'"
    using runner_Run.finished [OF _ d, of ?o "[]" "[0]" "[0]" 0 0 None] one_op_run [of cfg wl] by fastforce
  with Run_closes_connections [OF demo_tracks d(1) r] show "\<exists>r w'. runner_Run ?d ?o [] r w' \<and> w' = []"
    by (cases r) auto
qed

lemma fold_min_Min:
  assumes "xs \<noteq> []" "\<forall>x\<in>set xs. x \<le> c"
  shows "fold min xs c = Min (set xs)"
proof -
  have "fold min xs c = Min (insert c (set xs))"
    using Min.set_eq_fold [of c xs] by simp
  also have "\<dots> = Min (set xs)"
    using assms by (simp add: min_absorb2 Min_le_iff)
  finally show ?thesis .
qed

lemma fold_max_Max:
  assumes "xs \<noteq> []" "\<forall>x\<in>set xs. c \<le> x"
  shows "fold max xs c = Max (set xs)"
proof -
  have "fold max xs c = Max (insert c (set xs))"
    using Max.set_eq_fold [of c xs] by simp
  also have "\<dots> = Max (set xs)"
    using assms by (simp add: max_def Max_ge_iff)
  finally show ?thesis .
qed

lemma measured_nonneg:
  assumes "measured_ok we now m"
  shows "0 \<le> lateness m" "0 \<le> service m"
  using assms by (auto simp: measured_ok_def lateness_def service_def time_sub_def)

lemma acc_of_span:
  assumes "ms \<noteq> []" "\<forall>m\<in>set ms. in64 (me_intended m)"
  shows "ac_minIntended (acc_of ms) = Min (me_intended ` set ms)" "ac_maxIntended (acc_of ms) = Max (me_intended ` set ms)"
proof -
  have e: "map (\<lambda>m. i64 (me_intended m)) ms = map me_intended ms"
    using assms(2) by simp
  show "ac_minIntended (acc_of ms) = Min (me_intended ` set ms)"
    unfolding acc_of_def accumulator.simps e using assms by (subst fold_min_Min) (auto simp: in64_def)
  show "ac_maxIntended (acc_of ms) = Max (me_intended ` set ms)"
    unfolding acc_of_def accumulator.simps e using assms by (subst fold_max_Max) (auto simp: in64_def)
qed

lemma sum_max0: "\<forall>m\<in>set ms. 0 \<le> f m \<Longrightarrow> (\<Sum>m\<leftarrow>ms. max 0 (f m)) = (\<Sum>m\<leftarrow>ms. (f m :: int))"
  by (intro arg_cong [where f = sum_list] map_cong) auto


text \<open>The mean gap between the intended starts.\<close>

definition mean_gap :: "measured list \<Rightarrow> duration" where
  "mean_gap ms = (if length ms < 2 then 0 else (Max (me_intended ` set ms) - Min (me_intended ` set ms)) div (int (length ms) - 1))"

lemma meanInterArrival_gap:
  assumes "ms \<noteq> []" "\<forall>m\<in>set ms. in64 (me_intended m)" "in64 (Max (me_intended ` set ms) - Min (me_intended ` set ms))"
  shows "meanInterArrival (acc_of ms) (int (length ms)) = mean_gap ms"
proof -
  define lo hi where "lo = Min (me_intended ` set ms)" and "hi = Max (me_intended ` set ms)"
  have "lo \<le> hi"
    using assms(1) by (simp add: lo_def hi_def)
  thus ?thesis
    using assms(3) unfolding meanInterArrival_def mean_gap_def acc_of_span [OF assms(1,2)] lo_def [symmetric] hi_def [symmetric]
    by (auto simp: Let_def sdiv_nonneg)
qed



end
