(* ===== verification/Go_Time.thy ===== *)
theory Go_Time
  imports Prelude
begin

text \<open>
  \<open>time.ParseDuration\<close> of Go's standard library, as the configuration and the fault schedules use it:
  a sign, then numbers with an optional fraction, each followed by a unit. Integers are \<open>uint64\<close>; the
  fraction is computed in rationals where the library uses \<open>float64\<close>.
\<close>

fun leadingInt :: "nat \<Rightarrow> string \<Rightarrow> (nat \<times> string) option" where
  "leadingInt x [] = Some (x, [])"
| "leadingInt x (c # cs) =
     (case digit_val c of
        None \<Rightarrow> Some (x, c # cs)
      | Some k \<Rightarrow> if x > 9223372036854775808 div 10 then None
                  else if x * 10 + k > 9223372036854775808 then None else leadingInt (x * 10 + k) cs)"

fun leadingFraction :: "bool \<Rightarrow> nat \<Rightarrow> nat \<Rightarrow> string \<Rightarrow> nat \<times> nat \<times> string" where
  "leadingFraction over x scale [] = (x, scale, [])"
| "leadingFraction over x scale (c # cs) =
     (case digit_val c of
        None \<Rightarrow> (x, scale, c # cs)
      | Some k \<Rightarrow> if over then leadingFraction True x scale cs
                  else if x > 9223372036854775807 div 10 then leadingFraction True x scale cs
                  else if x * 10 + k > 9223372036854775808 then leadingFraction True x scale cs
                  else leadingFraction False (x * 10 + k) (scale * 10) cs)"

definition unitMap :: "string \<Rightarrow> nat option" where
  "unitMap = map_of [(''ns'', 1), (''us'', 1000), ([CHR 0xC2, CHR 0xB5, CHR ''s''], 1000), ([CHR 0xCE, CHR 0xBC, CHR ''s''], 1000),
     (''ms'', 1000000), (''s'', 1000000000), (''m'', 60000000000), (''h'', 3600000000000)]"

definition time_quote :: "string \<Rightarrow> string" where
  "time_quote s = CHR 0x22 # concat (map (\<lambda>c. let n = of_char c :: nat in
       if n \<ge> 128 \<or> n < 32 then [CHR 0x5C, CHR ''x'', hex_digit (n div 16), hex_digit (n mod 16)]
       else if c = CHR 0x22 \<or> c = CHR 0x5C then [CHR 0x5C, c] else [c]) s) @ [CHR 0x22]"

definition parse_fraction :: "string \<Rightarrow> nat \<times> nat \<times> string \<times> bool" where
  "parse_fraction s =
     (if s \<noteq> [] \<and> hd s = CHR ''.''
      then let (f, scale, s') = leadingFraction False 0 1 (tl s) in (f, scale, s', length (tl s) \<noteq> length s')
      else (0, 1, s, False))"

text \<open>One number with its unit, in nanoseconds, and the rest of the input.\<close>

definition parse_term :: "string \<Rightarrow> string \<Rightarrow> string + nat \<times> string" where
  "parse_term orig s =
     (let bad = Inl (''time: invalid duration '' @ time_quote orig) in
      if s = [] \<or> \<not> (hd s = CHR ''.'' \<or> digit_val (hd s) \<noteq> None) then bad
      else case leadingInt 0 s of
        None \<Rightarrow> bad
      | Some (v, s1) \<Rightarrow>
          (let (f, scale, s2, post) = parse_fraction s1;
               u = takeWhile (\<lambda>c. \<not> (c = CHR ''.'' \<or> digit_val c \<noteq> None)) s2
           in if length s = length s1 \<and> \<not> post then bad
              else if u = [] then Inl (''time: missing unit in duration '' @ time_quote orig)
              else case unitMap u of
                None \<Rightarrow> Inl (''time: unknown unit '' @ time_quote u @ '' in duration '' @ time_quote orig)
              | Some un \<Rightarrow>
                  if v > 9223372036854775808 div un then bad
                  else let w = v * un + nat (rat_trunc (of_nat f * (of_nat un / of_nat scale)))
                       in if f > 0 \<and> w > 9223372036854775808 then bad else Inr (w, drop (length u) s2)))"

lemma leadingInt_shorter: "leadingInt x s = Some (v, s') \<Longrightarrow> length s' \<le> length s"
  by (induction x s rule: leadingInt.induct) (auto split: option.splits if_splits)

lemma leadingFraction_shorter: "leadingFraction b x sc s = (f, sc', s') \<Longrightarrow> length s' \<le> length s"
  by (induction b x sc s rule: leadingFraction.induct) (auto split: option.splits if_splits)

lemma parse_term_shorter:
  assumes "parse_term orig s = Inr (v, s')"
  shows "length s' < length s"
proof -
  have "leadingInt 0 s \<noteq> None"
    using assms unfolding parse_term_def Let_def by (cases "leadingInt 0 s") (simp_all split: if_splits)
  then obtain x s1 where l: "leadingInt 0 s = Some (x, s1)"
    by auto
  obtain f scale s2 post where e: "parse_fraction s1 = (f, scale, s2, post)"
    by (cases "parse_fraction s1")
  have "length s2 \<le> length (tl s1) \<or> s2 = s1"
    using e leadingFraction_shorter [of False 0 1 "tl s1"] by (auto simp: parse_fraction_def Let_def split: if_splits prod.splits)
  hence s2: "length s2 \<le> length s1"
    by auto
  let ?u = "takeWhile (\<lambda>c. \<not> (c = CHR ''.'' \<or> digit_val c \<noteq> None)) s2"
  have u: "?u \<noteq> []" "s' = drop (length ?u) s2"
    using assms unfolding parse_term_def Let_def l option.case prod.case e
    by (simp_all del: takeWhile_eq_Nil_iff split: if_splits option.splits)
  hence "length s' < length s2"
    using length_takeWhile_le [of "\<lambda>c. \<not> (c = CHR ''.'' \<or> digit_val c \<noteq> None)" s2] by (cases s2) auto
  with s2 leadingInt_shorter [OF l] show ?thesis
    by simp
qed

function parse_terms :: "string \<Rightarrow> nat \<Rightarrow> string \<Rightarrow> string + nat" where
  "parse_terms orig d s =
     (if s = [] then Inr d
      else case parse_term orig s of
        Inl e \<Rightarrow> Inl e
      | Inr (v, s') \<Rightarrow>
          (let d' = (d + v) mod 18446744073709551616
           in if d' > 9223372036854775808 then Inl (''time: invalid duration '' @ time_quote orig) else parse_terms orig d' s'))"
  by pat_completeness auto
termination
  by (relation "measure (\<lambda>(orig, d, s). length s)") (auto dest: parse_term_shorter)

declare parse_terms.simps [simp del]

definition ParseDuration :: "string \<Rightarrow> string + duration" where
  "ParseDuration s0 =
     (let bad = Inl (''time: invalid duration '' @ time_quote s0);
          (neg, s) = (if s0 \<noteq> [] \<and> (hd s0 = CHR ''-'' \<or> hd s0 = CHR ''+'') then (hd s0 = CHR ''-'', tl s0) else (False, s0))
      in if s = ''0'' then Inr 0
         else if s = [] then bad
         else case parse_terms s0 0 s of
           Inl e \<Rightarrow> Inl e
         | Inr d \<Rightarrow> if neg then Inr (- int d) else if d > 9223372036854775807 then bad else Inr (int d))"

lemma parse_terms_bound: "parse_terms orig d s = Inr r \<Longrightarrow> d \<le> 9223372036854775808 \<Longrightarrow> r \<le> 9223372036854775808"
proof (induction orig d s rule: parse_terms.induct)
  case (1 orig d s)
  from 1(2,3) 1(1) show ?case
    unfolding parse_terms.simps [of orig d s] by (auto simp: Let_def not_less split: if_splits sum.splits prod.splits)
qed

lemma ParseDuration_in64: "ParseDuration s = Inr d \<Longrightarrow> in64 d"
  using parse_terms_bound [of s 0]
  by (auto simp: ParseDuration_def Let_def in64_def split: prod.splits if_splits sum.splits)

end
