(* ===== verification/Config.thy ===== *)
theory Config
  imports Domain Go_Time
begin

text \<open>
  \<open>core/config\<close>: the two YAML schemas, their validation, and the resolution of a run's settings across
  the layers. The koanf library is a parameter: \<open>yl_Read\<close> reads and parses a file, \<open>yl_Target\<close>,
  \<open>yl_Workload\<close> and \<open>yl_Flat\<close> unmarshal a document, and \<open>kf_Int\<close> and its siblings are the typed getters.
  A koanf instance is its flat map from keys to values; \<open>Load\<close> and \<open>Set\<close> replace the values of the keys they
  carry, as the library documents. The environment is the list of its variables.
\<close>

section \<open>Definitions\<close>

text \<open>\<open>target.yaml\<close>\<close>

record Defaults =
  df_Connections :: int
  df_Warmup :: duration
  df_Duration :: duration

record ClusterConfig =
  cc_Backend :: string
  cc_Nodes :: int
  cc_ReplicationFactor :: int
  cc_Consistency :: "string list"

record Capabilities =
  cp_VerifyModels :: "string list"
  cp_Faults :: "string list"

record TargetConfig =
  tg_Target :: string
  tg_Image :: string
  tg_Version :: string
  tg_Defaults :: Defaults
  tg_Cluster :: ClusterConfig
  tg_Capabilities :: Capabilities

record targetFile =
  tf_Target :: string
  tf_Image :: string
  tf_Version :: string
  tf_Connections :: int
  tf_Warmup :: string
  tf_Duration :: string
  tf_Backend :: string
  tf_Nodes :: int
  tf_ReplicationFactor :: int
  tf_Consistency :: "string list"
  tf_VerifyModels :: "string list"
  tf_Faults :: "string list"

definition parseDuration :: "string \<Rightarrow> string \<Rightarrow> err + duration" where
  "parseDuration s field =
     (if s = [] then Inr 0
      else case ParseDuration s of
        Inl e \<Rightarrow> Inl (''invalid '' @ field @ '' '' @ fmt_q s @ '': '' @ e)
      | Inr d \<Rightarrow> Inr d)"

definition mapTarget :: "targetFile \<Rightarrow> err + TargetConfig" where
  "mapTarget tf =
     (case parseDuration (tf_Warmup tf) ''warmup'' of
        Inl e \<Rightarrow> Inl e
      | Inr warmup \<Rightarrow>
          (case parseDuration (tf_Duration tf) ''duration'' of
             Inl e \<Rightarrow> Inl e
           | Inr dur \<Rightarrow> Inr \<lparr>tg_Target = tf_Target tf, tg_Image = tf_Image tf, tg_Version = tf_Version tf,
               tg_Defaults = \<lparr>df_Connections = tf_Connections tf, df_Warmup = warmup, df_Duration = dur\<rparr>,
               tg_Cluster = \<lparr>cc_Backend = tf_Backend tf, cc_Nodes = tf_Nodes tf, cc_ReplicationFactor = tf_ReplicationFactor tf,
                 cc_Consistency = tf_Consistency tf\<rparr>,
               tg_Capabilities = \<lparr>cp_VerifyModels = tf_VerifyModels tf, cp_Faults = tf_Faults tf\<rparr>\<rparr>))"

text \<open>\<open>workload.yaml\<close>\<close>

record workloadFile =
  wf_Name :: string
  wf_Mode :: string
  wf_KeySpace :: int
  wf_KeyDist :: string
  wf_ValueSize :: int
  wf_VerifyModel :: string
  wf_Operations :: "(string \<times> int) list"
  wf_Params :: params

definition validModes :: "string \<Rightarrow> RunMode option" where
  "validModes = map_of (map (\<lambda>x. (x, x)) [ModePerformance, ModeCorrectness])"

definition validDists :: "string \<Rightarrow> KeyDistribution option" where
  "validDists = map_of (map (\<lambda>x. (x, x)) [DistUniform, DistZipfian, DistLatest, DistSequential])"

definition validModels :: "string \<Rightarrow> VerifyModel option" where
  "validModels = map_of (map (\<lambda>x. (x, x)) [VerifyNone, VerifyReconciliation, VerifyRegister, VerifyListAppend, VerifyKafkaLog])"

definition mapWorkload :: "workloadFile \<Rightarrow> err + Workload" where
  "mapWorkload f =
     (case validModes (wf_Mode f) of
        None \<Rightarrow> Inl (''invalid mode '' @ fmt_q (wf_Mode f))
      | Some mode \<Rightarrow>
          (case validDists (wf_KeyDist f) of
             None \<Rightarrow> Inl (''invalid key_dist '' @ fmt_q (wf_KeyDist f))
           | Some kdist \<Rightarrow>
               (case validModels (wf_VerifyModel f) of
                  None \<Rightarrow> Inl (''invalid verify_model '' @ fmt_q (wf_VerifyModel f))
                | Some model \<Rightarrow> Inr \<lparr>w_Name = wf_Name f, w_Mode = mode,
                    w_Operations = map (\<lambda>(t, n). \<lparr>os_Type = t, os_Weight = n\<rparr>) (wf_Operations f), w_KeySpace = wf_KeySpace f,
                    w_KeyDist = kdist, w_ValueSize = wf_ValueSize f, w_VerifyModel = model, w_Params = wf_Params f\<rparr>)))"

text \<open>Files\<close>

record 'd yaml_lib =
  yl_Read :: "string \<Rightarrow> err + 'd"
  yl_Target :: "'d \<Rightarrow> err + targetFile"
  yl_Workload :: "'d \<Rightarrow> err + workloadFile"
  yl_Flat :: "'d \<Rightarrow> params"
  kf_Int :: "any option \<Rightarrow> int"
  kf_Duration :: "any option \<Rightarrow> duration"
  kf_String :: "any option \<Rightarrow> string"
  kf_Strings :: "any option \<Rightarrow> string list"

definition loadYAML :: "'d yaml_lib \<Rightarrow> ('d \<Rightarrow> err + 'a) \<Rightarrow> string \<Rightarrow> err + 'a" where
  "loadYAML yl unmarshal path =
     (case yl_Read yl path of
        Inl e \<Rightarrow> Inl (''read '' @ path @ '': '' @ e)
      | Inr doc \<Rightarrow> (case unmarshal doc of Inl e \<Rightarrow> Inl (''parse '' @ path @ '': '' @ e) | Inr x \<Rightarrow> Inr x))"

definition LoadTarget :: "'d yaml_lib \<Rightarrow> string \<Rightarrow> err + TargetConfig" where
  "LoadTarget yl path = (case loadYAML yl (yl_Target yl) path of Inl e \<Rightarrow> Inl e | Inr tf \<Rightarrow> mapTarget tf)"

definition LoadWorkload :: "'d yaml_lib \<Rightarrow> string \<Rightarrow> err + Workload" where
  "LoadWorkload yl path = (case loadYAML yl (yl_Workload yl) path of Inl e \<Rightarrow> Inl e | Inr f \<Rightarrow> mapWorkload f)"

text \<open>Resolution\<close>

record ResolveOptions =
  rv_GlobalPath :: string
  rv_TargetPath :: string
  rv_WorkloadPath :: string
  rv_Endpoints :: "string list"
  rv_Consistency :: string
  rv_Overrides :: params

record Resolved =
  re_Workload :: Workload
  re_Topology :: Topology
  re_Driver :: Config
  re_Manifest :: Manifest

record settings =
  se_Connections :: int
  se_Duration :: duration
  se_Warmup :: duration
  se_Consistency :: string
  se_Endpoints :: "string list"
  se_Rate :: RateSpec

definition envPrefix :: string where
  "envPrefix = ''PROOFLOAD_''"

definition env_transform :: "string \<Rightarrow> string \<Rightarrow> string \<times> any" where
  "env_transform key v =
     (let name = to_lower (drop (length envPrefix) key)
      in if name = ''endpoints'' then (name, AStrs (split_on CHR '','' v)) else (name, AStr v))"

definition envProvider :: "(string \<times> string) list \<Rightarrow> params" where
  "envProvider environ =
     fold (\<lambda>(k, v) m. m(fst (env_transform k v) \<mapsto> snd (env_transform k v)))
       (filter (\<lambda>(k, v). take (length envPrefix) k = envPrefix) environ) Map.empty"

definition readSettings :: "'d yaml_lib \<Rightarrow> params \<Rightarrow> settings" where
  "readSettings yl k =
     (let ops = kf_Int yl (k ''ops_per_sec'')
      in \<lparr>se_Connections = kf_Int yl (k ''connections''), se_Duration = kf_Duration yl (k ''duration''),
          se_Warmup = kf_Duration yl (k ''warmup''), se_Consistency = kf_String yl (k ''consistency''),
          se_Endpoints = kf_Strings yl (k ''endpoints''),
          se_Rate = (if ops > 0 then \<lparr>rs_Mode = RateFixed, rs_OpsPerSec = ops\<rparr> else \<lparr>rs_Mode = '''', rs_OpsPerSec = 0\<rparr>)\<rparr>)"

text \<open>The map after all layers are loaded. An empty \<open>Overrides\<close> changes nothing, so its guard is not repeated.\<close>

definition target_layer :: "TargetConfig \<Rightarrow> params" where
  "target_layer t = [''connections'' \<mapsto> AInt (df_Connections (tg_Defaults t)), ''duration'' \<mapsto> ADur (df_Duration (tg_Defaults t)),
     ''warmup'' \<mapsto> ADur (df_Warmup (tg_Defaults t))]"

definition load_layers :: "(string \<times> string) list \<Rightarrow> ResolveOptions \<Rightarrow> TargetConfig \<Rightarrow> params \<Rightarrow> params" where
  "load_layers environ o1 t k0 =
     (let k1 = k0 ++ target_layer t;
          k2 = (case cc_Consistency (tg_Cluster t) of c # _ \<Rightarrow> k1(''consistency'' \<mapsto> AStr c) | [] \<Rightarrow> k1);
          k3 = (if rv_Consistency o1 \<noteq> '''' then k2(''consistency'' \<mapsto> AStr (rv_Consistency o1)) else k2);
          k4 = (if rv_Endpoints o1 \<noteq> [] then k3(''endpoints'' \<mapsto> AStrs (rv_Endpoints o1)) else k3);
          k5 = k4 ++ envProvider environ
      in k5 ++ rv_Overrides o1)"

definition resolveSettings :: "'d yaml_lib \<Rightarrow> (string \<times> string) list \<Rightarrow> ResolveOptions \<Rightarrow> TargetConfig \<Rightarrow> err + settings" where
  "resolveSettings yl environ o1 t =
     (case (if rv_GlobalPath o1 = '''' then Inr Map.empty
            else case yl_Read yl (rv_GlobalPath o1) of
              Inl e \<Rightarrow> Inl (''read '' @ rv_GlobalPath o1 @ '': '' @ e)
            | Inr doc \<Rightarrow> Inr (yl_Flat yl doc)) of
        Inl e \<Rightarrow> Inl e
      | Inr k0 \<Rightarrow> Inr (readSettings yl (load_layers environ o1 t k0)))"

definition buildTopology :: "TargetConfig \<Rightarrow> Topology" where
  "buildTopology t = \<lparr>t_Name = tg_Target t, t_Backend = cc_Backend (tg_Cluster t), t_Target = tg_Target t, t_Image = tg_Image t,
     t_Version = tg_Version t, t_Nodes = cc_Nodes (tg_Cluster t), t_ReplicationFactor = cc_ReplicationFactor (tg_Cluster t),
     t_Resources = \<lparr>res_CPU = '''', res_Memory = ''''\<rparr>, t_Bundle = '''', t_Extra = Map.empty\<rparr>"

text \<open>\<open>m_CreatedAt\<close> of a manifest that has not been completed is Go's zero time; \<open>zero_time\<close> is its value in
  Unix nanoseconds.\<close>

definition zero_time :: instant where
  "zero_time = - 62135596800000000000"

definition zero_Manifest :: Manifest where
  "zero_Manifest = \<lparr>m_RunID = '''', m_Target = '''', m_TargetVersion = '''', m_Workload = '''', m_TestType = '''', m_Mode = '''',
     m_Rate = \<lparr>rs_Mode = '''', rs_OpsPerSec = 0\<rparr>, m_Duration = 0, m_Warmup = 0, m_Connections = 0, m_Seed = 0, m_Trials = 0,
     m_Consistency = '''', m_Cluster = \<lparr>cs_Nodes = [], cs_ReplicationFactor = 0, cs_Consistency = []\<rparr>, m_Faults = [],
     m_EngineVersion = '''', m_GitSHA = '''', m_Client = \<lparr>ci_Hostname = '''', ci_OS = '''', ci_Arch = '''', ci_CPUs = 0\<rparr>,
     m_Labels = Map.empty, m_CreatedAt = zero_time\<rparr>"

definition Resolve :: "'d yaml_lib \<Rightarrow> (string \<times> string) list \<Rightarrow> ResolveOptions \<Rightarrow> err + Resolved" where
  "Resolve yl environ o1 =
     (case LoadTarget yl (rv_TargetPath o1) of
        Inl e \<Rightarrow> Inl e
      | Inr target \<Rightarrow>
          (case LoadWorkload yl (rv_WorkloadPath o1) of
             Inl e \<Rightarrow> Inl e
           | Inr workload \<Rightarrow>
               (case resolveSettings yl environ o1 target of
                  Inl e \<Rightarrow> Inl e
                | Inr s \<Rightarrow>
                    (let cluster = \<lparr>cs_Nodes = [], cs_ReplicationFactor = cc_ReplicationFactor (tg_Cluster target),
                           cs_Consistency = cc_Consistency (tg_Cluster target)\<rparr>
                     in Inr \<lparr>re_Workload = workload, re_Topology = buildTopology target,
                          re_Driver = \<lparr>cfg_Endpoints = se_Endpoints s, cfg_Consistency = se_Consistency s, cfg_Cluster = cluster,
                            cfg_Params = w_Params workload\<rparr>,
                          re_Manifest = zero_Manifest\<lparr>m_Target := tg_Target target, m_TargetVersion := tg_Version target,
                            m_Workload := w_Name workload, m_Mode := w_Mode workload, m_Rate := se_Rate s, m_Duration := se_Duration s,
                            m_Warmup := se_Warmup s, m_Connections := se_Connections s, m_Consistency := se_Consistency s,
                            m_Cluster := cluster\<rparr>\<rparr>))))"

section \<open>Layers\<close>

text \<open>The reference: the value of a key is that of the first layer, from the highest, that has the key.\<close>

fun layered :: "params list \<Rightarrow> params" where
  "layered [] k = None"
| "layered (m # ms) k = (case m k of Some v \<Rightarrow> Some v | None \<Rightarrow> layered ms k)"

definition option_layer :: "ResolveOptions \<Rightarrow> params" where
  "option_layer o1 k =
     (if k = ''consistency'' \<and> rv_Consistency o1 \<noteq> '''' then Some (AStr (rv_Consistency o1))
      else if k = ''endpoints'' \<and> rv_Endpoints o1 \<noteq> [] then Some (AStrs (rv_Endpoints o1)) else None)"

definition cluster_layer :: "TargetConfig \<Rightarrow> params" where
  "cluster_layer t k = (if k = ''consistency'' \<and> cc_Consistency (tg_Cluster t) \<noteq> [] then Some (AStr (hd (cc_Consistency (tg_Cluster t)))) else None)"

definition global_layer :: "'d yaml_lib \<Rightarrow> ResolveOptions \<Rightarrow> params \<Rightarrow> bool" where
  "global_layer yl o1 g \<longleftrightarrow> (if rv_GlobalPath o1 = '''' then g = Map.empty else \<exists>doc. yl_Read yl (rv_GlobalPath o1) = Inr doc \<and> g = yl_Flat yl doc)"

lemma resolveSettings_layers:
  assumes "resolveSettings yl environ o1 t = Inr s"
  shows "\<exists>g. global_layer yl o1 g \<and>
    s = readSettings yl (layered [rv_Overrides o1, envProvider environ, option_layer o1, cluster_layer t, target_layer t, g])"
proof -
  obtain g where g: "global_layer yl o1 g" and s: "s = readSettings yl (load_layers environ o1 t g)"
    using assms by (auto simp: resolveSettings_def global_layer_def split: if_splits sum.splits)
  have "load_layers environ o1 t g = layered [rv_Overrides o1, envProvider environ, option_layer o1, cluster_layer t, target_layer t, g]"
    by (rule ext) (auto simp: load_layers_def Let_def map_add_def option_layer_def cluster_layer_def split: option.splits list.splits)
  with g s show ?thesis
    by auto
qed

lemma mapWorkload_valid:
  assumes "mapWorkload f = Inr w"
  shows "w_Mode w \<in> {ModePerformance, ModeCorrectness} \<and> w_KeyDist w \<in> {DistUniform, DistZipfian, DistLatest, DistSequential} \<and>
    w_VerifyModel w \<in> {VerifyNone, VerifyReconciliation, VerifyRegister, VerifyListAppend, VerifyKafkaLog} \<and>
    w_Mode w = wf_Mode f \<and> w_KeyDist w = wf_KeyDist f \<and> w_VerifyModel w = wf_VerifyModel f"
proof -
  have "m = x \<and> x \<in> set xs" if "map_of (map (\<lambda>x. (x, x)) xs) x = Some m" for xs and x m :: string
    using that by (auto dest!: map_of_SomeD)
  note V = this
  obtain mo kd vm where "validModes (wf_Mode f) = Some mo" "validDists (wf_KeyDist f) = Some kd" "validModels (wf_VerifyModel f) = Some vm"
      "w_Mode w = mo" "w_KeyDist w = kd" "w_VerifyModel w = vm"
    using assms by (auto simp: mapWorkload_def split: option.splits)
  note w = this
  show ?thesis
    using V [OF w(1) [unfolded validModes_def]] V [OF w(2) [unfolded validDists_def]] V [OF w(3) [unfolded validModels_def]] w(4,5,6)
    by simp
qed

text \<open>The settings of a target's \<open>defaults\<close> block hide those of the global file, even where the block leaves them out.\<close>

lemma global_defaults_hidden:
  "k \<in> {''connections'', ''duration'', ''warmup''} \<Longrightarrow> layered (ms @ [target_layer t, g]) k = layered (ms @ [target_layer t]) k"
  by (induction ms) (auto simp: target_layer_def split: option.splits)

text \<open>A variable of the environment wins over the \<open>Consistency\<close> of the options.\<close>

lemma env_beats_options:
  assumes "resolveSettings yl [(''PROOFLOAD_CONSISTENCY'', v)] o1 t = Inr s" "rv_Overrides o1 = Map.empty"
  shows "se_Consistency s = kf_String yl (Some (AStr v))"
proof -
  have "to_lower ''CONSISTENCY'' = ''consistency''"
    by code_simp
  hence "envProvider [(''PROOFLOAD_CONSISTENCY'', v)] = [''consistency'' \<mapsto> AStr v]"
    by (simp add: envProvider_def envPrefix_def env_transform_def Let_def)
  thus ?thesis
    using resolveSettings_layers [OF assms(1)] assms(2) by (auto simp: readSettings_def Let_def)
qed

section \<open>Properties\<close>


definition demo_target :: targetFile where
  "demo_target = \<lparr>tf_Target = ''pg'', tf_Image = ''postgres'', tf_Version = ''16'', tf_Connections = 8, tf_Warmup = '''', tf_Duration = '''',
     tf_Backend = ''compose'', tf_Nodes = 1, tf_ReplicationFactor = 1, tf_Consistency = [], tf_VerifyModels = [], tf_Faults = []\<rparr>"

definition demo_workload :: workloadFile where
  "demo_workload = \<lparr>wf_Name = ''mix'', wf_Mode = ModePerformance, wf_KeySpace = 10, wf_KeyDist = DistUniform, wf_ValueSize = 8,
     wf_VerifyModel = VerifyNone, wf_Operations = [(''read'', 1)], wf_Params = Map.empty\<rparr>"

definition demo_yaml :: "unit yaml_lib" where
  "demo_yaml = \<lparr>yl_Read = (\<lambda>_. Inr ()), yl_Target = (\<lambda>_. Inr demo_target), yl_Workload = (\<lambda>_. Inr demo_workload), yl_Flat = (\<lambda>_. Map.empty),
     kf_Int = (\<lambda>v. case v of Some (AInt i) \<Rightarrow> i | _ \<Rightarrow> 0), kf_Duration = (\<lambda>v. case v of Some (ADur i) \<Rightarrow> i | _ \<Rightarrow> 0),
     kf_String = (\<lambda>v. case v of Some (AStr s) \<Rightarrow> s | _ \<Rightarrow> ''''), kf_Strings = (\<lambda>v. case v of Some (AStrs ss) \<Rightarrow> ss | _ \<Rightarrow> [])\<rparr>"

definition demo_options :: ResolveOptions where
  "demo_options = \<lparr>rv_GlobalPath = '''', rv_TargetPath = ''target.yaml'', rv_WorkloadPath = ''mix.yaml'', rv_Endpoints = [''db:5432''],
     rv_Consistency = '''', rv_Overrides = [''connections'' \<mapsto> AInt 3, ''ops_per_sec'' \<mapsto> AInt 100]\<rparr>"


end
