(* ===== verification/Cli.thy ===== *)
theory Cli
  imports Schedule Workload Testutil History Cluster Nemesis Metrics Runner Config Emit Provision
begin

text \<open>
  \<open>core/cli\<close>, the assembly layer: the test types and their schedules, the recording and checking of
  correctness, the fault runner, the coordinator's merge and the worker's share of the rate, the
  provisioning of endpoints and the composition \<open>drive\<close> of generator, scheduler, runner and
  recorder. The operating system is a parameter: each call is a function on a world.
\<close>

section \<open>Test types\<close>

record runFlags =
  rf_workload :: string
  rf_endpoints :: "string list"
  rf_consistency :: string
  rf_connections :: int
  rf_duration :: duration
  rf_warmup :: duration
  rf_rate :: int
  rf_seed :: int
  rf_results :: string
  rf_provision :: string
  rf_verify :: string
  rf_export :: string
  rf_fault :: string
  rf_workers :: int
  rf_coordAddr :: string
  rf_keep :: bool
  rf_test :: string

definition resolveTestType :: "runFlags \<Rightarrow> err + TestType" where
  "resolveTestType f =
     (if rf_test f = '''' then Inr (if rf_rate f > 0 then TestLoad else TestBenchmark)
      else if rf_test f = ''benchmark'' then Inr TestBenchmark
      else if rf_test f = ''load'' then
        if rf_rate f \<le> 0 then Inl ''--test load requires --rate (the constant arrival rate)'' else Inr TestLoad
      else if rf_test f = ''stress'' then
        if rf_rate f \<le> 0 then Inl ''--test stress requires --rate (the ramp ceiling)'' else Inr TestStress
      else if rf_test f = ''acid'' then Inr TestACID
      else if rf_test f = ''combined'' then Inr TestCombined
      else Inl (''unknown --test '' @ fmt_q (rf_test f) @ '' (want benchmark|load|stress|acid|combined)''))"

definition buildScheduler :: "instant \<Rightarrow> TestType \<Rightarrow> RateSpec \<Rightarrow> duration \<Rightarrow> Scheduler" where
  "buildScheduler start tt rate dur =
     (if tt = TestBenchmark then NewClosedLoop start
      else if tt = TestStress then
        let top = rs_OpsPerSec rate; from0 = top sdiv 5; from1 = (if from0 < 1 then 1 else from0);
            step0 = dur sdiv 5; step1 = (if step0 \<le> 0 then second else step0)
        in LinearRamp start from1 top 5 step1
      else NewOpenLoop start rate)"

section \<open>Verification\<close>

text \<open>The files of a verification, the checkers' tools and the target. \<open>ve_native\<close> is the driver's own
  verifier, if it has one, with its model.\<close>

record 'w verify_env =
  ve_CreateTemp :: "string \<Rightarrow> 'w \<Rightarrow> (err + string) \<times> 'w"
  ve_CloseTemp :: "string \<Rightarrow> 'w \<Rightarrow> err option \<times> 'w"
  ve_OpenWriter :: "string \<Rightarrow> 'w \<Rightarrow> err option \<times> 'w"
  ve_CloseWriter :: "string \<Rightarrow> 'w \<Rightarrow> err option \<times> 'w"
  ve_ReadLines :: "string \<Rightarrow> 'w \<Rightarrow> err + string list"
  ve_WriteLines :: "string \<Rightarrow> string list \<Rightarrow> 'w \<Rightarrow> err option \<times> 'w"
  ve_Remove :: "string \<Rightarrow> 'w \<Rightarrow> 'w"
  ve_record :: "string \<Rightarrow> WriteRecord option"
  ve_event :: "string \<Rightarrow> Event option"
  ve_native :: "(VerifyModel \<times> ('w \<Rightarrow> (err + VerifyReport) \<times> 'w)) option"
  ve_target :: "'w target_env"
  ve_orders :: "expectation \<Rightarrow> int list \<times> int list"
  ve_keys :: "History \<Rightarrow> int list"
  ve_porcupine :: "pop list \<Rightarrow> CheckResult"
  ve_elle :: "string \<Rightarrow> 'w \<Rightarrow> bool \<times> string \<times> err option"

record verification =
  vf_model :: VerifyModel
  vf_path :: string
  vf_expLog :: bool
  vf_histW :: bool
  vf_readOp :: OpType

definition resolveVerifyModel :: "runFlags \<Rightarrow> Workload \<Rightarrow> VerifyModel" where
  "resolveVerifyModel f w = (if rf_verify f \<noteq> '''' then rf_verify f else w_VerifyModel w)"

definition pickReadOp :: "Workload \<Rightarrow> OpType" where
  "pickReadOp w =
     (let present = os_Type ` set (w_Operations w)
      in case filter (\<lambda>c. c \<in> present) [''read'', ''r'', ''get''] of c # _ \<Rightarrow> c | [] \<Rightarrow> ''read'')"

definition tempFile :: "'w verify_env \<Rightarrow> string \<Rightarrow> 'w \<Rightarrow> (err + string) \<times> 'w" where
  "tempFile e pattern w =
     (case ve_CreateTemp e pattern w of
        (Inl er, w1) \<Rightarrow> (Inl er, w1)
      | (Inr name, w1) \<Rightarrow> (case ve_CloseTemp e name w1 of (Some er, w2) \<Rightarrow> (Inl er, w2) | (None, w2) \<Rightarrow> (Inr name, w2)))"

definition open_recording :: "'w verify_env \<Rightarrow> string \<Rightarrow> (string \<Rightarrow> verification) \<Rightarrow> 'w \<Rightarrow> (err + verification) \<times> 'w" where
  "open_recording e pattern mk w =
     (case tempFile e pattern w of
        (Inl er, w1) \<Rightarrow> (Inl er, w1)
      | (Inr p, w1) \<Rightarrow> (case ve_OpenWriter e p w1 of (Some er, w2) \<Rightarrow> (Inl er, w2) | (None, w2) \<Rightarrow> (Inr (mk p), w2)))"

definition newVerification :: "'w verify_env \<Rightarrow> VerifyModel \<Rightarrow> Resolved \<Rightarrow> 'w \<Rightarrow> (err + verification) \<times> 'w" where
  "newVerification e model r w =
     (let v = \<lparr>vf_model = model, vf_path = '''', vf_expLog = False, vf_histW = False, vf_readOp = ''''\<rparr>
      in if model = VerifyReconciliation
         then open_recording e ''proofload-expect-*.ndjson'' (\<lambda>p. v\<lparr>vf_path := p, vf_expLog := True, vf_readOp := pickReadOp (re_Workload r)\<rparr>) w
         else if model = VerifyRegister \<or> model = VerifyListAppend
         then open_recording e ''proofload-history-*.ndjson'' (\<lambda>p. v\<lparr>vf_path := p, vf_histW := True\<rparr>) w
         else (Inr v, w))"

text \<open>What an observer of one connection does: append to the expectation log, append to the history, or nothing
  when there is none.\<close>

datatype op_observer = WriteLogObserver | HistoryRecorder int

definition ver_observer :: "verification \<Rightarrow> (nat \<Rightarrow> op_observer) option" where
  "ver_observer v =
     (if vf_expLog v then Some (\<lambda>shard. WriteLogObserver)
      else if vf_histW v then Some (\<lambda>shard. HistoryRecorder (int shard)) else None)"

definition ReadLog :: "'w verify_env \<Rightarrow> string \<Rightarrow> 'w \<Rightarrow> err + expectation" where
  "ReadLog e p w =
     (case ve_ReadLines e p w of
        Inl er \<Rightarrow> Inl er
      | Inr ls \<Rightarrow> (case readLog (ve_record e) ls of Inl n \<Rightarrow> Inl (''verify: log line '' @ fmt_nat n) | Inr m \<Rightarrow> Inr m))"

definition ReadHistory :: "'w verify_env \<Rightarrow> string \<Rightarrow> 'w \<Rightarrow> err + History" where
  "ReadHistory e p w =
     (case ve_ReadLines e p w of
        Inl er \<Rightarrow> Inl er
      | Inr ls \<Rightarrow> (case readHistory (ve_event e) ls of Inl n \<Rightarrow> Inl (''verify: history line '' @ fmt_nat n) | Inr h \<Rightarrow> Inr h))"

definition checkRegister :: "'w verify_env \<Rightarrow> verification \<Rightarrow> 'w \<Rightarrow> (err + VerifyReport option) \<times> 'w" where
  "checkRegister e v w =
     (case ve_CloseWriter e (vf_path v) w of
        (Some er, w1) \<Rightarrow> (Inl er, w1)
      | (None, w1) \<Rightarrow>
          (case ReadHistory e (vf_path v) w1 of
             Inl er \<Rightarrow> (Inl er, w1)
           | Inr h \<Rightarrow> (Inr (Some (CheckRegister (ve_porcupine e) h (ve_keys e h))), w1)))"

definition checkListAppend :: "'w verify_env \<Rightarrow> verification \<Rightarrow> 'w \<Rightarrow> (err + VerifyReport option) \<times> 'w" where
  "checkListAppend e v w =
     (case ve_CloseWriter e (vf_path v) w of
        (Some er, w1) \<Rightarrow> (Inl er, w1)
      | (None, w1) \<Rightarrow>
          (case ReadHistory e (vf_path v) w1 of
             Inl er \<Rightarrow> (Inl er, w1)
           | Inr h \<Rightarrow>
               (case ve_WriteLines e (vf_path v @ ''.edn'') (WriteElleEDN h) w1 of
                  (Some er, w2) \<Rightarrow> (Inl er, w2)
                | (None, w2) \<Rightarrow> (let (found, out, er) = ve_elle e (vf_path v @ ''.edn'') w2 in (Inr (Some (RunElle found out er)), w2)))))"

definition cli_reconcile :: "'w verify_env \<Rightarrow> verification \<Rightarrow> Resolved \<Rightarrow> 'w \<Rightarrow> ((err + VerifyReport option) \<times> 'w) option" where
  "cli_reconcile e v r w =
     (case ve_CloseWriter e (vf_path v) w of
        (Some er, w1) \<Rightarrow> Some (Inl er, w1)
      | (None, w1) \<Rightarrow>
          (case ReadLog e (vf_path v) w1 of
             Inl er \<Rightarrow> Some (Inl er, w1)
           | Inr expected \<Rightarrow>
               (let (o1, o2) = ve_orders e expected
                in case Reconcile (ve_target e) expected o1 o2
                     \<lparr>o_ReadOp = vf_readOp v, o_Workload = re_Workload r, o_ConvergenceSample = 200, o_ConvergenceTimeout = 5 * second\<rparr> w1 of
                     None \<Rightarrow> None
                   | Some (Inl er, w2) \<Rightarrow> Some (Inl er, w2)
                   | Some (Inr rep, w2) \<Rightarrow> Some (Inr (Some rep), w2))))"

text \<open>\<open>verification.run\<close>; \<open>None\<close> outside means it does not return.\<close>

definition ver_run :: "'w verify_env \<Rightarrow> string \<Rightarrow> verification \<Rightarrow> Resolved \<Rightarrow> 'w \<Rightarrow> ((err + VerifyReport option) \<times> 'w) option" where
  "ver_run e ename v r w =
     (if vf_model v = VerifyNone then Some (Inr None, w)
      else case (case ve_native e of None \<Rightarrow> None | Some (m, f) \<Rightarrow> if m = vf_model v then Some f else None) of
        Some f \<Rightarrow> (case f w of (Inl er, w1) \<Rightarrow> Some (Inl er, w1) | (Inr rep, w1) \<Rightarrow> Some (Inr (Some rep), w1))
      | None \<Rightarrow>
          if vf_model v = VerifyReconciliation then cli_reconcile e v r w
          else if vf_model v = VerifyRegister then Some (checkRegister e v w)
          else if vf_model v = VerifyListAppend then Some (checkListAppend e v w)
          else Some (Inr (Some ((new_report (vf_model v) VerdictUnknown)\<lparr>vr_Anomalies :=
                 [\<lparr>an_Kind = ''unsupported'', an_Detail = ''no checker available for model '' @ vf_model v @ '' on target '' @ ename,
                   an_Witness = []\<rparr>]\<rparr>)), w))"

definition ver_cleanup :: "'w verify_env \<Rightarrow> verification \<Rightarrow> 'w \<Rightarrow> 'w" where
  "ver_cleanup e v w =
     (let w1 = (if vf_expLog v then snd (ve_CloseWriter e (vf_path v) w) else w);
          w2 = (if vf_histW v then snd (ve_CloseWriter e (vf_path v) w1) else w1)
      in if vf_path v \<noteq> '''' then ve_Remove e (vf_path v @ ''.edn'') (ve_Remove e (vf_path v) w2) else w2)"

section \<open>Fault schedules\<close>

record faultDTO =
  dt_Type :: string
  dt_Target :: string
  dt_At :: string
  dt_Duration :: string
  dt_Repeat :: string
  dt_Params :: params

definition parseDurOrZero :: "string \<Rightarrow> err + duration" where
  "parseDurOrZero s = (if s = '''' then Inr 0 else ParseDuration s)"

definition fault_spec :: "nat \<Rightarrow> faultDTO \<Rightarrow> err + FaultSpec" where
  "fault_spec i d =
     (case parseDurOrZero (dt_At d) of
        Inl e \<Rightarrow> Inl (''fault '' @ fmt_nat i @ '' at: '' @ e)
      | Inr t \<Rightarrow>
          (case parseDurOrZero (dt_Duration d) of
             Inl e \<Rightarrow> Inl (''fault '' @ fmt_nat i @ '' duration: '' @ e)
           | Inr dur \<Rightarrow>
               (case parseDurOrZero (dt_Repeat d) of
                  Inl e \<Rightarrow> Inl (''fault '' @ fmt_nat i @ '' repeat: '' @ e)
                | Inr rep \<Rightarrow> Inr \<lparr>fs_Fault = \<lparr>f_Type = dt_Type d, f_Target = dt_Target d, f_Params = dt_Params d\<rparr>, fs_At = t,
                    fs_Duration = dur, fs_Repeat = rep\<rparr>)))"

fun fault_specs :: "nat \<Rightarrow> faultDTO list \<Rightarrow> err + FaultSpec list" where
  "fault_specs i [] = Inr []"
| "fault_specs i (d # ds) =
     (case fault_spec i d of
        Inl e \<Rightarrow> Inl e
      | Inr s \<Rightarrow> (case fault_specs (Suc i) ds of Inl e \<Rightarrow> Inl e | Inr ss \<Rightarrow> Inr (s # ss)))"

text \<open>\<open>load\<close> reads, parses and unmarshals the YAML file.\<close>

definition loadFaultSchedule :: "(string \<Rightarrow> err + faultDTO list) \<Rightarrow> string \<Rightarrow> err + FaultSpec list" where
  "loadFaultSchedule load path = (case load path of Inl e \<Rightarrow> Inl e | Inr ds \<Rightarrow> fault_specs 0 ds)"

record nemesisRun =
  nr_sched :: "(string \<times> Node list \<times> int) option"
  nr_specs :: "FaultSpec list"
  nr_start :: instant
  nr_timeline :: "nemesis_Event list"
  nr_started :: bool
  nr_stopped :: bool

definition zero_nemesisRun :: nemesisRun where
  "zero_nemesisRun = \<lparr>nr_sched = None, nr_specs = [], nr_start = 0, nr_timeline = [], nr_started = False, nr_stopped = False\<rparr>"

definition newNemesis :: "(string \<Rightarrow> err + faultDTO list) \<Rightarrow> (string \<Rightarrow> err option) \<Rightarrow> runFlags \<Rightarrow> string \<Rightarrow> Resolved \<Rightarrow> err + nemesisRun" where
  "newNemesis load stat f ename r =
     (if rf_fault f = '''' then Inr zero_nemesisRun
      else case loadFaultSchedule load (rf_fault f) of
        Inl e \<Rightarrow> Inl (''load fault schedule: '' @ e)
      | Inr specs \<Rightarrow>
          (let nodes = cs_Nodes (cfg_Cluster (re_Driver r)); script = path_Join [''targets'', ename, ''faults'', ''fault.sh'']
           in if nodes = [] then Inl ''--fault needs cluster nodes with control endpoints; run with --provision''
              else case stat script of
                Some e \<Rightarrow> Inl (''fault script '' @ script @ '': '' @ e)
              | None \<Rightarrow> Inr (zero_nemesisRun\<lparr>nr_sched := Some (script, nodes, rf_seed f), nr_specs := specs\<rparr>)))"

definition nem_begin :: "instant \<Rightarrow> nemesisRun \<Rightarrow> nemesisRun" where
  "nem_begin measureStart n = (if nr_sched n = None \<or> nr_started n then n else n\<lparr>nr_started := True, nr_start := measureStart\<rparr>)"

text \<open>\<open>events\<close> is what the goroutine's \<open>Run\<close> returns once its context is cancelled.\<close>

definition nem_stop :: "nemesis_Event list \<Rightarrow> nemesisRun \<Rightarrow> nemesisRun" where
  "nem_stop events n = (if \<not> nr_started n \<or> nr_stopped n then n else n\<lparr>nr_stopped := True, nr_timeline := events\<rparr>)"

definition nem_persist :: "(nemesis_Event list \<Rightarrow> err + u8 list) \<Rightarrow> string \<Rightarrow> nemesisRun \<Rightarrow> fsys \<Rightarrow> fsys" where
  "nem_persist marshal dir n fs =
     (if \<not> nr_started n \<or> nr_timeline n = [] then fs
      else case marshal (nr_timeline n) of Inl e \<Rightarrow> fs | Inr b \<Rightarrow> fs(path_Join [dir, ''faults.json''] \<mapsto> b))"

section \<open>Distributed runs\<close>

definition coordinate_spec :: "string \<Rightarrow> runFlags \<Rightarrow> Resolved \<Rightarrow> RunSpec" where
  "coordinate_spec ename f r = \<lparr>sp_Target = ename, sp_Workload = rf_workload f, sp_Endpoints = cfg_Endpoints (re_Driver r),
     sp_Consistency = cfg_Consistency (re_Driver r), sp_Connections = m_Connections (re_Manifest r), sp_Warmup = m_Warmup (re_Manifest r),
     sp_Duration = m_Duration (re_Manifest r), sp_RateOpsPerSec = rs_OpsPerSec (m_Rate (re_Manifest r)), sp_Seed = rf_seed f,
     sp_WorkerCount = rf_workers f\<rparr>"

text \<open>\<open>keys i\<close> is the order in which the maps of the i-th histogram are iterated.\<close>

fun merge_rest :: "'h hist_lib \<Rightarrow> wire_codec \<Rightarrow> (nat \<Rightarrow> OpType list) \<Rightarrow> nat \<Rightarrow> u8 list list \<Rightarrow> 'h Recorder \<Rightarrow> err + 'h Recorder" where
  "merge_rest lib wc keys i [] merged = Inr merged"
| "merge_rest lib wc keys i (b # bs) merged =
     (case Decode lib wc (keys i) (string_of b) of
        Inl e \<Rightarrow> Inl (''decode worker '' @ fmt_nat i @ '': '' @ e)
      | Inr r \<Rightarrow> merge_rest lib wc keys (Suc i) bs (Recorder_Merge lib r merged))"

definition add_report :: "WorkerReport \<Rightarrow> RunReport \<Rightarrow> RunReport" where
  "add_report wr rep = rep\<lparr>rn_Total := i64 (rn_Total rep + wk_Total wr), rn_Errors := i64 (rn_Errors rep + wk_Errors wr),
     rn_ClientBound := (rn_ClientBound rep \<or> wk_ClientBound wr)\<rparr>"

definition mergeResults :: "'h hist_lib \<Rightarrow> wire_codec \<Rightarrow> (nat \<Rightarrow> OpType list) \<Rightarrow> Result \<Rightarrow> err + 'h Recorder \<times> RunReport" where
  "mergeResults lib wc keys res =
     (case re_Histograms res of
        [] \<Rightarrow> Inl ''no worker results''
      | b # bs \<Rightarrow>
          (case Decode lib wc (keys 0) (string_of b) of
             Inl e \<Rightarrow> Inl (''decode worker 0: '' @ e)
           | Inr first \<Rightarrow>
               (case merge_rest lib wc keys 1 bs first of
                  Inl e \<Rightarrow> Inl e
                | Inr merged \<Rightarrow> Inr (merged, fold add_report (re_Reports res) zero_RunReport))))"

definition workerOverrides :: "RunSpec \<Rightarrow> params" where
  "workerOverrides spec =
     (let o1 = [''connections'' \<mapsto> AInt (sp_Connections spec), ''duration'' \<mapsto> ADur (sp_Duration spec), ''warmup'' \<mapsto> ADur (sp_Warmup spec)];
          o2 = (if sp_Endpoints spec \<noteq> [] then o1(''endpoints'' \<mapsto> AStrs (sp_Endpoints spec)) else o1)
      in if sp_Consistency spec \<noteq> '''' then o2(''consistency'' \<mapsto> AStr (sp_Consistency spec)) else o2)"

definition workerRate :: "RunSpec \<Rightarrow> RateSpec" where
  "workerRate spec =
     (if sp_RateOpsPerSec spec \<le> 0 \<or> sp_WorkerCount spec \<le> 0 then \<lparr>rs_Mode = '''', rs_OpsPerSec = 0\<rparr>
      else \<lparr>rs_Mode = RateFixed, rs_OpsPerSec = sp_RateOpsPerSec spec sdiv sp_WorkerCount spec\<rparr>)"

section \<open>A run\<close>

definition overrides :: "string set \<Rightarrow> runFlags \<Rightarrow> params" where
  "overrides changed f =
     (let o1 = (if ''connections'' \<in> changed then [''connections'' \<mapsto> AInt (rf_connections f)] else Map.empty);
          o2 = (if ''duration'' \<in> changed then o1(''duration'' \<mapsto> ADur (rf_duration f)) else o1);
          o3 = (if ''warmup'' \<in> changed then o2(''warmup'' \<mapsto> ADur (rf_warmup f)) else o2);
          o4 = (if ''consistency'' \<in> changed then o3(''consistency'' \<mapsto> AStr (rf_consistency f)) else o3);
          o5 = (if ''endpoints'' \<in> changed then o4(''endpoints'' \<mapsto> AStrs (rf_endpoints f)) else o4)
      in if rf_rate f > 0 then o5(''ops_per_sec'' \<mapsto> AInt (rf_rate f)) else o5)"

text \<open>A compose bundle that the target ships is preferred over a rendered topology.\<close>

definition prefer_bundle :: "(string \<Rightarrow> bool) \<Rightarrow> runFlags \<Rightarrow> string \<Rightarrow> Resolved \<Rightarrow> Resolved" where
  "prefer_bundle fileExists f target r =
     (let b = path_Join [''targets'', target, ''infrastructure'']
      in if rf_provision f = ''compose'' \<and> fileExists (path_Join [b, ''docker-compose.yml''])
         then r\<lparr>re_Topology := (re_Topology r)\<lparr>t_Bundle := b\<rparr>\<rparr> else r)"

text \<open>The result carries the teardown: \<open>None\<close> is the no-op, \<open>Some (p, t)\<close> takes topology \<open>t\<close> down with \<open>p\<close>.\<close>

definition ensureEndpoints :: "(string \<Rightarrow> err + 'w Provisioner) \<Rightarrow> (string \<Rightarrow> bool) \<Rightarrow> runFlags \<Rightarrow> string \<Rightarrow> Resolved \<Rightarrow> 'w \<Rightarrow>
    ((('w Provisioner \<times> Topology) option \<times> err option) \<times> Resolved \<times> 'w) option" where
  "ensureEndpoints get fileExists f target r w =
     (let fin = (\<lambda>td r w. Some ((td, if cfg_Endpoints (re_Driver r) = []
              then Some ''no endpoints: pass --endpoints host:port or --provision compose'' else None), r, w))
      in if rf_provision f = '''' then fin None r w
         else case get (rf_provision f) of
           Inl e \<Rightarrow> Some ((None, Some e), r, w)
         | Inr p \<Rightarrow>
             (let r1 = prefer_bundle fileExists f target r
              in case pv_Up p (re_Topology r1) w of
                   None \<Rightarrow> None
                 | Some (Inl e, w1) \<Rightarrow> Some ((None, Some (''provision '' @ rf_provision f @ '': '' @ e)), r1, w1)
                 | Some (Inr cluster, w1) \<Rightarrow>
                     (let eps = filter (\<lambda>c. c \<noteq> '''') (map n_Client (cs_Nodes cluster));
                          r2 = r1\<lparr>re_Driver := (re_Driver r1)\<lparr>cfg_Cluster := cluster, cfg_Endpoints := eps\<rparr>\<rparr>
                      in fin (if rf_keep f then None else Some (p, re_Topology r1)) r2 w1)))"

definition teardown :: "('w Provisioner \<times> Topology) option \<Rightarrow> 'w \<Rightarrow> 'w" where
  "teardown td w = (case td of None \<Rightarrow> w | Some (p, t) \<Rightarrow> snd (pv_Down p t w))"

text \<open>The head of \<open>doRun\<close>: an error of \<open>ensureEndpoints\<close> returns before the teardown is deferred. \<open>body\<close> is the rest of
  \<open>doRun\<close>, after which the deferred teardown runs; \<open>None\<close> is a body that does not return.\<close>

definition with_endpoints :: "(string \<Rightarrow> err + 'w Provisioner) \<Rightarrow> (string \<Rightarrow> bool) \<Rightarrow> runFlags \<Rightarrow> string \<Rightarrow> Resolved \<Rightarrow>
    (Resolved \<Rightarrow> 'w \<Rightarrow> (err option \<times> 'w) option) \<Rightarrow> 'w \<Rightarrow> (err option \<times> 'w) option" where
  "with_endpoints get fileExists f target r body w =
     (case ensureEndpoints get fileExists f target r w of
        None \<Rightarrow> None
      | Some ((td, Some e), r1, w1) \<Rightarrow> Some (Some e, w1)
      | Some ((td, None), r1, w1) \<Rightarrow>
          (case body r1 w1 of None \<Rightarrow> None | Some (e, w2) \<Rightarrow> Some (e, teardown td w2)))"

record 'b driveParams =
  dr_workload :: Workload
  dr_cfg :: Config
  dr_rate :: RateSpec
  dr_connections :: int
  dr_warmup :: duration
  dr_duration :: duration
  dr_seed :: int
  dr_workerID :: int
  dr_workerCount :: int
  dr_startAt :: "instant option"
  dr_observer :: "(nat \<Rightarrow> 'b option) option"
  dr_testType :: TestType

definition drive_factory :: "'b driveParams \<Rightarrow> new_error + Factory" where
  "drive_factory pp = New (dr_workload pp) (dr_seed pp) (dr_workerID pp) (if dr_workerCount pp < 1 then 1 else dr_workerCount pp)"

text \<open>What \<open>drive\<close> hands to the runner. The generator of a valid factory always returns, and so does
  every scheduler; the sink of a shard is a fresh \<open>Local\<close> of the recorder.\<close>

definition drive_deps :: "'h hist_lib \<Rightarrow> zipf \<Rightarrow> ('c, 'w) Driver \<Rightarrow> (Operation \<Rightarrow> OpResult \<Rightarrow> instant \<Rightarrow> instant \<Rightarrow> 'b \<Rightarrow> 'b) \<Rightarrow>
    'b driveParams \<Rightarrow> Factory \<Rightarrow> instant \<Rightarrow> ('c, 'w, Scheduler, generator, 'h Local, 'b) Deps" where
  "drive_deps lib zipf dv obs pp factory start =
     (let rec = metrics_New \<lparr>mo_SignificantFigures = 0, mo_MaxLatency = 0\<rparr> :: 'h Recorder
      in \<lparr>dp_Driver = Some dv, dp_Cfg = dr_cfg pp, dp_Workload = dr_workload pp,
          dp_Sched = Some (buildScheduler start (dr_testType pp) (dr_rate pp) (dr_duration pp), \<lambda>now s. the (sched_Next now s)),
          dp_Gen = Some (\<lambda>shard. Factory_Generator factory (int shard)), dp_GenNext = (\<lambda>g. the (generator_Next zipf g)),
          dp_Sink = Some (\<lambda>shard. Some (newLocal lib (rd_high rec) (rd_sig rec))), dp_Record = Local_Record lib,
          dp_Observer = dr_observer pp, dp_Observe = obs\<rparr>)"

definition drive_options :: "'b driveParams \<Rightarrow> runner_Options" where
  "drive_options pp = \<lparr>ro_Connections = dr_connections pp, ro_Warmup = dr_warmup pp, ro_Duration = dr_duration pp, ro_LatenessThreshold = 0\<rparr>"

text \<open>The recorder after the run: its sinks are those of the workers.\<close>

definition drive_recorder :: "('c, generator, 'h Local, 'b) worker list \<Rightarrow> 'h Recorder" where
  "drive_recorder wks = (metrics_New \<lparr>mo_SignificantFigures = 0, mo_MaxLatency = 0\<rparr>)\<lparr>rd_locals := map (\<lambda>wk. the (wk_sink wk)) wks\<rparr>"

text \<open>One tick of the collector of intervals.\<close>

definition collect_tick :: "'h hist_lib \<Rightarrow> OpType list \<Rightarrow> instant \<Rightarrow> 'h Recorder \<times> LatencySnapshot list \<Rightarrow> 'h Recorder \<times> LatencySnapshot list" where
  "collect_tick lib ks now st =
     (let (rec, snaps) = st; (out, rec') = TakeInterval lib ks now second rec
      in (rec', snaps @ filter (\<lambda>s. pc_Count (ls_Pct s) > 0) out))"

definition run_summary :: "'h hist_lib \<Rightarrow> string \<Rightarrow> RunReport \<Rightarrow> 'h Recorder \<Rightarrow> RunResult" where
  "run_summary lib runID report rec =
     (let s = (Snapshot lib ''measure'' (rn_Duration report) rec)\<lparr>rr_RunID := runID, rr_ClientBound := rn_ClientBound report\<rparr>
      in if rn_Duration report > 0
         then s\<lparr>rr_Throughput := of_int (rr_Total s) / (of_int (rn_Duration report) / of_int second)\<rparr> else s)"

section \<open>Rates and schedules\<close>

text \<open>The shares of the workers never exceed the aggregate rate, and what they lose is less than one operation per
  worker and second.\<close>

lemma workerRate_share:
  assumes "0 < sp_RateOpsPerSec spec" "0 < sp_WorkerCount spec"
  shows "sp_WorkerCount spec * rs_OpsPerSec (workerRate spec) \<le> sp_RateOpsPerSec spec"
    "sp_RateOpsPerSec spec < sp_WorkerCount spec * (rs_OpsPerSec (workerRate spec) + 1)"
proof -
  have "rs_OpsPerSec (workerRate spec) = sp_RateOpsPerSec spec div sp_WorkerCount spec"
    using assms by (simp add: workerRate_def sdiv_nonneg)
  moreover have "0 \<le> sp_RateOpsPerSec spec mod sp_WorkerCount spec" "sp_RateOpsPerSec spec mod sp_WorkerCount spec < sp_WorkerCount spec"
    using assms by simp_all
  ultimately show "sp_WorkerCount spec * rs_OpsPerSec (workerRate spec) \<le> sp_RateOpsPerSec spec"
    "sp_RateOpsPerSec spec < sp_WorkerCount spec * (rs_OpsPerSec (workerRate spec) + 1)"
    using mult_div_mod_eq [of "sp_WorkerCount spec" "sp_RateOpsPerSec spec"] by (simp_all only: distrib_left mult_1_right)
qed

text \<open>With more workers than operations per second the share is zero, and a worker with a zero rate saturates
  the target instead of pacing.\<close>

lemma small_rate_saturates:
  assumes "0 < sp_RateOpsPerSec spec" "sp_RateOpsPerSec spec < sp_WorkerCount spec"
  shows "rs_Mode (workerRate spec) = RateFixed \<and> buildScheduler start '''' (workerRate spec) dur = ClosedLoop"
  using assms by (simp add: workerRate_def sdiv_nonneg buildScheduler_def NewOpenLoop_def NewClosedLoop_def)

text \<open>A cluster that comes up without client endpoints is not torn down.\<close>

lemma unusable_cluster_leaks:
  assumes "rf_provision f \<noteq> ''''" "get (rf_provision f) = Inr p"
    "pv_Up p (re_Topology (prefer_bundle fileExists f target r)) w = Some (Inr cluster, w1)" "\<forall>n\<in>set (cs_Nodes cluster). n_Client n = ''''"
  shows "\<exists>e. with_endpoints get fileExists f target r body w = Some (Some e, w1)"
proof -
  have "filter (\<lambda>c. c \<noteq> '''') (map n_Client (cs_Nodes cluster)) = []"
    using assms(4) by (auto simp: filter_empty_conv)
  thus ?thesis
    using assms(1-3) by (simp add: with_endpoints_def ensureEndpoints_def Let_def)
qed

text \<open>A provisioner whose \<open>Up\<close> fails is never told to tear down what it had started.\<close>

lemma failed_up_leaks:
  assumes "rf_provision f \<noteq> ''''" "get (rf_provision f) = Inr p"
    "pv_Up p (re_Topology (prefer_bundle fileExists f target r)) w = Some (Inl e, w1)"
  shows "with_endpoints get fileExists f target r body w = Some (Some (''provision '' @ rf_provision f @ '': '' @ e), w1)"
  using assms by (simp add: with_endpoints_def ensureEndpoints_def Let_def)

section \<open>Merging\<close>

definition decodes :: "'h hist_lib \<Rightarrow> wire_codec \<Rightarrow> int \<Rightarrow> int \<Rightarrow> nat \<Rightarrow> (int \<Rightarrow> nat) \<Rightarrow> OpType list \<Rightarrow> u8 list \<Rightarrow> sample list \<Rightarrow> bool" where
  "decodes lib wc high sig n idx ks b es \<longleftrightarrow> (\<exists>r. Decode lib wc ks (string_of b) = Inr r \<and> recorder_rep lib high sig n idx r [es])"

lemma merge_rest_rep:
  assumes "lawful lib high sig n idx" "length fs = length bs" "\<forall>j<length bs. decodes lib wc high sig n idx (keys (i + j)) (bs ! j) (fs ! j)"
    "recorder_rep lib high sig n idx m ess"
  shows "\<exists>m'. merge_rest lib wc keys i bs m = Inr m' \<and> recorder_rep lib high sig n idx m' (ess @ fs)"
  using assms(2-4)
proof (induction bs arbitrary: i m ess fs)
  case (Cons b bs)
  obtain es gs where fs: "fs = es # gs" "length gs = length bs"
    using Cons.prems(1) by (cases fs) auto
  have "decodes lib wc high sig n idx (keys i) b es"
    using Cons.prems(2) fs by force
  then obtain r where r: "Decode lib wc (keys i) (string_of b) = Inr r" "recorder_rep lib high sig n idx r [es]"
    by (auto simp: decodes_def)
  have "decodes lib wc high sig n idx (keys (Suc i + j)) (bs ! j) (gs ! j)" if "j < length bs" for j
    using Cons.prems(2) [rule_format, of "Suc j"] that fs by simp
  moreover have "recorder_rep lib high sig n idx (Recorder_Merge lib r m) (ess @ [es])"
    using Recorder_Merge_rep [OF assms(1) Cons.prems(3) r(2)] by simp
  ultimately show ?case
    using Cons.IH [of gs "Suc i" "Recorder_Merge lib r m" "ess @ [es]"] fs r(1) by simp
qed simp

lemma mergeResults_rep:
  assumes "lawful lib high sig n idx" "re_Histograms res \<noteq> []" "length fs = length (re_Histograms res)"
    "\<forall>j<length (re_Histograms res). decodes lib wc high sig n idx (keys j) (re_Histograms res ! j) (fs ! j)"
  shows "\<exists>m. mergeResults lib wc keys res = Inr (m, fold add_report (re_Reports res) zero_RunReport) \<and> recorder_rep lib high sig n idx m fs"
proof -
  obtain b bs es gs where l: "re_Histograms res = b # bs" "fs = es # gs" "length gs = length bs"
    using assms(2,3) by (cases "re_Histograms res"; cases fs) auto
  obtain r where r: "Decode lib wc (keys 0) (string_of b) = Inr r" "recorder_rep lib high sig n idx r [es]"
    using assms(4) l by (force simp: decodes_def)
  have "\<forall>j<length bs. decodes lib wc high sig n idx (keys (1 + j)) (bs ! j) (gs ! j)"
    using assms(4) l by (metis Suc_less_eq length_Cons nth_Cons_Suc plus_1_eq_Suc)
  from merge_rest_rep [OF assms(1) l(3) this r(2)] show ?thesis
    using l r(1) by (auto simp: mergeResults_def)
qed

lemma fold_add_report:
  assumes "in64 (rn_Total rep)" "in64 (rn_Errors rep)"
  shows "rn_Total (fold add_report wrs rep) = i64 (rn_Total rep + (\<Sum>wr\<leftarrow>wrs. wk_Total wr))"
    "rn_Errors (fold add_report wrs rep) = i64 (rn_Errors rep + (\<Sum>wr\<leftarrow>wrs. wk_Errors wr))"
    "rn_ClientBound (fold add_report wrs rep) = (rn_ClientBound rep \<or> (\<exists>wr\<in>set wrs. wk_ClientBound wr))"
  using assms by (induction wrs arbitrary: rep) (auto simp: add_report_def i64_add_i64 add.assoc)

section \<open>What a driven run records\<close>

definition sample_of :: "measured \<Rightarrow> sample" where
  "sample_of m = (r_Type (me_res m), time_sub (me_done m) (me_intended m), r_Err (me_res m) \<noteq> None)"

lemma fold_Local_Record_rep:
  assumes "lawful lib high sig n idx" "0 \<le> high" "local_rep lib high sig n idx l es" "dp_Record d = Local_Record lib"
  shows "local_rep lib high sig n idx (fold (record_measured d) ms l) (es @ map sample_of ms)"
  using assms(3)
proof (induction ms arbitrary: l es)
  case (Cons m ms)
  have "local_rep lib high sig n idx (record_measured d m l) (es @ [sample_of m])"
    using Local_Record_rep [OF assms(1) Cons.prems assms(2)] by (simp add: record_measured_def assms(4) sample_of_def)
  from Cons.IH [OF this] show ?case
    by simp
qed simp

lemma errs_samples: "errs (map sample_of ms) = int (length (filter (\<lambda>m. r_Err (me_res m) \<noteq> None) ms))"
  by (induction ms) (auto simp: errs_def sample_of_def)

lemma drive_recorder_rep:
  fixes rec :: "'h Recorder" and lib :: "'h hist_lib"
  defines "rec \<equiv> metrics_New \<lparr>mo_SignificantFigures = 0, mo_MaxLatency = 0\<rparr>"
  assumes "lawful lib (rd_high rec) (rd_sig rec) n idx" "d = drive_deps lib zipf dv obs pp factory start" "run_inv d warmupEnd (ce, sh, wks)"
  shows "recorder_rep lib (rd_high rec) (rd_sig rec) n idx (drive_recorder wks) (map (\<lambda>wk. map sample_of (wk_log wk)) wks)"
proof -
  have high: "0 \<le> rd_high rec"
    using metrics_New_range(1) [of "\<lparr>mo_SignificantFigures = 0, mo_MaxLatency = 0\<rparr>", where ?'a = 'h] by (simp add: rec_def)
  have d: "dp_Record d = Local_Record lib" "measureSink d i = Some (newLocal lib (rd_high rec) (rd_sig rec))" for i
    by (simp_all add: assms(3) drive_deps_def Let_def measureSink_def rec_def)
  have "local_rep lib (rd_high rec) (rd_sig rec) n idx (the (wk_sink (wks ! i))) (map sample_of (wk_log (wks ! i)))" if "i < length wks" for i
  proof -
    have "wk_sink (wks ! i) = Some (fold (record_measured d) (wk_log (wks ! i)) (newLocal lib (rd_high rec) (rd_sig rec)))"
      using assms(4) that by (simp add: wk_inv_def d)
    thus ?thesis
      using fold_Local_Record_rep [OF assms(2) high newLocal_rep [OF assms(2)] d(1)] by simp
  qed
  thus ?thesis
    by (simp add: recorder_rep_def drive_recorder_def list_all2_conv_all_nth rec_def)
qed

section \<open>A small driven run\<close>

definition demo_kv :: Workload where
  "demo_kv = \<lparr>w_Name = ''kv'', w_Mode = ''correctness'', w_Operations = [\<lparr>os_Type = ''read'', os_Weight = 1\<rparr>, \<lparr>os_Type = ''insert'', os_Weight = 2\<rparr>],
     w_KeySpace = 5, w_KeyDist = ''sequential'', w_ValueSize = 3, w_VerifyModel = [], w_Params = Map.empty\<rparr>"

definition demo_pp :: "unit driveParams" where
  "demo_pp = \<lparr>dr_workload = demo_kv, dr_cfg = \<lparr>cfg_Endpoints = [], cfg_Consistency = [],
       cfg_Cluster = \<lparr>cs_Nodes = [], cs_ReplicationFactor = 1, cs_Consistency = []\<rparr>, cfg_Params = Map.empty\<rparr>,
     dr_rate = \<lparr>rs_Mode = [], rs_OpsPerSec = 0\<rparr>, dr_connections = 1, dr_warmup = 0, dr_duration = 100, dr_seed = 42, dr_workerID = 0,
     dr_workerCount = 1, dr_startAt = None, dr_observer = None, dr_testType = TestBenchmark\<rparr>"

definition demo_zipf :: zipf where
  "demo_zipf s imax r = (0, r)"

definition demo_drive :: "Factory \<Rightarrow> (nat, nat list, Scheduler, generator, int list Local, unit) Deps" where
  "demo_drive f = drive_deps demo_lib demo_zipf demo_driver (\<lambda>_ _ _ _ u. u) demo_pp f 0"

lemma demo_factory: "\<exists>f op g'. drive_factory demo_pp = Inr f \<and> generator_Next demo_zipf (Factory_Generator f 0) = Some (op, g')"
proof -
  obtain f where f: "New demo_kv 42 0 1 = Inr f"
    by (simp add: demo_kv_def New_def partition_keys_def paramBool_def i64_def sdiv_nonneg)
  have "gen_ok demo_zipf (Suc 0) f (Factory_Generator f 0)"
    using New_Inr [OF f] by (intro Factory_Generator_ok) (auto simp: demo_kv_def in64_def zipf_bounded_def demo_zipf_def)
  from generator_Next_ok [OF this] f show ?thesis
    by (auto simp: drive_factory_def demo_pp_def)
qed

lemma demo_drive_run:
  assumes "generator_Next demo_zipf (Factory_Generator f 0) = Some (op, g')"
  shows "\<exists>sh wk. (rstep (demo_drive f) demo_driver (\<lambda>now s. the (sched_Next now s)) 0 100)\<^sup>*\<^sup>*
      (run_init (demo_drive f) (\<lambda>i. Factory_Generator f (int i)) (buildScheduler 0 TestBenchmark (dr_rate demo_pp) 100) None 0 [0] [0]) (None, sh, [wk]) \<and>
    wk_pc wk = Exited \<and> length (wk_log wk) = 1 \<and> r_Type (me_res (hd (wk_log wk))) = op_Type op"
proof -
  have "\<exists>sh wk. rnexts (demo_drive f) demo_driver (\<lambda>now s. the (sched_Next now s)) 0 100
       (replicate 4 (Work 0) @ [Tick 3] @ replicate 2 (Work 0) @ [Tick 7] @ replicate 9 (Work 0) @ [Tick 100, Deadline] @ replicate 2 (Work 0))
      (run_init (demo_drive f) (\<lambda>i. Factory_Generator f (int i)) (buildScheduler 0 TestBenchmark (dr_rate demo_pp) 100) None 0 [0] [0]) = Some (None, sh, [wk]) \<and>
    wk_pc wk = Exited \<and> length (wk_log wk) = 1 \<and> r_Type (me_res (hd (wk_log wk))) = op_Type op"
    by (simp add: demo_drive_def drive_deps_def buildScheduler_def NewClosedLoop_def closedLoop_Next_def demo_driver_def demo_pp_def run_init_def
        new_worker_def measureSink_def measureObserver_def numeral_eq_Suc wnext_def time_sub_def observe_def after_update_def
        acc_actions_def atomicMin_def atomicMax_def acc0_def assms Let_def)
  thus ?thesis
    using rnexts_sound by blast
qed

section \<open>Properties\<close>

text \<open>C29: the distributed result is lossless. When each worker's histogram encodes a recorder that holds the
  samples of its shard, merging succeeds in any map order; the merged recorder holds exactly the samples of
  all workers, so its total is the sum of theirs, and the tallies of the report are the sums of the workers' tallies.\<close>

theorem mergeResults_lossless:
  assumes "lawful lib high sig n idx" "0 \<le> high" "hist_codec lib" "envelope_codec wc" "1 \<le> sig" "sig \<le> 5" "ws \<noteq> []"
    "length ws = length (re_Histograms res)"
    "\<forall>i<length ws. recorder_rep lib high sig n idx (fst (ws ! i)) (snd (ws ! i)) \<and>
       order_of (mg_byOp (collect lib (fst (ws ! i)))) (keys i) \<and>
       (\<exists>ks. order_of (mg_byOp (collect lib (fst (ws ! i)))) ks \<and> Encode lib wc ks (fst (ws ! i)) = Inr (string_of (re_Histograms res ! i)))"
  shows "\<exists>m rep. mergeResults lib wc keys res = Inr (m, rep) \<and>
    recorder_rep lib high sig n idx m (map (\<lambda>w. concat (snd w)) ws) \<and>
    rr_Total (Snapshot lib phase dur m) = (\<Sum>w\<leftarrow>ws. int (length (concat (snd w)))) \<and>
    rr_Errors (Snapshot lib phase dur m) = (\<Sum>w\<leftarrow>ws. errs (concat (snd w))) \<and>
    rn_Total rep = i64 (\<Sum>wr\<leftarrow>re_Reports res. wk_Total wr) \<and> rn_Errors rep = i64 (\<Sum>wr\<leftarrow>re_Reports res. wk_Errors wr) \<and>
    (rn_ClientBound rep \<longleftrightarrow> (\<exists>wr\<in>set (re_Reports res). wk_ClientBound wr))"
proof -
  let ?fs = "map (\<lambda>w. concat (snd w)) ws" and ?rep = "fold add_report (re_Reports res) zero_RunReport"
  have "decodes lib wc high sig n idx (keys i) (re_Histograms res ! i) (?fs ! i)" if "i < length (re_Histograms res)" for i
  proof -
    have i: "i < length ws"
      using that assms(8) by simp
    obtain ks where ks: "recorder_rep lib high sig n idx (fst (ws ! i)) (snd (ws ! i))" "order_of (mg_byOp (collect lib (fst (ws ! i)))) (keys i)"
        "order_of (mg_byOp (collect lib (fst (ws ! i)))) ks" "Encode lib wc ks (fst (ws ! i)) = Inr (string_of (re_Histograms res ! i))"
      using assms(9) i by blast
    from Decode_Encode [OF assms(3,4) ks(1) assms(1,5,6) ks(3,2,4)] i show ?thesis
      by (simp add: decodes_def)
  qed
  moreover have "re_Histograms res \<noteq> []"
    using assms(7,8) by auto
  ultimately obtain m where m: "mergeResults lib wc keys res = Inr (m, ?rep)" "recorder_rep lib high sig n idx m ?fs"
    using mergeResults_rep [OF assms(1), of res ?fs wc keys] assms(7,8) by auto
  note D = hists_repD [OF collect_rep [OF assms(1) m(2)]]
  have "rr_Total (Snapshot lib phase dur m) = int (length (concat ?fs))" "rr_Errors (Snapshot lib phase dur m) = errs (concat ?fs)"
    using total_count [OF assms(1) D(1) assms(2)] D(5) by (simp_all add: Snapshot_def Let_def)
  moreover have "int (length (concat ?fs)) = (\<Sum>w\<leftarrow>ws. int (length (concat (snd w))))" "errs (concat ?fs) = (\<Sum>w\<leftarrow>ws. errs (concat (snd w)))"
    by (induction ws) (simp_all add: errs_def)
  moreover have "in64 (rn_Total zero_RunReport)" "in64 (rn_Errors zero_RunReport)"
    by (simp_all add: zero_RunReport_def)
  note fold_add_report [OF this, of "re_Reports res"]
  ultimately show ?thesis
    using m by (intro exI [of _ m] exI [of _ ?rep]) (simp add: zero_RunReport_def)
qed

theorem mergeResults_lossless_witness:
  "\<exists>m rep. mergeResults demo_lib demo_wire (\<lambda>_. [''r''])
      \<lparr>re_Reports = [\<lparr>wk_WorkerID = 0, wk_Total = 1, wk_Errors = 1, wk_ClientBound = False\<rparr>, \<lparr>wk_WorkerID = 1, wk_Total = 1, wk_Errors = 1, wk_ClientBound = True\<rparr>],
       re_Histograms = [bytes_of ''env'', bytes_of ''env'']\<rparr> = Inr (m, rep) \<and>
     rr_Total (Snapshot demo_lib ''measure'' second m) = 2 \<and> rn_Total rep = 2 \<and> rn_ClientBound rep"
proof -
  let ?res = "\<lparr>re_Reports = [\<lparr>wk_WorkerID = 0, wk_Total = 1, wk_Errors = 1, wk_ClientBound = False\<rparr>, \<lparr>wk_WorkerID = 1, wk_Total = 1, wk_Errors = 1, wk_ClientBound = True\<rparr>],
       re_Histograms = [bytes_of ''env'', bytes_of ''env'']\<rparr>" and ?w = "(demo_recorder, [[(''r'', 5, True)]])"
  have nth: "[x, x] ! i = x" if "i < 2" for x :: 'x and i
    using that by (cases i) auto
  have "\<forall>i<length [?w, ?w]. recorder_rep demo_lib (60 * second) 3 2 demo_idx (fst ([?w, ?w] ! i)) (snd ([?w, ?w] ! i)) \<and>
      order_of (mg_byOp (collect demo_lib (fst ([?w, ?w] ! i)))) [''r''] \<and>
      (\<exists>ks. order_of (mg_byOp (collect demo_lib (fst ([?w, ?w] ! i)))) ks \<and>
        Encode demo_lib demo_wire ks (fst ([?w, ?w] ! i)) = Inr (string_of (re_Histograms ?res ! i)))"
    using demo_rep demo_order demo_Encode by (auto simp: nth)
  from mergeResults_lossless [OF demo_lawful _ demo_hist_codec demo_envelope_codec _ _ _ _ this, of "''measure''" second] show ?thesis
    by (auto simp: second_def in64_def)
qed

text \<open>C30: the summary agrees with the report. After a driven run the recorder and the runner, which count on
  separate paths, have the same total and the same errors, and the count of every operation type is the
  number of measured operations of that type.\<close>

theorem drive_summary_agrees:
  assumes "lawful lib defaultMaxLatency defaultSigFigs n idx" "d = drive_deps lib zipf dv obs pp factory start"
    "(rstep d dv nxt warmupEnd measureEnd)\<^sup>*\<^sup>* (run_init d gen s0 ce0 base conns w) (ce, sh, wks)"
    "\<forall>wk\<in>set wks. wk_pc wk = Exited" "in64 (int (length (concat (map wk_log wks))))"
  shows "let rep = runner_report (sh_now sh) warmupEnd (drive_options pp) (sh_acc sh); s = run_summary lib rid rep (drive_recorder wks);
             ms = concat (map wk_log wks)
    in rr_Total s = rn_Total rep \<and> rr_Errors s = rn_Errors rep \<and> rr_ClientBound s = rn_ClientBound rep \<and>
       (\<forall>op. (case rr_ByOp s op of None \<Rightarrow> 0 | Some p \<Rightarrow> pc_Count p) = int (length (filter (\<lambda>m. r_Type (me_res m) = op) ms)))"
proof -
  let ?ms = "concat (map wk_log wks)" and ?ess = "map (\<lambda>wk. map sample_of (wk_log wk)) wks"
  note inv = run_invD [OF assms(3)]
  have rec: "rd_high (metrics_New \<lparr>mo_SignificantFigures = 0, mo_MaxLatency = 0\<rparr> :: 'a Recorder) = defaultMaxLatency"
    "rd_sig (metrics_New \<lparr>mo_SignificantFigures = 0, mo_MaxLatency = 0\<rparr> :: 'a Recorder) = defaultSigFigs"
    by (simp_all add: metrics_New_def)
  have rep: "recorder_rep lib defaultMaxLatency defaultSigFigs n idx (drive_recorder wks) ?ess"
    using drive_recorder_rep [OF _ assms(2) inv, of n idx] assms(1) by (simp add: rec)
  note D = hists_repD [OF collect_rep [OF assms(1) rep]]
  have high: "0 \<le> defaultMaxLatency"
    by (simp add: defaultMaxLatency_def second_def)
  have cat: "concat ?ess = map sample_of ?ms"
    by (simp add: map_concat o_def)
  have "sh_acc sh = acc_of ?ms"
    using acc_exited [OF inv] assms(4) by (simp add: pend_def)
  moreover have "in64 (int (length (filter (\<lambda>m. r_Err (me_res m) \<noteq> None) ?ms)))"
    using assms(5) length_filter_le [of "\<lambda>m. r_Err (me_res m) \<noteq> None" ?ms] unfolding in64_def by linarith
  ultimately have acc: "ac_total (sh_acc sh) = int (length ?ms)" "ac_errors (sh_acc sh) = int (length (filter (\<lambda>m. r_Err (me_res m) \<noteq> None) ?ms))"
    using assms(5) by (simp_all add: acc_of_def)
  have byop: "(case rr_ByOp (run_summary lib rid rp (drive_recorder wks)) op of None \<Rightarrow> 0 | Some p \<Rightarrow> pc_Count p) =
      int (length (filter (\<lambda>m. r_Type (me_res m) = op) ?ms))" for op rp
  proof -
    have len: "length (samples op (map sample_of ms)) = length (filter (\<lambda>m. r_Type (me_res m) = op) ms)" for ms
      by (induction ms) (auto simp: samples_def sample_of_def)
    have bo: "rr_ByOp (run_summary lib rid rp (drive_recorder wks)) op = map_option (toPercentiles lib) (mg_byOp (collect lib (drive_recorder wks)) op)"
      by (simp add: run_summary_def Let_def Snapshot_def)
    show ?thesis
    proof (cases "mg_byOp (collect lib (drive_recorder wks)) op")
      case None
      thus ?thesis
        using D(2) [of op] by (simp only: bo cat) (simp flip: len)
    next
      case (Some h)
      thus ?thesis
        using total_count [OF assms(1) D(3) [OF Some] high] by (simp only: bo cat) (simp add: toPercentiles_def flip: len)
    qed
  qed
  have tot: "rr_Total (run_summary lib rid rp (drive_recorder wks)) = int (length ?ms)"
    "rr_Errors (run_summary lib rid rp (drive_recorder wks)) = int (length (filter (\<lambda>m. r_Err (me_res m) \<noteq> None) ?ms))" for rp
    using total_count [OF assms(1) D(1) high] D(5) unfolding cat errs_samples by (simp_all add: run_summary_def Let_def Snapshot_def)
  have "rn_Total (runner_report (sh_now sh) warmupEnd (drive_options pp) (sh_acc sh)) = int (length ?ms)"
    "rn_Errors (runner_report (sh_now sh) warmupEnd (drive_options pp) (sh_acc sh)) = int (length (filter (\<lambda>m. r_Err (me_res m) \<noteq> None) ?ms))"
    by (simp_all add: runner_report_def Let_def acc zero_RunReport_def)
  thus ?thesis
    using byop tot by (simp add: Let_def) (simp add: run_summary_def Let_def)
qed

theorem drive_summary_agrees_witness:
  "\<exists>f sh wks. (rstep (demo_drive f) demo_driver (\<lambda>now s. the (sched_Next now s)) 0 100)\<^sup>*\<^sup>*
      (run_init (demo_drive f) (\<lambda>i. Factory_Generator f (int i)) (buildScheduler 0 TestBenchmark (dr_rate demo_pp) 100) None 0 [0] [0]) (None, sh, wks) \<and>
    length (concat (map wk_log wks)) = 1 \<and>
    (let rep = runner_report (sh_now sh) 0 (drive_options demo_pp) (sh_acc sh) in rr_Total (run_summary demo_lib ''r1'' rep (drive_recorder wks)) = rn_Total rep)"
proof -
  obtain f op g' where f: "generator_Next demo_zipf (Factory_Generator f 0) = Some (op, g')"
    using demo_factory by blast
  then obtain sh wk where r: "(rstep (demo_drive f) demo_driver (\<lambda>now s. the (sched_Next now s)) 0 100)\<^sup>*\<^sup>*
      (run_init (demo_drive f) (\<lambda>i. Factory_Generator f (int i)) (buildScheduler 0 TestBenchmark (dr_rate demo_pp) 100) None 0 [0] [0]) (None, sh, [wk])"
      "wk_pc wk = Exited" "length (wk_log wk) = 1"
    using demo_drive_run by blast
  have "lawful demo_lib defaultMaxLatency defaultSigFigs 2 demo_idx"
    by (rule demo_lawful)
  from drive_summary_agrees [OF this demo_drive_def r(1), of "''r1''"] r show ?thesis
    by (intro exI [of _ f] exI [of _ sh] exI [of _ "[wk]"]) (simp add: Let_def in64_def)
qed

end
