(* ===== verification/Cli_Run.thy ===== *)
theory Cli_Run
  imports Cli
begin

text \<open>
  \<open>doRun\<close> of \<open>core/cli\<close>: the \<open>run\<close> command from the assets to the report, with its deferred clean-up. The calls
  that are modelled in the other theories are used as they are; the driver's schema, the load itself, the coordinator
  and the writing of artifacts are operations on the world. A deferred call is applied on every path that leaves
  the function after it was deferred, the last deferred first.
\<close>

section \<open>Definitions\<close>

text \<open>What \<open>fs.WalkDir\<close> hands to its callback for one entry of the embedded assets.\<close>

record asset_entry =
  ae_path :: string
  ae_isDir :: bool
  ae_err :: "err option"

text \<open>\<open>ro_drive\<close> returns the fault runner as \<open>drive\<close> left it; \<open>ro_nemStop\<close> waits for the fault scheduler and gives its timeline.\<close>

record ('w, 'r) run_ops =
  ro_name :: string
  ro_mkdirTemp :: "string \<Rightarrow> 'w \<Rightarrow> (err + string) \<times> 'w"
  ro_assets :: "asset_entry list"
  ro_mkdirAll :: "string \<Rightarrow> 'w \<Rightarrow> err option \<times> 'w"
  ro_copyFile :: "string \<Rightarrow> string \<Rightarrow> 'w \<Rightarrow> err option \<times> 'w"
  ro_removeAll :: "string \<Rightarrow> 'w \<Rightarrow> 'w"
  ro_resolve :: "ResolveOptions \<Rightarrow> err + Resolved"
  ro_get :: "string \<Rightarrow> err + 'w Provisioner"
  ro_fileExists :: "string \<Rightarrow> bool"
  ro_schema :: "Config \<Rightarrow> Workload \<Rightarrow> 'w \<Rightarrow> err option \<times> 'w"
  ro_coordinate :: "Resolved \<Rightarrow> 'w \<Rightarrow> err option \<times> 'w"
  ro_verify :: "'w verify_env"
  ro_loadFaults :: "string \<Rightarrow> err + faultDTO list"
  ro_stat :: "string \<Rightarrow> err option"
  ro_drive :: "Resolved \<Rightarrow> verification \<Rightarrow> TestType \<Rightarrow> nemesisRun \<Rightarrow> 'w \<Rightarrow> (err + 'r) \<times> nemesisRun \<times> 'w"
  ro_nemStop :: "nemesisRun \<Rightarrow> 'w \<Rightarrow> nemesis_Event list \<times> 'w"
  ro_artifacts :: "Resolved \<Rightarrow> 'r \<Rightarrow> 'w \<Rightarrow> (err + Paths) \<times> 'w"
  ro_writeVerify :: "Paths \<Rightarrow> VerifyReport \<Rightarrow> 'w \<Rightarrow> err option \<times> 'w"
  ro_finish :: "Resolved \<Rightarrow> 'r \<Rightarrow> Paths \<Rightarrow> VerifyReport option \<Rightarrow> nemesisRun \<Rightarrow> 'w \<Rightarrow> 'w"

fun walk_assets :: "('w, 'r) run_ops \<Rightarrow> string \<Rightarrow> asset_entry list \<Rightarrow> 'w \<Rightarrow> err option \<times> 'w" where
  "walk_assets ops dir [] w = (None, w)"
| "walk_assets ops dir (a # as) w =
     (case ae_err a of
        Some e \<Rightarrow> (Some e, w)
      | None \<Rightarrow>
          (case (if ae_isDir a then ro_mkdirAll ops (path_Join [dir, ae_path a]) w
                 else ro_copyFile ops (ae_path a) (path_Join [dir, ae_path a]) w) of
             (Some e, w1) \<Rightarrow> (Some e, w1)
           | (None, w1) \<Rightarrow> walk_assets ops dir as w1))"

definition materialize :: "('w, 'r) run_ops \<Rightarrow> 'w \<Rightarrow> (err + string) \<times> 'w" where
  "materialize ops w =
     (case ro_mkdirTemp ops ''proofload-assets-'' w of
        (Inl e, w1) \<Rightarrow> (Inl e, w1)
      | (Inr dir, w1) \<Rightarrow>
          (case walk_assets ops dir (ro_assets ops) w1 of
             (Some e, w2) \<Rightarrow> (Inl e, ro_removeAll ops dir w2)
           | (None, w2) \<Rightarrow> (Inr dir, w2)))"

definition stop_faults :: "('w, 'r) run_ops \<Rightarrow> nemesisRun \<Rightarrow> 'w \<Rightarrow> nemesisRun \<times> 'w" where
  "stop_faults ops n w =
     (if \<not> nr_started n \<or> nr_stopped n then (n, w)
      else let (events, w1) = ro_nemStop ops n w in (nem_stop events n, w1))"

text \<open>After the load: stop the faults, write the artifacts, verify, report.\<close>

definition run_tail :: "('w, 'r) run_ops \<Rightarrow> Resolved \<Rightarrow> verification \<Rightarrow> 'r \<Rightarrow> nemesisRun \<Rightarrow> 'w \<Rightarrow> (err option \<times> 'w) option" where
  "run_tail ops r ver res n w =
     (case ro_artifacts ops r res w of
        (Inl e, w1) \<Rightarrow> Some (Some e, w1)
      | (Inr p, w1) \<Rightarrow>
          (case ver_run (ro_verify ops) (ro_name ops) ver r w1 of
             None \<Rightarrow> None
           | Some (Inl e, w2) \<Rightarrow> Some (Some (''verify: '' @ e), w2)
           | Some (Inr vr, w2) \<Rightarrow>
               (case vr of
                  None \<Rightarrow> Some (None, ro_finish ops r res p vr n w2)
                | Some v \<Rightarrow>
                    (case ro_writeVerify ops p v w2 of
                       (Some e, w3) \<Rightarrow> Some (Some (''write verify: '' @ e), w3)
                     | (None, w3) \<Rightarrow> Some (None, ro_finish ops r res p vr n w3)))))"

definition run_load :: "('w, 'r) run_ops \<Rightarrow> runFlags \<Rightarrow> Resolved \<Rightarrow> TestType \<Rightarrow> verification \<Rightarrow> 'w \<Rightarrow> (err option \<times> 'w) option" where
  "run_load ops f r tt ver w =
     (case newNemesis (ro_loadFaults ops) (ro_stat ops) f (ro_name ops) r of
        Inl e \<Rightarrow> Some (Some e, w)
      | Inr n \<Rightarrow>
          (case ro_drive ops r ver tt n w of
             (Inl e, n1, w1) \<Rightarrow> Some (Some e, snd (stop_faults ops n1 w1))
           | (Inr res, n1, w1) \<Rightarrow>
               (let (n2, w2) = stop_faults ops n1 w1
                in case run_tail ops r ver res n2 w2 of
                     None \<Rightarrow> None
                   | Some (e, w3) \<Rightarrow> Some (e, snd (stop_faults ops n2 w3)))))"

definition run_single :: "('w, 'r) run_ops \<Rightarrow> runFlags \<Rightarrow> Resolved \<Rightarrow> TestType \<Rightarrow> 'w \<Rightarrow> (err option \<times> 'w) option" where
  "run_single ops f r tt w =
     (case ro_schema ops (re_Driver r) (re_Workload r) w of
        (Some e, w1) \<Rightarrow> Some (Some (''apply schema: '' @ e), w1)
      | (None, w1) \<Rightarrow>
          (case newVerification (ro_verify ops) (resolveVerifyModel f (re_Workload r)) r w1 of
             (Inl e, w2) \<Rightarrow> Some (Some e, w2)
           | (Inr ver, w2) \<Rightarrow>
               (case run_load ops f r tt ver w2 of
                  None \<Rightarrow> None
                | Some (e, w3) \<Rightarrow> Some (e, ver_cleanup (ro_verify ops) ver w3))))"

definition run_provisioned :: "('w, 'r) run_ops \<Rightarrow> runFlags \<Rightarrow> Resolved \<Rightarrow> 'w \<Rightarrow> (err option \<times> 'w) option" where
  "run_provisioned ops f r w =
     (let r1 = r\<lparr>re_Manifest := (re_Manifest r)\<lparr>m_Seed := rf_seed f\<rparr>\<rparr>
      in case resolveTestType f of
           Inl e \<Rightarrow> Some (Some e, w)
         | Inr tt \<Rightarrow>
             (let r2 = r1\<lparr>re_Manifest := (re_Manifest r1)\<lparr>m_TestType := tt\<rparr>\<rparr>
              in if rf_workers f > 0 then Some (ro_coordinate ops r2 w) else run_single ops f r2 tt w))"

definition doRun :: "('w, 'r) run_ops \<Rightarrow> string set \<Rightarrow> runFlags \<Rightarrow> 'w \<Rightarrow> (err option \<times> 'w) option" where
  "doRun ops changed f w =
     (case materialize ops w of
        (Inl e, w1) \<Rightarrow> Some (Some (''load assets: '' @ e), w1)
      | (Inr dir, w1) \<Rightarrow>
          (case ro_resolve ops \<lparr>rv_GlobalPath = '''', rv_TargetPath = path_Join [dir, ''target.yaml''],
                 rv_WorkloadPath = path_Join [dir, ''workloads'', rf_workload f @ ''.yaml''], rv_Endpoints = [], rv_Consistency = '''',
                 rv_Overrides = overrides changed f\<rparr> of
             Inl e \<Rightarrow> Some (Some (''resolve config: '' @ e), ro_removeAll ops dir w1)
           | Inr r \<Rightarrow>
               (case with_endpoints (ro_get ops) (ro_fileExists ops) f (ro_name ops) r (run_provisioned ops f) w1 of
                  None \<Rightarrow> None
                | Some (e, w2) \<Rightarrow> Some (e, ro_removeAll ops dir w2))))"

section \<open>Resources\<close>

datatype resource = AssetDir string | ClusterUp Topology | Recording string | OpenConn | ActiveFaults

text \<open>Which resources are held in a world, and what each call does to them.\<close>

text \<open>The read-back opens one connection and closes it on every path that leaves \<open>Reconcile\<close>.\<close>

definition target_tracks :: "'w target_env \<Rightarrow> ('w \<Rightarrow> resource multiset) \<Rightarrow> bool" where
  "target_tracks t hold \<longleftrightarrow>
     (\<forall>w. hold (snd (te_Connect t w)) = (if fst (te_Connect t w) = None then add_mset OpenConn (hold w) else hold w)) \<and>
     (\<forall>w. hold (te_Close t w) = hold w - {#OpenConn#}) \<and>
     (\<forall>wl w. hold (snd (te_Prepare t wl w)) = hold w) \<and> (\<forall>op w. hold (snd (te_Execute t op w)) = hold w) \<and>
     (\<forall>n k w. hold (snd (te_ReadKeyFrom t n k w)) = hold w) \<and> (\<forall>w. hold (snd (te_Now t w)) = hold w) \<and>
     (\<forall>w. hold (snd (te_Poll t w)) = hold w)"

definition verify_tracks :: "'w verify_env \<Rightarrow> ('w \<Rightarrow> resource multiset) \<Rightarrow> bool" where
  "verify_tracks e hold \<longleftrightarrow>
     (\<forall>pat w. hold (snd (ve_CreateTemp e pat w)) =
        (case fst (ve_CreateTemp e pat w) of Inl _ \<Rightarrow> hold w | Inr p \<Rightarrow> add_mset (Recording p) (hold w))) \<and>
     (\<forall>pat w p. fst (ve_CreateTemp e pat w) = Inr p \<longrightarrow> p \<noteq> '''' \<and> Recording (p @ ''.edn'') \<notin># hold w) \<and>
     (\<forall>p w. hold (snd (ve_CloseTemp e p w)) = hold w) \<and> (\<forall>p w. hold (snd (ve_OpenWriter e p w)) = hold w) \<and>
     (\<forall>p w. hold (snd (ve_CloseWriter e p w)) = hold w) \<and>
     (\<forall>p ls w. hold (snd (ve_WriteLines e p ls w)) \<in> {hold w, add_mset (Recording p) (hold w)}) \<and>
     (\<forall>p w. hold (ve_Remove e p w) = hold w - {#Recording p#}) \<and>
     (\<forall>m g w. ve_native e = Some (m, g) \<longrightarrow> hold (snd (g w)) = hold w) \<and>
     target_tracks (ve_target e) hold"

definition ops_track :: "('w, 'r) run_ops \<Rightarrow> ('w \<Rightarrow> resource multiset) \<Rightarrow> bool" where
  "ops_track ops hold \<longleftrightarrow> verify_tracks (ro_verify ops) hold \<and>
     (\<forall>pat w. hold (snd (ro_mkdirTemp ops pat w)) =
        (case fst (ro_mkdirTemp ops pat w) of Inl _ \<Rightarrow> hold w | Inr d \<Rightarrow> add_mset (AssetDir d) (hold w))) \<and>
     (\<forall>p w. hold (snd (ro_mkdirAll ops p w)) = hold w) \<and> (\<forall>s p w. hold (snd (ro_copyFile ops s p w)) = hold w) \<and>
     (\<forall>d w. hold (ro_removeAll ops d w) = hold w - {#AssetDir d#}) \<and>
     (\<forall>b p t w. ro_get ops b = Inr p \<longrightarrow>
        (\<forall>ru w1. pv_Up p t w = Some (ru, w1) \<longrightarrow>
           (case ru of Inl _ \<Rightarrow> hold w1 \<in> {hold w, add_mset (ClusterUp t) (hold w)} | Inr _ \<Rightarrow> hold w1 = add_mset (ClusterUp t) (hold w))) \<and>
        hold (snd (pv_Down p t w)) = hold w - {#ClusterUp t#}) \<and>
     (\<forall>c wl w. hold (snd (ro_schema ops c wl w)) = hold w) \<and> (\<forall>r w. hold (snd (ro_coordinate ops r w)) = hold w) \<and>
     (\<forall>r v tt n w. let (res, n', w') = ro_drive ops r v tt n w
        in hold w' = hold w + (if nr_started n' \<and> \<not> nr_stopped n' then {#ActiveFaults#} else {#})) \<and>
     (\<forall>n w. hold (snd (ro_nemStop ops n w)) = hold w - {#ActiveFaults#}) \<and>
     (\<forall>r res w. hold (snd (ro_artifacts ops r res w)) = hold w) \<and> (\<forall>p v w. hold (snd (ro_writeVerify ops p v w)) = hold w) \<and>
     (\<forall>r res p v n w. hold (ro_finish ops r res p v n w) = hold w)"

text \<open>A provisioner whose failed \<open>Up\<close> leaves nothing running and whose clusters have a client endpoint. \<open>ensureEndpoints\<close>
  relies on it: it does not tear down in these two cases.\<close>

definition clean_up :: "('w, 'r) run_ops \<Rightarrow> ('w \<Rightarrow> resource multiset) \<Rightarrow> bool" where
  "clean_up ops hold \<longleftrightarrow>
     (\<forall>b p t w. ro_get ops b = Inr p \<longrightarrow>
        (\<forall>e w1. pv_Up p t w = Some (Inl e, w1) \<longrightarrow> hold w1 = hold w) \<and>
        (\<forall>c w1. pv_Up p t w = Some (Inr c, w1) \<longrightarrow> (\<exists>n\<in>set (cs_Nodes c). n_Client n \<noteq> '''')))"

lemma clean_upD:
  assumes "clean_up ops hold" "ro_get ops b = Inr p"
  shows "pv_Up p t w = Some (Inl e, w1) \<Longrightarrow> hold w1 = hold w"
    "pv_Up p t w = Some (Inr c, w1) \<Longrightarrow> filter (\<lambda>c. c \<noteq> '''') (map n_Client (cs_Nodes c)) \<noteq> []"
  using assms unfolding clean_up_def by (metis, force simp: filter_empty_conv)

definition recorded :: "verification \<Rightarrow> bool" where
  "recorded v \<longleftrightarrow> (vf_path v = '''' \<longrightarrow> vf_model v \<notin> {VerifyReconciliation, VerifyRegister, VerifyListAppend})"

lemma target_tracksD:
  assumes "target_tracks t hold"
  shows "te_Connect t w = (er, w1) \<Longrightarrow> hold w1 = (if er = None then add_mset OpenConn (hold w) else hold w)"
    "hold (te_Close t w) = hold w - {#OpenConn#}" "te_Prepare t wl w = (er, w1) \<Longrightarrow> hold w1 = hold w"
    "te_Execute t op w = (res, w1) \<Longrightarrow> hold w1 = hold w" "te_ReadKeyFrom t n k w = (rr, w1) \<Longrightarrow> hold w1 = hold w"
    "te_Now t w = (now, w1) \<Longrightarrow> hold w1 = hold w" "te_Poll t w = (er, w1) \<Longrightarrow> hold w1 = hold w"
  using assms unfolding target_tracks_def by (metis fst_conv snd_conv)+

lemma readBack_hold:
  assumes "target_tracks t hold"
  shows "readBack t expected o1 ks report w = (report', w') \<Longrightarrow> hold w' = hold w"
  by (induction ks arbitrary: report w) (auto dest!: target_tracksD(4) [OF assms] split: prod.splits)

lemma nodesAgree_hold:
  assumes "target_tracks t hold" "nodesAgree t nodes k w = (x, w')"
  shows "hold w' = hold w"
proof -
  have "nodesAgree_loop t k first nodes w = (x, w') \<Longrightarrow> hold w' = hold w" for first
  proof (induction nodes arbitrary: first w)
    case (Cons n ns)
    thus ?case
      by (auto simp: Let_def dest!: target_tracksD(5) [OF assms(1)] split: prod.splits sum.splits option.splits if_splits)
  qed simp
  thus ?thesis
    using assms(2) by (simp add: nodesAgree_def)
qed

lemma since_hold: "target_tracks t hold \<Longrightarrow> since t start w = (d, w') \<Longrightarrow> hold w' = hold w"
  by (auto simp: since_def dest!: target_tracksD(6) split: prod.splits)

lemma convergeKey_loop_hold:
  assumes "target_tracks t hold" "convergeKey_loop t nodes k timeout start w = Some (x, w')"
  shows "hold w' = hold w"
proof -
  note D = nodesAgree_hold since_hold target_tracksD(6,7)
  have "target_tracks t hold \<longrightarrow> hold (snd (x, w')) = hold w"
  proof (rule convergeKey_loop.raw_induct [where P = "\<lambda>t nodes k timeout start w y. target_tracks t hold \<longrightarrow> hold (snd y) = hold w", OF _ assms(2)])
    fix loop t nodes k timeout start w y
    assume IH: "\<And>t nodes k timeout start w y. loop t nodes k timeout start w = Some y \<Longrightarrow> target_tracks t hold \<longrightarrow> hold (snd y) = hold w"
      and eq: "(let (r, s1) = nodesAgree t nodes k w in
          case r of
            Inl e \<Rightarrow> (let (d, s2) = since t start s1 in Some ((False, d, Some e), s2))
          | Inr agree \<Rightarrow>
              if agree then (let (d, s2) = since t start s1 in Some ((True, d, None), s2))
              else if timeout \<le> 0 then (let (d, s2) = since t start s1 in Some ((False, d, None), s2))
              else (let (now, s2) = te_Now t s1 in
                    if \<not> now < start + timeout then (let (d, s3) = since t start s2 in Some ((False, d, None), s3))
                    else (let (p, s3) = te_Poll t s2 in
                          case p of
                            Some e \<Rightarrow> (let (d, s4) = since t start s3 in Some ((False, d, Some e), s4))
                          | None \<Rightarrow> loop t nodes k timeout start s3))) = Some y"
    show "target_tracks t hold \<longrightarrow> hold (snd y) = hold w"
    proof
      assume T: "target_tracks t hold"
      show "hold (snd y) = hold w"
        using eq T
        by (auto dest!: D [OF T] IH split: prod.splits sum.splits if_splits option.splits)
    qed
  qed
  thus ?thesis
    using assms(1) by simp
qed

lemma convergeKey_hold:
  assumes "target_tracks t hold" "convergeKey t nodes k timeout w = Some (x, w')"
  shows "hold w' = hold w"
  using assms(2)
  by (auto simp: convergeKey_def dest!: target_tracksD(6) [OF assms(1)] convergeKey_loop_hold [OF assms(1)] split: prod.splits)

lemma checkConvergence_hold:
  assumes "target_tracks t hold" "checkConvergence t nodes ks o1 report w = Some (x, w')"
  shows "hold w' = hold w"
proof -
  have loop: "converge_loop t nodes timeout ks m report w = Some (m', r', w') \<Longrightarrow> hold w' = hold w" for timeout ks m report w m' r' w'
    by (induction ks arbitrary: m report w) (auto dest!: convergeKey_hold [OF assms(1)] split: option.splits prod.splits)
  show ?thesis
    using assms(2)
    by (auto simp: checkConvergence_def dest!: target_tracksD(6) [OF assms(1)] since_hold [OF assms(1)] loop split: if_splits prod.splits option.splits)
qed

lemma Reconcile_hold:
  assumes "target_tracks t hold" "Reconcile t expected o1 o2 opt w = Some (x, w')"
  shows "hold w' = hold w"
  using assms(2) target_tracksD(2) [OF assms(1)]
  by (auto simp: Reconcile_def Let_def dest!: target_tracksD(1,3) [OF assms(1)] readBack_hold [OF assms(1)] checkConvergence_hold [OF assms(1)]
        split: prod.splits option.splits)

lemma verify_tracksD:
  assumes "verify_tracks e hold"
  shows "ve_CreateTemp e pat w = (r, w1) \<Longrightarrow> hold w1 = (case r of Inl _ \<Rightarrow> hold w | Inr p \<Rightarrow> add_mset (Recording p) (hold w))"
    "ve_CreateTemp e pat w = (Inr p, w1) \<Longrightarrow> p \<noteq> '''' \<and> Recording (p @ ''.edn'') \<notin># hold w"
    "ve_CloseTemp e p w = (er, w1) \<Longrightarrow> hold w1 = hold w" "ve_OpenWriter e p w = (er, w1) \<Longrightarrow> hold w1 = hold w"
    "ve_CloseWriter e p w = (er, w1) \<Longrightarrow> hold w1 = hold w"
    "ve_WriteLines e p ls w = (er, w1) \<Longrightarrow> hold w1 \<in> {hold w, add_mset (Recording p) (hold w)}"
    "hold (ve_Remove e p w) = hold w - {#Recording p#}"
    "ve_native e = Some (m, g) \<Longrightarrow> g w = (rr, w1) \<Longrightarrow> hold w1 = hold w"
    "Reconcile (ve_target e) expected o1 o2 opt w = Some (x, w1) \<Longrightarrow> hold w1 = hold w"
  using assms unfolding verify_tracks_def by (metis fst_conv snd_conv Reconcile_hold)+

lemma ver_run_hold:
  assumes "verify_tracks e hold" "ver_run e nm v r w = Some (x, w')" "recorded v"
  shows "hold w' = hold w \<or> vf_path v \<noteq> '''' \<and> hold w' = add_mset (Recording (vf_path v @ ''.edn'')) (hold w)"
proof -
  note T = verify_tracksD [OF assms(1)]
  consider (none) "vf_model v = VerifyNone" | (native) g where "vf_model v \<noteq> VerifyNone" "ve_native e = Some (vf_model v, g)"
    | (other) "vf_model v \<noteq> VerifyNone" "\<forall>g. ve_native e \<noteq> Some (vf_model v, g)"
    by blast
  thus ?thesis
  proof cases
    case none
    thus ?thesis
      using assms(2) by (simp add: ver_run_def)
  next
    case native
    thus ?thesis
      using assms(2) T(8) [OF native(2), of w] by (auto simp: ver_run_def split: prod.splits sum.splits)
  next
    case other
    hence "(case ve_native e of None \<Rightarrow> None | Some (m, f) \<Rightarrow> if m = vf_model v then Some f else None) = None"
      by (auto split: option.splits)
    hence run: "(if vf_model v = VerifyReconciliation then cli_reconcile e v r w
        else if vf_model v = VerifyRegister then Some (checkRegister e v w)
        else if vf_model v = VerifyListAppend then Some (checkListAppend e v w)
        else Some (Inr (Some ((new_report (vf_model v) VerdictUnknown)\<lparr>vr_Anomalies :=
               [\<lparr>an_Kind = ''unsupported'', an_Detail = ''no checker available for model '' @ vf_model v @ '' on target '' @ nm,
                 an_Witness = []\<rparr>]\<rparr>)), w)) = Some (x, w')"
      using assms(2) other(1) by (simp add: ver_run_def)
    have "cli_reconcile e v r w = Some (x, w') \<Longrightarrow> hold w' = hold w"
      by (auto simp: cli_reconcile_def Let_def dest!: T(5,9) split: prod.splits option.splits sum.splits)
    moreover have "checkRegister e v w = (x, w') \<Longrightarrow> hold w' = hold w"
      by (auto simp: checkRegister_def dest!: T(5) split: prod.splits option.splits sum.splits)
    moreover have "checkListAppend e v w = (x, w') \<Longrightarrow> hold w' \<in> {hold w, add_mset (Recording (vf_path v @ ''.edn'')) (hold w)}"
      by (auto simp: checkListAppend_def Let_def dest!: T(5,6) split: prod.splits option.splits sum.splits)
    ultimately show ?thesis
      using run assms(3) by (auto simp: recorded_def split: if_splits)
  qed
qed

lemma open_recording_hold:
  assumes "verify_tracks e hold" "open_recording e pat mk w = (x, w')"
    "\<forall>p w. fst (ve_CloseTemp e p w) = None" "\<forall>p w. fst (ve_OpenWriter e p w) = None"
  shows "case x of Inl _ \<Rightarrow> hold w' = hold w
    | Inr v \<Rightarrow> \<exists>p. v = mk p \<and> p \<noteq> '''' \<and> hold w' = add_mset (Recording p) (hold w) \<and> Recording (p @ ''.edn'') \<notin># hold w"
proof -
  note T = verify_tracksD [OF assms(1)]
  obtain r w1 where c: "ve_CreateTemp e pat w = (r, w1)"
    by (cases "ve_CreateTemp e pat w")
  show ?thesis
  proof (cases r)
    case (Inl er)
    thus ?thesis
      using assms(2) c T(1) [OF c] by (auto simp: open_recording_def tempFile_def)
  next
    case (Inr p)
    obtain w2 where w2: "ve_CloseTemp e p w1 = (None, w2)"
      using assms(3) by (metis prod.collapse)
    obtain w3 where w3: "ve_OpenWriter e p w2 = (None, w3)"
      using assms(4) by (metis prod.collapse)
    have "x = Inr (mk p)" "w' = w3"
      using assms(2) c Inr w2 w3 by (auto simp: open_recording_def tempFile_def)
    thus ?thesis
      using T(1) [OF c] T(2) [OF c [unfolded Inr]] T(3) [OF w2] T(4) [OF w3] Inr by auto
  qed
qed

lemma newVerification_hold:
  assumes "verify_tracks e hold" "newVerification e model r w = (x, w')"
    "\<forall>p w. fst (ve_CloseTemp e p w) = None" "\<forall>p w. fst (ve_OpenWriter e p w) = None"
  shows "case x of Inl _ \<Rightarrow> hold w' = hold w
    | Inr v \<Rightarrow> recorded v \<and> (if vf_path v = '''' then hold w' = hold w
        else hold w' = add_mset (Recording (vf_path v)) (hold w) \<and> Recording (vf_path v @ ''.edn'') \<notin># hold w)"
proof -
  have opened: ?thesis if o: "open_recording e pat mk w = (x, w')" and mk: "\<And>p. vf_path (mk p) = p" for pat mk
    using open_recording_hold [OF assms(1) o assms(3,4)] mk
    by (cases x) (auto simp: recorded_def)
  show ?thesis
  proof (cases "model = VerifyReconciliation")
    case True
    hence "open_recording e ''proofload-expect-*.ndjson'' (\<lambda>p. \<lparr>vf_model = model, vf_path = p, vf_expLog = True, vf_histW = False,
        vf_readOp = pickReadOp (re_Workload r)\<rparr>) w = (x, w')"
      using assms(2) by (simp add: newVerification_def)
    from opened [OF this] show ?thesis
      by simp
  next
    case rec: False
    show ?thesis
    proof (cases "model = VerifyRegister \<or> model = VerifyListAppend")
      case True
      hence "open_recording e ''proofload-history-*.ndjson'' (\<lambda>p. \<lparr>vf_model = model, vf_path = p, vf_expLog = False, vf_histW = True, vf_readOp = ''''\<rparr>) w = (x, w')"
        using rec assms(2) by (auto simp: newVerification_def)
      from opened [OF this] show ?thesis
        by simp
    next
      case False
      thus ?thesis
        using rec assms(2) by (auto simp: newVerification_def recorded_def)
    qed
  qed
qed

lemma ver_cleanup_hold:
  assumes "verify_tracks e hold"
  shows "hold (ver_cleanup e v w) = (if vf_path v = '''' then hold w else hold w - {#Recording (vf_path v)#} - {#Recording (vf_path v @ ''.edn'')#})"
proof -
  have "hold (snd (ve_CloseWriter e p w)) = hold w" for p w
    using verify_tracksD(5) [OF assms] by (metis prod.collapse)
  thus ?thesis
    using verify_tracksD(7) [OF assms] by (auto simp: ver_cleanup_def Let_def)
qed

lemma ops_trackD:
  assumes "ops_track ops hold"
  shows "verify_tracks (ro_verify ops) hold"
    "ro_mkdirTemp ops pat w = (r, w1) \<Longrightarrow> hold w1 = (case r of Inl _ \<Rightarrow> hold w | Inr d \<Rightarrow> add_mset (AssetDir d) (hold w))"
    "ro_mkdirAll ops p w = (er, w1) \<Longrightarrow> hold w1 = hold w" "ro_copyFile ops s p w = (er, w1) \<Longrightarrow> hold w1 = hold w"
    "hold (ro_removeAll ops d w) = hold w - {#AssetDir d#}"
    "ro_get ops b = Inr pv \<Longrightarrow> hold (snd (pv_Down pv t w)) = hold w - {#ClusterUp t#}"
    "ro_schema ops c wl w = (er, w1) \<Longrightarrow> hold w1 = hold w" "ro_coordinate ops rv w = (er, w1) \<Longrightarrow> hold w1 = hold w"
    "ro_drive ops rv v tt n w = (rr, n1, w1) \<Longrightarrow> hold w1 = hold w + (if nr_started n1 \<and> \<not> nr_stopped n1 then {#ActiveFaults#} else {#})"
    "hold (snd (ro_nemStop ops n w)) = hold w - {#ActiveFaults#}"
    "ro_artifacts ops rv res w = (ra, w1) \<Longrightarrow> hold w1 = hold w" "ro_writeVerify ops pa vr w = (er, w1) \<Longrightarrow> hold w1 = hold w"
    "hold (ro_finish ops rv res pa vo n w) = hold w"
  using assms unfolding ops_track_def Let_def case_prod_beta by (metis fst_conv snd_conv)+

lemma ops_track_Up:
  assumes "ops_track ops hold" "ro_get ops b = Inr p" "pv_Up p t w = Some (Inr c, w1)"
  shows "hold w1 = add_mset (ClusterUp t) (hold w)"
  using assms unfolding ops_track_def by fastforce

lemma walk_assets_hold:
  assumes "ops_track ops hold" "walk_assets ops dir as w = (er, w')"
  shows "hold w' = hold w"
  using assms(2)
proof (induction as arbitrary: w)
  case (Cons a as)
  thus ?case
    by (cases "ae_isDir a") (auto dest!: ops_trackD(3,4) [OF assms(1)] split: option.splits prod.splits)
qed simp

lemma materialize_hold:
  assumes "ops_track ops hold" "materialize ops w = (x, w')"
  shows "hold w' = (case x of Inl _ \<Rightarrow> hold w | Inr d \<Rightarrow> add_mset (AssetDir d) (hold w))"
  using assms(2) ops_trackD(5) [OF assms(1)]
  by (auto simp: materialize_def dest!: ops_trackD(2) [OF assms(1)] walk_assets_hold [OF assms(1)] split: sum.splits prod.splits option.splits)

lemma stop_faults_hold:
  assumes "ops_track ops hold" "stop_faults ops n w = (n', w')"
    "hold w = B + (if nr_started n \<and> \<not> nr_stopped n then {#ActiveFaults#} else {#})"
  shows "hold w' = B" "nr_started n' \<longrightarrow> nr_stopped n'"
  using assms(2,3) ops_trackD(10) [OF assms(1), of n w]
  by (auto simp: stop_faults_def nem_stop_def split: if_splits prod.splits)

lemma run_tail_hold:
  assumes "ops_track ops hold" "run_tail ops r ver res n w = Some (e, w')" "recorded ver"
  shows "hold w' = hold w \<or> vf_path ver \<noteq> '''' \<and> hold w' = add_mset (Recording (vf_path ver @ ''.edn'')) (hold w)"
proof -
  note T = ops_trackD [OF assms(1)]
  obtain ra w1 where a: "ro_artifacts ops r res w = (ra, w1)"
    by (cases "ro_artifacts ops r res w")
  show ?thesis
  proof (cases ra)
    case (Inl e')
    thus ?thesis
      using assms(2) a T(11) [OF a] by (auto simp: run_tail_def)
  next
    case (Inr p)
    then obtain y w2 where y: "ver_run (ro_verify ops) (ro_name ops) ver r w1 = Some (y, w2)"
      using assms(2) a by (auto simp: run_tail_def split: option.splits)
    have "hold w' = hold w2"
      using assms(2) a Inr y T(13)
      by (auto simp: run_tail_def dest!: T(12) split: sum.splits option.splits prod.splits)
    thus ?thesis
      using ver_run_hold [OF T(1) y assms(3)] T(11) [OF a] by auto
  qed
qed

lemma run_load_hold:
  assumes "ops_track ops hold" "run_load ops f r tt ver w = Some (e, w')" "recorded ver"
  shows "hold w' = hold w \<or> vf_path ver \<noteq> '''' \<and> hold w' = add_mset (Recording (vf_path ver @ ''.edn'')) (hold w)"
proof (cases "newNemesis (ro_loadFaults ops) (ro_stat ops) f (ro_name ops) r")
  case (Inl e')
  thus ?thesis
    using assms(2) by (simp add: run_load_def)
next
  case (Inr n)
  note T = ops_trackD [OF assms(1)]
  obtain rr n1 w1 where d: "ro_drive ops r ver tt n w = (rr, n1, w1)"
    by (cases "ro_drive ops r ver tt n w")
  obtain n2 w2 where s: "stop_faults ops n1 w1 = (n2, w2)"
    by (cases "stop_faults ops n1 w1")
  note h = stop_faults_hold [OF assms(1) s T(9) [OF d]]
  show ?thesis
  proof (cases rr)
    case (Inl e')
    thus ?thesis
      using assms(2) Inr d s h by (auto simp: run_load_def)
  next
    case res: (Inr res)
    then obtain e3 w3 where t: "run_tail ops r ver res n2 w2 = Some (e3, w3)"
      using assms(2) Inr d s by (auto simp: run_load_def split: option.splits)
    have "w' = w3"
      using assms(2) Inr d s res t h(2) by (auto simp: run_load_def stop_faults_def)
    thus ?thesis
      using run_tail_hold [OF assms(1) t assms(3)] h(1) by simp
  qed
qed

lemma run_single_hold:
  assumes "ops_track ops hold" "run_single ops f r tt w = Some (e, w')"
    "\<forall>p w. fst (ve_CloseTemp (ro_verify ops) p w) = None" "\<forall>p w. fst (ve_OpenWriter (ro_verify ops) p w) = None"
  shows "hold w' = hold w"
proof -
  note T = ops_trackD [OF assms(1)]
  obtain er w1 where s: "ro_schema ops (re_Driver r) (re_Workload r) w = (er, w1)"
    by (cases "ro_schema ops (re_Driver r) (re_Workload r) w")
  obtain x w2 where v: "newVerification (ro_verify ops) (resolveVerifyModel f (re_Workload r)) r w1 = (x, w2)"
    by (cases "newVerification (ro_verify ops) (resolveVerifyModel f (re_Workload r)) r w1")
  note h = newVerification_hold [OF T(1) v assms(3,4)]
  show ?thesis
  proof (cases "er \<noteq> None \<or> isl x")
    case True
    thus ?thesis
      using assms(2) s v h T(7) [OF s] by (auto simp: run_single_def isl_def split: option.splits)
  next
    case False
    then obtain ver where ver: "er = None" "x = Inr ver"
      by (cases x) auto
    then obtain e3 w3 where l: "run_load ops f r tt ver w2 = Some (e3, w3)" "w' = ver_cleanup (ro_verify ops) ver w3"
      using assms(2) s v by (auto simp: run_single_def split: option.splits)
    have r: "recorded ver"
      using h ver by simp
    show ?thesis
      using run_load_hold [OF assms(1) l(1) r] h ver T(7) [OF s] l(2)
      by (auto simp: ver_cleanup_hold [OF T(1)] split: if_splits)
  qed
qed

lemma ensureEndpoints_hold:
  assumes "ops_track ops hold" "ensureEndpoints (ro_get ops) (ro_fileExists ops) f nm r w = Some ((td, er), r', w')" "\<not> rf_keep f"
    "clean_up ops hold"
  shows "case td of None \<Rightarrow> hold w' = hold w
    | Some (p, t) \<Rightarrow> er = None \<and> hold w' = add_mset (ClusterUp t) (hold w) \<and> (\<exists>b. ro_get ops b = Inr p)"
proof (cases "rf_provision f = '''' \<or> isl (ro_get ops (rf_provision f))")
  case True
  thus ?thesis
    using assms(2) by (auto simp: ensureEndpoints_def Let_def isl_def split: if_splits)
next
  case False
  then obtain p where p: "ro_get ops (rf_provision f) = Inr p" "rf_provision f \<noteq> ''''"
    by (cases "ro_get ops (rf_provision f)") auto
  define r1 where "r1 = prefer_bundle (ro_fileExists ops) f nm r"
  obtain ru w1 where u: "pv_Up p (re_Topology r1) w = Some (ru, w1)"
    using assms(2) p unfolding r1_def by (auto simp: ensureEndpoints_def Let_def split: option.splits)
  show ?thesis
  proof (cases ru)
    case (Inl e)
    hence "hold w1 = hold w"
      using clean_upD(1) [OF assms(4) p(1)] u by simp
    thus ?thesis
      using assms(2) p u Inl unfolding r1_def by (auto simp: ensureEndpoints_def Let_def)
  next
    case (Inr c)
    hence "hold w1 = add_mset (ClusterUp (re_Topology r1)) (hold w)"
      using ops_track_Up [OF assms(1) p(1)] u by simp
    moreover have "filter (\<lambda>c. c \<noteq> '''') (map n_Client (cs_Nodes c)) \<noteq> []"
      using clean_upD(2) [OF assms(4) p(1)] u Inr by simp
    ultimately show ?thesis
      using assms(2,3) p u Inr unfolding r1_def by (auto simp: ensureEndpoints_def Let_def)
  qed
qed

text \<open>A run on a world that is the multiset of held resources: a provisioned one-node cluster, a crash fault, a register check.\<close>

definition demo_target_env :: "resource multiset target_env" where
  "demo_target_env = \<lparr>te_Connect = (\<lambda>w. (None, add_mset OpenConn w)), te_Prepare = (\<lambda>_ w. (None, w)),
     te_Execute = (\<lambda>op w. (\<lparr>r_Type = op_Type op, r_Rows = 0, r_Observed = ANil, r_Err = None\<rparr>, w)),
     te_Close = (\<lambda>w. w - {#OpenConn#}), te_Nodes = None, te_ReadKeyFrom = (\<lambda>_ _ w. (Inl [], w)), te_Now = (\<lambda>w. (0, w)), te_Poll = (\<lambda>w. (None, w))\<rparr>"

definition demo_verify_env :: "resource multiset verify_env" where
  "demo_verify_env = \<lparr>ve_CreateTemp = (\<lambda>_ w. if Recording ''h.edn'' \<in># w then (Inl ''exists'', w) else (Inr ''h'', add_mset (Recording ''h'') w)),
     ve_CloseTemp = (\<lambda>_ w. (None, w)), ve_OpenWriter = (\<lambda>_ w. (None, w)), ve_CloseWriter = (\<lambda>_ w. (None, w)), ve_ReadLines = (\<lambda>_ _. Inr []),
     ve_WriteLines = (\<lambda>p _ w. (None, add_mset (Recording p) w)), ve_Remove = (\<lambda>p w. w - {#Recording p#}), ve_record = (\<lambda>_. None), ve_event = (\<lambda>_. None),
     ve_native = None, ve_target = demo_target_env, ve_orders = (\<lambda>_. ([], [])), ve_keys = (\<lambda>_. []), ve_porcupine = (\<lambda>_. Ok), ve_elle = (\<lambda>_ _. (True, [], None))\<rparr>"

definition demo_resolved :: Resolved where
  "demo_resolved = \<lparr>re_Workload = demo_kv,
     re_Topology = \<lparr>t_Name = ''pg'', t_Backend = ''compose'', t_Target = ''pg'', t_Image = ''postgres'', t_Version = ''16'', t_Nodes = 1,
       t_ReplicationFactor = 1, t_Resources = \<lparr>res_CPU = [], res_Memory = []\<rparr>, t_Bundle = [], t_Extra = Map.empty\<rparr>,
     re_Driver = dr_cfg demo_pp,
     re_Manifest = \<lparr>m_RunID = ''r1'', m_Target = ''pg'', m_TargetVersion = ''16'', m_Workload = ''kv'', m_TestType = TestBenchmark,
       m_Mode = ''correctness'', m_Rate = dr_rate demo_pp, m_Duration = 100, m_Warmup = 0, m_Connections = 1, m_Seed = 0, m_Trials = 1,
       m_Consistency = [], m_Cluster = cfg_Cluster (dr_cfg demo_pp), m_Faults = [], m_EngineVersion = [], m_GitSHA = [],
       m_Client = \<lparr>ci_Hostname = [], ci_OS = [], ci_Arch = [], ci_CPUs = 1\<rparr>, m_Labels = Map.empty, m_CreatedAt = 0\<rparr>\<rparr>"

definition demo_provisioner :: "resource multiset Provisioner" where
  "demo_provisioner = \<lparr>pv_Backend = ''kubernetes'', pv_Up = (\<lambda>t w. Some (Inr \<lparr>cs_Nodes = [\<lparr>n_ID = ''n1'', n_Role = RolePrimary, n_Client = ''db:5432'',
       n_Control = \<lparr>ce_Method = [], ce_Ref = [], ce_Namespace = [], ce_Extra = Map.empty\<rparr>\<rparr>], cs_ReplicationFactor = 1, cs_Consistency = []\<rparr>, add_mset (ClusterUp t) w)),
     pv_Down = (\<lambda>t w. (None, w - {#ClusterUp t#})), pv_Nodes = (\<lambda>_ w. (Inr [], w))\<rparr>"

definition demo_ops :: "(resource multiset, unit) run_ops" where
  "demo_ops = \<lparr>ro_name = ''pg'', ro_mkdirTemp = (\<lambda>_ w. (Inr ''d'', add_mset (AssetDir ''d'') w)), ro_assets = [\<lparr>ae_path = ''target.yaml'', ae_isDir = False, ae_err = None\<rparr>],
     ro_mkdirAll = (\<lambda>_ w. (None, w)), ro_copyFile = (\<lambda>_ _ w. (None, w)), ro_removeAll = (\<lambda>d w. w - {#AssetDir d#}), ro_resolve = (\<lambda>_. Inr demo_resolved),
     ro_get = (\<lambda>_. Inr demo_provisioner), ro_fileExists = (\<lambda>_. False), ro_schema = (\<lambda>_ _ w. (None, w)), ro_coordinate = (\<lambda>_ w. (None, w)),
     ro_verify = demo_verify_env,
     ro_loadFaults = (\<lambda>_. Inr [\<lparr>dt_Type = ''crash'', dt_Target = [], dt_At = [], dt_Duration = [], dt_Repeat = [], dt_Params = Map.empty\<rparr>]), ro_stat = (\<lambda>_. None),
     ro_drive = (\<lambda>_ _ _ n w. let n1 = nem_begin 0 n in (Inr (), n1, w + (if nr_started n1 \<and> \<not> nr_stopped n1 then {#ActiveFaults#} else {#}))),
     ro_nemStop = (\<lambda>_ w. ([], w - {#ActiveFaults#})), ro_artifacts = (\<lambda>_ _ w. (Inr (Layout [] ''pg'' ''r1''), w)), ro_writeVerify = (\<lambda>_ _ w. (None, w)),
     ro_finish = (\<lambda>_ _ _ _ _ w. w)\<rparr>"

definition demo_run_flags :: runFlags where
  "demo_run_flags = \<lparr>rf_workload = ''kv'', rf_endpoints = [], rf_consistency = [], rf_connections = 1, rf_duration = 100, rf_warmup = 0, rf_rate = 0, rf_seed = 7,
     rf_results = [], rf_provision = ''kubernetes'', rf_verify = ''register'', rf_export = [], rf_fault = ''f.yaml'', rf_workers = 0, rf_coordAddr = [], rf_keep = False, rf_test = []\<rparr>"

lemma demo_ops_track: "ops_track demo_ops (\<lambda>w. w)"
proof -
  have "target_tracks demo_target_env (\<lambda>w. w)"
    by (simp add: target_tracks_def demo_target_env_def)
  hence "verify_tracks demo_verify_env (\<lambda>w. w)"
    by (simp add: verify_tracks_def demo_verify_env_def)
  thus ?thesis
    by (simp add: ops_track_def demo_ops_def demo_provisioner_def Let_def)
qed

lemma demo_doRun: "\<exists>er w'. doRun demo_ops {} demo_run_flags {#} = Some (er, w')"
proof -
  have l: "\<exists>w'. run_load demo_ops demo_run_flags r tt
      \<lparr>vf_model = VerifyRegister, vf_path = ''h'', vf_expLog = False, vf_histW = True, vf_readOp = []\<rparr> w = Some (None, w')"
    if "cs_Nodes (cfg_Cluster (re_Driver r)) \<noteq> []" for r tt w
    using that
    by (simp add: run_load_def newNemesis_def loadFaultSchedule_def fault_spec_def parseDurOrZero_def demo_ops_def demo_run_flags_def
          stop_faults_def nem_begin_def nem_stop_def zero_nemesisRun_def Let_def run_tail_def ver_run_def demo_verify_env_def checkRegister_def ReadHistory_def readHistory_def)
  have v: "ro_schema demo_ops c wl w = (None, w)" "ro_resolve demo_ops opt = Inr demo_resolved" "materialize demo_ops {#} = (Inr ''d'', {#AssetDir ''d''#})"
    "Recording ''h.edn'' \<notin># w \<Longrightarrow> newVerification (ro_verify demo_ops) (resolveVerifyModel demo_run_flags wl) r w =
       (Inr \<lparr>vf_model = VerifyRegister, vf_path = ''h'', vf_expLog = False, vf_histW = True, vf_readOp = []\<rparr>, add_mset (Recording ''h'') w)" for c wl w opt r
    by (simp_all add: demo_ops_def materialize_def newVerification_def open_recording_def tempFile_def resolveVerifyModel_def demo_run_flags_def demo_verify_env_def Let_def)
  have s: "\<exists>e w'. run_provisioned demo_ops demo_run_flags r w = Some (e, w')"
    if nodes: "cs_Nodes (cfg_Cluster (re_Driver r)) \<noteq> []" and free: "Recording ''h.edn'' \<notin># w" for r w
  proof -
    define r1 where "r1 = r\<lparr>re_Manifest := (re_Manifest r)\<lparr>m_Seed := 7, m_TestType := TestBenchmark\<rparr>\<rparr>"
    obtain w' where "run_load demo_ops demo_run_flags r1 TestBenchmark
      \<lparr>vf_model = VerifyRegister, vf_path = ''h'', vf_expLog = False, vf_histW = True, vf_readOp = []\<rparr> (add_mset (Recording ''h'') w) = Some (None, w')"
      using l [of r1] nodes by (force simp: r1_def)
    hence "\<exists>e w'. run_single demo_ops demo_run_flags r1 TestBenchmark w = Some (e, w')"
      using v(4) [OF free] by (simp add: run_single_def v(1))
    moreover have "resolveTestType demo_run_flags = Inr TestBenchmark" "\<not> 0 < rf_workers demo_run_flags" "rf_seed demo_run_flags = 7"
      by (simp_all add: resolveTestType_def demo_run_flags_def)
    ultimately show ?thesis
      by (simp add: run_provisioned_def Let_def r1_def)
  qed
  have "\<exists>td r1 w1. ensureEndpoints (ro_get demo_ops) (ro_fileExists demo_ops) demo_run_flags nm demo_resolved {#AssetDir ''d''#} = Some ((td, None), r1, w1) \<and>
      cs_Nodes (cfg_Cluster (re_Driver r1)) \<noteq> [] \<and> Recording ''h.edn'' \<notin># w1" for nm
    by (simp add: ensureEndpoints_def prefer_bundle_def demo_ops_def demo_provisioner_def demo_run_flags_def Let_def)
  then obtain td r1 w1 where "ensureEndpoints (ro_get demo_ops) (ro_fileExists demo_ops) demo_run_flags (ro_name demo_ops) demo_resolved {#AssetDir ''d''#} = Some ((td, None), r1, w1)"
      "cs_Nodes (cfg_Cluster (re_Driver r1)) \<noteq> []" "Recording ''h.edn'' \<notin># w1"
    by blast
  thus ?thesis
    using s [of r1 w1] by (auto simp: doRun_def v with_endpoints_def)
qed



end
