(* ===== verification/Verified_Run.thy ===== *)
theory Verified_Run
  imports Cli_Run "HOL-Library.Countable"
begin

text \<open>
  A run with reconciliation, from the generators to the verdict: \<open>drive\<close> of \<open>core/cli\<close> with the write-log observer on
  every connection, against the \<open>FakeDriver\<close> of \<open>core/testutil\<close>. The invariant relates the store, the operations in
  flight and the measured operations of all workers under every interleaving.
\<close>

section \<open>Definitions\<close>

definition fake_driver :: "(unit, FakeDriver) Driver" where
  "fake_driver = \<lparr>dv_Connect = (\<lambda>cfg d. (Inr (), d)), dv_Prepare = (\<lambda>wl c d. (None, d)),
     dv_Execute = (\<lambda>ctx op c d. fake_Execute ctx op d), dv_Close = (\<lambda>c d. (None, d))\<rparr>"

text \<open>The observer state of a connection is the lines it has written to the expectation log.\<close>

definition log_observe :: "(WriteRecord \<Rightarrow> string) \<Rightarrow> Operation \<Rightarrow> OpResult \<Rightarrow> instant \<Rightarrow> instant \<Rightarrow> string list \<Rightarrow> string list" where
  "log_observe encode op res start fin ls = writeLogObserver_Observe encode op res ls"

definition verified_deps :: "'h hist_lib \<Rightarrow> zipf \<Rightarrow> (WriteRecord \<Rightarrow> string) \<Rightarrow> string list driveParams \<Rightarrow> Factory \<Rightarrow> instant \<Rightarrow>
    (unit, FakeDriver, Scheduler, generator, 'h Local, string list) Deps" where
  "verified_deps lib zipf encode pp f start =
     drive_deps lib zipf fake_driver (log_observe encode) (pp\<lparr>dr_observer := Some (\<lambda>shard. Some [])\<rparr>) f start"

text \<open>A write that the target acknowledged.\<close>

definition acked :: "Operation \<Rightarrow> OpResult \<Rightarrow> bool" where
  "acked op res \<longleftrightarrow> r_Err res = None \<and> op_Value op \<noteq> []"

definition record_of :: "Operation \<Rightarrow> WriteRecord" where
  "record_of op = \<lparr>wr_Key = op_Key op, wr_Checksum = Checksum (op_Value op), wr_Seq = op_Seq op\<rparr>"

section \<open>Generators never stop\<close>

definition gen_live :: "Factory \<Rightarrow> generator \<Rightarrow> bool" where
  "gen_live f g \<longleftrightarrow> gn_f g = f \<and> gn_vsize g = w_ValueSize (fa_w f) \<and> 0 < fa_total f \<and> in64 (fa_total f) \<and>
     (\<forall>sp. gn_keys g = UniformKeys sp \<longrightarrow> 0 < sp \<and> in64 sp)"

definition payload_ok :: "int \<Rightarrow> Operation \<Rightarrow> bool" where
  "payload_ok vs op \<longleftrightarrow> op_Value op = [] \<or> op_Value op = Value (op_Key op) vs"

lemma keyGen_next_live:
  assumes "\<forall>sp. g = UniformKeys sp \<longrightarrow> 0 < sp \<and> in64 sp"
  shows "\<exists>v g' r'. keyGen_next zipf g r = Some (v, g', r') \<and> (\<forall>sp. g' = UniformKeys sp \<longrightarrow> 0 < sp \<and> in64 sp)"
proof (cases g)
  case (UniformKeys sp)
  thus ?thesis
    using assms Int64N_ok [of sp r] by auto
qed (auto simp: Let_def split: prod.splits)

lemma generator_Next_live:
  assumes "gen_live f g" "the (generator_Next zipf g) = (op, g')"
  shows "gen_live f g'" "payload_ok (w_ValueSize (fa_w f)) op"
proof -
  obtain x r1 where x: "IntN (fa_total f) (gn_r g) = Some (x, r1)"
    using Int64N_ok [of "fa_total f" "gn_r g"] assms(1) by (auto simp: IntN_def gen_live_def)
  obtain v keys' r2 where v: "keyGen_next zipf (gn_keys g) r1 = Some (v, keys', r2)" "\<forall>sp. keys' = UniformKeys sp \<longrightarrow> 0 < sp \<and> in64 sp"
    using keyGen_next_live [of "gn_keys g" zipf r1] assms(1) unfolding gen_live_def by blast
  show "gen_live f g'" "payload_ok (w_ValueSize (fa_w f)) op"
    using assms x v by (auto simp: generator_Next_def pickOp_def gen_live_def payload_ok_def Let_def)
qed

lemma Factory_Generator_live:
  assumes "New w seed workerID workerCount = Inr f" "in64 (w_KeySpace w + workerCount)" "in64 (sum_list (map os_Weight (w_Operations w)))"
  shows "gen_live f (Factory_Generator f shard)"
  using New_Inr [OF assms] by (auto simp: gen_live_def Factory_Generator_def Let_def newKeyGen_def factory_ok_def)

section \<open>The invariant\<close>

definition landed :: "int \<Rightarrow> FakeDriver \<Rightarrow> Operation \<Rightarrow> OpResult \<Rightarrow> bool" where
  "landed vs d op res \<longleftrightarrow> payload_ok vs op \<and> (acked op res \<longrightarrow> fd_store d (op_Key op) \<noteq> None)"

definition ver_pc :: "int \<Rightarrow> FakeDriver \<Rightarrow> pc \<Rightarrow> bool" where
  "ver_pc vs d p = (case p of AtDispatch _ op \<Rightarrow> payload_ok vs op | AtExecute _ op _ \<Rightarrow> payload_ok vs op
     | AtReturn _ op _ res \<Rightarrow> landed vs d op res | AtObserve _ op _ res _ \<Rightarrow> landed vs d op res | _ \<Rightarrow> True)"

definition ver_wk :: "Factory \<Rightarrow> FakeDriver \<Rightarrow> ('c, generator, 'k, 'o) worker \<Rightarrow> bool" where
  "ver_wk f d wk \<longleftrightarrow> gen_live f (wk_gen wk) \<and> ver_pc (w_ValueSize (fa_w f)) d (wk_pc wk) \<and>
     (\<forall>m\<in>set (wk_log wk). landed (w_ValueSize (fa_w f)) d (me_op m) (me_res m))"

definition store_ok :: "int \<Rightarrow> FakeDriver \<Rightarrow> bool" where
  "store_ok vs d \<longleftrightarrow> fake_ok d \<and> (\<forall>k b. fd_store d k = Some b \<longrightarrow> b = Value k vs)"

fun ver_inv :: "Factory \<Rightarrow> (unit, FakeDriver, 's, generator, 'k, 'o) run_state \<Rightarrow> bool" where
  "ver_inv f (ce, sh, wks) \<longleftrightarrow> store_ok (w_ValueSize (fa_w f)) (sh_world sh) \<and> (\<forall>wk\<in>set wks. ver_wk f (sh_world sh) wk)"

lemma fake_Execute_store:
  assumes "fake_Execute ctx op d = (res, d')" "store_ok vs d" "payload_ok vs op"
  shows "store_ok vs d'" "landed vs d' op res" "dom (fd_store d) \<subseteq> dom (fd_store d')"
  using assms by (auto simp: fake_Execute_def store_ok_def fake_ok_def payload_ok_def landed_def acked_def Let_def split: if_splits)

lemma landed_mono: "landed vs d op res \<Longrightarrow> dom (fd_store d) \<subseteq> dom (fd_store d') \<Longrightarrow> landed vs d' op res"
  by (auto simp: landed_def dom_def)

lemma ver_wk_mono:
  assumes "ver_wk f d wk" "dom (fd_store d) \<subseteq> dom (fd_store d')"
  shows "ver_wk f d' wk"
  using assms by (auto simp: ver_wk_def ver_pc_def intro: landed_mono split: pc.splits)

lemma wstep_verified:
  assumes "wstep d fake_driver nxt warmupEnd sh wk sh' wk'" "dp_GenNext d = (\<lambda>g. the (generator_Next zipf g))"
    "store_ok (w_ValueSize (fa_w f)) (sh_world sh)" "ver_wk f (sh_world sh) wk"
  shows "store_ok (w_ValueSize (fa_w f)) (sh_world sh') \<and> ver_wk f (sh_world sh') wk' \<and> dom (fd_store (sh_world sh)) \<subseteq> dom (fd_store (sh_world sh'))"
  using assms
proof (induction rule: wstep.induct)
  case (gen wk intended op g' sh)
  thus ?case
    using generator_Next_live [of f "wk_gen wk" zipf op g'] by (auto simp: ver_wk_def ver_pc_def)
next
  case (execute wk intended op dispatch sh res w')
  have e: "fake_Execute (sh_err sh) op (sh_world sh) = (res, w')" "payload_ok (w_ValueSize (fa_w f)) op"
    using execute by (auto simp: fake_driver_def ver_wk_def ver_pc_def)
  note s = fake_Execute_store [OF e(1) execute(4) e(2)]
  show ?case
    using s execute(5) by (auto simp: ver_wk_def ver_pc_def intro: landed_mono)
next
  case (observe wk intended op dispatch res fin sh wk' acts)
  thus ?case
    by (auto simp: observe_def Let_def ver_wk_def ver_pc_def after_update_def split: if_splits)
qed (auto simp: ver_wk_def ver_pc_def after_update_def split: option.splits)

interpretation verified: invariant_system "rstep (verified_deps lib zipf encode pp f start) fake_driver nxt warmupEnd measureEnd" "ver_inv f"
  for lib :: "'h hist_lib" and zipf encode pp f start nxt warmupEnd measureEnd
proof
  fix s t
  assume inv: "ver_inv f s" and step: "rstep (verified_deps lib zipf encode pp f start) fake_driver nxt warmupEnd measureEnd s t"
  from step inv show "ver_inv f t"
  proof (induction rule: rstep.induct)
    case (work i wks sh sh' wk' ce)
    have g: "dp_GenNext (verified_deps lib zipf encode pp f start) = (\<lambda>g. the (generator_Next zipf g))"
      by (simp add: verified_deps_def drive_deps_def Let_def)
    have "ver_wk f (sh_world sh) (wks ! i)"
      using work(1,3) by simp
    note s = wstep_verified [OF work(2) g _ this]
    have "\<forall>wk\<in>set wks. ver_wk f (sh_world sh') wk"
      using s work(3) by (auto intro: ver_wk_mono)
    thus ?case
      using s work(3) by (auto dest!: set_update_subset_insert [THEN subsetD])
  qed auto
qed

section \<open>The log of a run\<close>

lemma log_observe_fold:
  "fold (observe_measured (verified_deps lib zipf encode pp f start)) ms ls =
     ls @ map encode (map (\<lambda>m. record_of (me_op m)) (filter (\<lambda>m. acked (me_op m) (me_res m)) ms))"
  by (induction ms arbitrary: ls)
     (auto simp: observe_measured_def verified_deps_def drive_deps_def Let_def log_observe_def writeLogObserver_Observe_def
        LogWriter_Record_def acked_def record_of_def)

definition run_recs :: "('c, 'g, 'k, 'o) worker list \<Rightarrow> WriteRecord list" where
  "run_recs wks = map (\<lambda>m. record_of (me_op m)) (filter (\<lambda>m. acked (me_op m) (me_res m)) (concat (map wk_log wks)))"

lemma run_log_lines:
  assumes "(rstep (verified_deps lib zipf encode pp f start) fake_driver nxt warmupEnd measureEnd)\<^sup>*\<^sup>*
      (run_init (verified_deps lib zipf encode pp f start) gen s0 ce0 base conns d0) (ce, sh, wks)"
  shows "concat (map (\<lambda>wk. the (wk_obs wk)) wks) = map encode (run_recs wks)"
proof -
  let ?d = "verified_deps lib zipf encode pp f start"
  have "the (wk_obs wk) = map encode (map (\<lambda>m. record_of (me_op m)) (filter (\<lambda>m. acked (me_op m) (me_res m)) (wk_log wk)))"
    if wk: "wk \<in> set wks" for wk
  proof -
    obtain i where i: "i < length wks" "wk = wks ! i"
      using wk by (metis in_set_conv_nth)
    have "wk_inv ?d warmupEnd (sh_now sh) i wk"
      using run_invD [OF assms] i by simp
    hence "wk_obs wk = map_option (fold (observe_measured ?d) (wk_log wk)) (measureObserver ?d i)"
      unfolding wk_inv_def by blast
    moreover have "measureObserver ?d i = Some []"
      by (simp add: measureObserver_def verified_deps_def drive_deps_def Let_def)
    ultimately show ?thesis
      by (simp add: log_observe_fold)
  qed
  hence "map (\<lambda>wk. the (wk_obs wk)) wks =
      map (\<lambda>wk. map encode (map (\<lambda>m. record_of (me_op m)) (filter (\<lambda>m. acked (me_op m) (me_res m)) (wk_log wk)))) wks"
    by (intro map_cong) auto
  thus ?thesis
    by (simp add: run_recs_def map_concat filter_concat o_def cong: map_cong)
qed

text \<open>Reading a log whose lines are the encoded records in any order.\<close>

lemma readLog_perm:
  assumes "mset ls = mset (map encode recs)" "\<forall>r. encode r \<noteq> [] \<and> unmarshal (encode r) = Some r"
  shows "\<exists>expected. readLog unmarshal ls = Inr expected \<and> dom expected = wr_Key ` set recs \<and>
    (\<forall>k r. expected k = Some r \<longrightarrow> r \<in> set recs \<and> wr_Key r = k)"
proof -
  have "\<exists>recs'. ls = map encode recs' \<and> mset recs' = mset recs"
  proof (intro exI conjI)
    have "set ls = set (map encode recs)"
      using assms(1) by (metis set_mset_mset)
    hence "\<forall>l\<in>set ls. encode (the (unmarshal l)) = l"
      using assms(2) by auto
    thus "ls = map encode (map (\<lambda>l. the (unmarshal l)) ls)"
      by (simp add: map_idI)
    have "mset (map (\<lambda>l. the (unmarshal l)) ls) = image_mset (\<lambda>l. the (unmarshal l)) (mset (map encode recs))"
      using assms(1) by simp
    thus "mset (map (\<lambda>l. the (unmarshal l)) ls) = mset recs"
      using assms(2) by (simp add: image_mset.compositionality o_def)
  qed
  then obtain recs' where r: "ls = map encode recs'" "mset recs' = mset recs"
    by blast
  have s: "set recs' = set recs"
    using r(2) by (metis set_mset_mset)
  let ?m = "foldl log_insert Map.empty recs'"
  have "k \<in> dom ?m \<longleftrightarrow> k \<in> wr_Key ` set recs'" for k
    using foldl_log_insert [of recs' k] latest_for_max [of recs' k] by (auto simp: foldl_log_insert_iff)
  hence "dom ?m = wr_Key ` set recs"
    using s by blast
  moreover have "?m k = Some r \<Longrightarrow> r \<in> set recs \<and> wr_Key r = k" for k r
    using latest_for_max [of recs' k r] s by (simp add: foldl_log_insert_iff)
  ultimately show ?thesis
    using readLog_loop_encoded [of recs' encode unmarshal 1 Map.empty] assms(2) r(1) by (auto simp: readLog_def)
qed

lemma verified_invariant:
  assumes "drive_factory pp = Inr f" "in64 (w_KeySpace (dr_workload pp) + max 1 (dr_workerCount pp))"
    "in64 (sum_list (map os_Weight (w_Operations (dr_workload pp))))" "fake_ok d0" "fd_store d0 = Map.empty"
    "(rstep (verified_deps lib zipf encode pp f start) fake_driver nxt warmupEnd measureEnd)\<^sup>*\<^sup>*
      (run_init (verified_deps lib zipf encode pp f start) (\<lambda>shard. Factory_Generator f (int shard)) s0 ce0 base conns d0) (ce, sh, wks)"
  shows "ver_inv f (ce, sh, wks)"
proof -
  have n: "New (dr_workload pp) (dr_seed pp) (dr_workerID pp) (max 1 (dr_workerCount pp)) = Inr f"
    using assms(1) by (simp add: drive_factory_def max_def not_less split: if_splits)
  have "ver_inv f (run_init (verified_deps lib zipf encode pp f start) (\<lambda>shard. Factory_Generator f (int shard)) s0 ce0 base conns d0)"
    using Factory_Generator_live [OF n assms(2,3)] assms(4,5)
    by (auto simp: run_init_def new_worker_def ver_wk_def ver_pc_def store_ok_def)
  with assms(6) show ?thesis
    by (rule verified.inv_reachable)
qed

text \<open>What \<open>readLog\<close> expects after a run, and when the store of the target agrees with it.\<close>

lemma expected_agrees:
  assumes "dom expected = wr_Key ` set (run_recs wks)" "\<forall>k r. expected k = Some r \<longrightarrow> r \<in> set (run_recs wks) \<and> wr_Key r = k"
    "ver_inv f (ce, sh, wks)"
  shows "(\<forall>k r. expected k = Some r \<longrightarrow> (\<exists>b. store k = Some b \<and> Checksum b = wr_Checksum r)) \<longleftrightarrow>
    (\<forall>m\<in>set (concat (map wk_log wks)). acked (me_op m) (me_res m) \<longrightarrow>
       (\<exists>b. store (op_Key (me_op m)) = Some b \<and> Checksum b = Checksum (op_Value (me_op m))))"
proof -
  let ?A = "{m \<in> set (concat (map wk_log wks)). acked (me_op m) (me_res m)}"
  let ?c = "\<lambda>k. Checksum (Value k (w_ValueSize (fa_w f)))"
  have recs: "set (run_recs wks) = (\<lambda>m. record_of (me_op m)) ` ?A"
    by (auto simp: run_recs_def)
  have val: "op_Value (me_op m) = Value (op_Key (me_op m)) (w_ValueSize (fa_w f))" if "m \<in> ?A" for m
    using that assms(3) by (auto simp: ver_wk_def landed_def payload_ok_def acked_def)
  have keys: "dom expected = (\<lambda>m. op_Key (me_op m)) ` ?A"
    using assms(1) recs by (auto simp: record_of_def image_image)
  have sums: "wr_Checksum r = ?c k" if "expected k = Some r" for k r
    using assms(2) that recs val by (force simp: record_of_def)
  have "(\<forall>k r. expected k = Some r \<longrightarrow> (\<exists>b. store k = Some b \<and> Checksum b = wr_Checksum r)) \<longleftrightarrow>
      (\<forall>k\<in>dom expected. \<exists>b. store k = Some b \<and> Checksum b = ?c k)"
    using sums by (force simp: dom_def)
  also have "\<dots> \<longleftrightarrow> (\<forall>m\<in>?A. \<exists>b. store (op_Key (me_op m)) = Some b \<and> Checksum b = Checksum (op_Value (me_op m)))"
    unfolding keys using val by auto
  finally show ?thesis
    by auto
qed

lemma acked_stored:
  assumes "ver_inv f (ce, sh, wks)" "m \<in> set (concat (map wk_log wks))" "acked (me_op m) (me_res m)"
  shows "fd_store (sh_world sh) (op_Key (me_op m)) = Some (op_Value (me_op m))"
  using assms by (force simp: ver_wk_def landed_def payload_ok_def store_ok_def acked_def)


section \<open>A small verified run\<close>

definition write_kv :: Workload where
  "write_kv = demo_kv\<lparr>w_Operations := [\<lparr>os_Type = ''insert'', os_Weight = 2\<rparr>]\<rparr>"

definition write_pp :: "string list driveParams" where
  "write_pp = \<lparr>dr_workload = write_kv, dr_cfg = dr_cfg demo_pp, dr_rate = dr_rate demo_pp, dr_connections = 1, dr_warmup = 0, dr_duration = 100,
     dr_seed = 42, dr_workerID = 0, dr_workerCount = 1, dr_startAt = None, dr_observer = None, dr_testType = TestBenchmark\<rparr>"

definition write_options :: Options where
  "write_options = \<lparr>o_ReadOp = ''read'', o_Workload = write_kv, o_ConvergenceSample = 200, o_ConvergenceTimeout = 5 * second\<rparr>"

definition tally_encode :: "WriteRecord \<Rightarrow> string" where
  "tally_encode r = replicate (Suc (prod_encode (int_encode (wr_Key r), prod_encode (unat (wr_Checksum r), int_encode (wr_Seq r))))) (CHR ''x'')"

definition tally_decode :: "string \<Rightarrow> WriteRecord option" where
  "tally_decode s = (let (k, q) = prod_decode (length s - 1); (c, n) = prod_decode q
     in Some \<lparr>wr_Key = int_decode k, wr_Checksum = word_of_nat c, wr_Seq = int_decode n\<rparr>)"

lemma tally_codec: "\<forall>r. tally_encode r \<noteq> [] \<and> tally_decode (tally_encode r) = Some r"
  by (simp add: tally_encode_def tally_decode_def)

lemma write_factory:
  "\<exists>f op g'. drive_factory write_pp = Inr f \<and> generator_Next demo_zipf (Factory_Generator f 0) = Some (op, g') \<and> op_Value op \<noteq> []"
proof -
  obtain f where f: "New write_kv 42 0 1 = Inr f"
    by (simp add: write_kv_def demo_kv_def New_def partition_keys_def paramBool_def i64_def sdiv_nonneg)
  note F = New_Inr [OF f]
  have g: "gen_ok demo_zipf (Suc 0) f (Factory_Generator f 0)"
    using F by (intro Factory_Generator_ok) (auto simp: write_kv_def demo_kv_def in64_def zipf_bounded_def demo_zipf_def)
  obtain op g' where n: "generator_Next demo_zipf (Factory_Generator f 0) = Some (op, g')" "op_ok f (gn_seqOf (Factory_Generator f 0)) op"
    using generator_Next_ok [OF g] by blast
  have "fa_w f = write_kv"
    using F by (simp add: write_kv_def demo_kv_def in64_def)
  hence "op_Type op = ''insert''" "op_Value op = (if isWrite (op_Type op) then Value (op_Key op) 3 else [])"
    using n(2) by (auto simp: op_ok_def write_kv_def demo_kv_def)
  hence "op_Value op = Value (op_Key op) 3"
    by (simp add: isWrite_def readOps_def to_lower_def)
  hence "length (op_Value op) = 3"
    by (simp add: Value_def)
  thus ?thesis
    using f n(1) by (auto simp: drive_factory_def write_pp_def)
qed

definition write_deps :: "Factory \<Rightarrow> (unit, FakeDriver, Scheduler, generator, int list Local, string list) Deps" where
  "write_deps f = verified_deps demo_lib demo_zipf tally_encode write_pp f 0"

lemma write_run:
  assumes "generator_Next demo_zipf (Factory_Generator f 0) = Some (op, g')" "op_Value op \<noteq> []"
  shows "\<exists>sh wk. (rstep (write_deps f) fake_driver (\<lambda>now s. the (sched_Next now s)) 0 100)\<^sup>*\<^sup>*
      (run_init (write_deps f) (\<lambda>i. Factory_Generator f (int i)) (buildScheduler 0 TestBenchmark (dr_rate demo_pp) 100) None 0 [()] NewFakeDriver) (None, sh, [wk]) \<and>
    wk_pc wk = Exited \<and> (\<exists>m. wk_log wk = [m] \<and> acked (me_op m) (me_res m)) \<and> fake_ok (sh_world sh)"
proof -
  have "\<exists>sh wk. rnexts (write_deps f) fake_driver (\<lambda>now s. the (sched_Next now s)) 0 100
       (replicate 4 (Work 0) @ [Tick 3] @ replicate 2 (Work 0) @ [Tick 7] @ replicate 9 (Work 0) @ [Tick 100, Deadline] @ replicate 2 (Work 0))
      (run_init (write_deps f) (\<lambda>i. Factory_Generator f (int i)) (buildScheduler 0 TestBenchmark (dr_rate demo_pp) 100) None 0 [()] NewFakeDriver) = Some (None, sh, [wk]) \<and>
    wk_pc wk = Exited \<and> (\<exists>m. wk_log wk = [m] \<and> acked (me_op m) (me_res m)) \<and> fake_ok (sh_world sh)"
    using assms(2)
    by (simp add: write_deps_def verified_deps_def write_pp_def drive_deps_def buildScheduler_def NewClosedLoop_def closedLoop_Next_def fake_driver_def
        NewFakeDriver_def fake_Execute_def fake_ok_def acked_def run_init_def
        new_worker_def measureSink_def measureObserver_def numeral_eq_Suc wnext_def time_sub_def observe_def after_update_def
        acc_actions_def atomicMin_def atomicMax_def acc0_def assms(1) Let_def)
  thus ?thesis
    using rnexts_sound by blast
qed

end
