(* ===== verification/Spec2Isabelle.thy ===== *)
theory Spec2Isabelle
  imports Kafka Targets K8s Export Verified_Run
begin

text \<open>
  Verification library of proofload, a load generator and correctness checker
  for databases and brokers. See the theories it imports.
\<close>

section \<open>A verified run\<close>

text \<open>C1: a run verified by reconciliation raises no false alarm and misses nothing. Take any interleaving of the workers
  of \<open>drive\<close> on generated operations, with warm-up, deadline and cancellation, and any order in which the connections' lines
  reached the expectation log. Then reading the log succeeds and expects exactly the keys of the acknowledged measured writes; the verdict on
  the target, whatever state it is in by then, is \<open>pass\<close> exactly when it holds, for each of them, bytes with the checksum that was written;
  and on the state the run left it is \<open>pass\<close>.\<close>

theorem verified_run:
  assumes "drive_factory pp = Inr f" "in64 (w_KeySpace (dr_workload pp) + max 1 (dr_workerCount pp))"
    "in64 (sum_list (map os_Weight (w_Operations (dr_workload pp))))" "\<forall>r. encode r \<noteq> [] \<and> unmarshal (encode r) = Some r"
    "fake_ok d0" "fd_store d0 = Map.empty"
    "(rstep (verified_deps lib zipf encode pp f start) fake_driver nxt warmupEnd measureEnd)\<^sup>*\<^sup>*
      (run_init (verified_deps lib zipf encode pp f start) (\<lambda>shard. Factory_Generator f (int shard)) s0 ce0 base conns d0) (ce, sh, wks)"
    "mset ls = mset (concat (map (\<lambda>wk. the (wk_obs wk)) wks))"
  shows "\<exists>expected. readLog unmarshal ls = Inr expected \<and>
    dom expected = (\<lambda>m. op_Key (me_op m)) ` {m \<in> set (concat (map wk_log wks)). acked (me_op m) (me_res m)} \<and>
    (\<forall>d' order order' o1 t. fake_ok d' \<and> order_of expected order \<longrightarrow>
       (\<exists>rep s'. Reconcile fake_env expected order order' o1 (d', t) = Some (Inr rep, s') \<and>
          (vr_Verdict rep = VerdictPass \<longleftrightarrow>
             (\<forall>m\<in>set (concat (map wk_log wks)). acked (me_op m) (me_res m) \<longrightarrow>
                (\<exists>b. fd_store d' (op_Key (me_op m)) = Some b \<and> Checksum b = Checksum (op_Value (me_op m))))) \<and>
          (d' = sh_world sh \<longrightarrow> vr_Verdict rep = VerdictPass)))"
proof -
  note inv = verified_invariant [OF assms(1-3,5-7)]
  have "mset ls = mset (map encode (run_recs wks))"
    using assms(8) run_log_lines [OF assms(7)] by simp
  then obtain expected where e: "readLog unmarshal ls = Inr expected" "dom expected = wr_Key ` set (run_recs wks)"
      "\<forall>k r. expected k = Some r \<longrightarrow> r \<in> set (run_recs wks) \<and> wr_Key r = k"
    using readLog_perm [OF _ assms(4)] by blast
  have "dom expected = (\<lambda>m. op_Key (me_op m)) ` {m \<in> set (concat (map wk_log wks)). acked (me_op m) (me_res m)}"
    using e(2) by (auto simp: run_recs_def record_of_def image_image)
  thus ?thesis
  proof (intro exI [of _ expected] conjI allI impI e(1))
    fix d' order order' o1 t
    assume "fake_ok d' \<and> order_of expected order"
    then obtain rep s' where r: "Reconcile fake_env expected order order' o1 (d', t) = Some (Inr rep, s')"
        "vr_Verdict rep = VerdictPass \<longleftrightarrow> (\<forall>k r. expected k = Some r \<longrightarrow> (\<exists>b. fd_store d' k = Some b \<and> Checksum b = wr_Checksum r))"
      using fake_Reconcile by blast
    note v = r(2) [unfolded expected_agrees [OF e(2,3) inv]]
    have "d' = sh_world sh \<Longrightarrow> vr_Verdict rep = VerdictPass"
      unfolding v using acked_stored [OF inv] by blast
    thus "\<exists>rep s'. Reconcile fake_env expected order order' o1 (d', t) = Some (Inr rep, s') \<and>
          (vr_Verdict rep = VerdictPass \<longleftrightarrow>
             (\<forall>m\<in>set (concat (map wk_log wks)). acked (me_op m) (me_res m) \<longrightarrow>
                (\<exists>b. fd_store d' (op_Key (me_op m)) = Some b \<and> Checksum b = Checksum (op_Value (me_op m))))) \<and>
          (d' = sh_world sh \<longrightarrow> vr_Verdict rep = VerdictPass)"
      using r(1) v by blast
  qed
qed

theorem verified_run_witness:
  "\<exists>f sh wk expected order.
    (rstep (write_deps f) fake_driver (\<lambda>now s. the (sched_Next now s)) 0 100)\<^sup>*\<^sup>*
      (run_init (write_deps f) (\<lambda>i. Factory_Generator f (int i)) (buildScheduler 0 TestBenchmark (dr_rate demo_pp) 100) None 0 [()] NewFakeDriver) (None, sh, [wk]) \<and>
    length (wk_log wk) = 1 \<and> readLog tally_decode (the (wk_obs wk)) = Inr expected \<and> length order = 1 \<and>
    (\<exists>rep s'. Reconcile fake_env expected order order write_options (sh_world sh, 0) = Some (Inr rep, s') \<and> vr_Verdict rep = VerdictPass) \<and>
    (\<exists>rep s'. Reconcile fake_env expected order order write_options (NewFakeDriver, 0) = Some (Inr rep, s') \<and> vr_Verdict rep \<noteq> VerdictPass)"
proof -
  obtain f op g' where f: "drive_factory write_pp = Inr f" "generator_Next demo_zipf (Factory_Generator f 0) = Some (op, g')" "op_Value op \<noteq> []"
    using write_factory by blast
  obtain sh wk m where r: "(rstep (write_deps f) fake_driver (\<lambda>now s. the (sched_Next now s)) 0 100)\<^sup>*\<^sup>*
      (run_init (write_deps f) (\<lambda>i. Factory_Generator f (int i)) (buildScheduler 0 TestBenchmark (dr_rate demo_pp) 100) None 0 [()] NewFakeDriver) (None, sh, [wk])"
      and m: "wk_log wk = [m]" "acked (me_op m) (me_res m)" and ok: "fake_ok (sh_world sh)"
    using write_run [OF f(2,3)] by blast
  have fresh: "fake_ok NewFakeDriver" "fd_store NewFakeDriver = Map.empty"
    by (simp_all add: fake_ok_def NewFakeDriver_def)
  have bounds: "in64 (w_KeySpace (dr_workload write_pp) + max 1 (dr_workerCount write_pp))" "in64 (sum_list (map os_Weight (w_Operations (dr_workload write_pp))))"
    by (simp_all add: write_pp_def write_kv_def demo_kv_def in64_def)
  let ?key = "op_Key (me_op m)"
  have one: "set (concat (map wk_log [wk])) = {m}" "{x \<in> {m}. acked (me_op x) (me_res x)} = {m}"
    using m by auto
  have ls: "mset (the (wk_obs wk)) = mset (concat (map (\<lambda>wk. the (wk_obs wk)) [wk]))"
    by simp
  obtain expected where e: "readLog tally_decode (the (wk_obs wk)) = Inr expected" "dom expected = {?key}"
      "\<And>d' order order' o1 t. fake_ok d' \<Longrightarrow> order_of expected order \<Longrightarrow>
       \<exists>rep s'. Reconcile fake_env expected order order' o1 (d', t) = Some (Inr rep, s') \<and>
          (vr_Verdict rep = VerdictPass \<longleftrightarrow> (\<exists>b. fd_store d' ?key = Some b \<and> Checksum b = Checksum (op_Value (me_op m)))) \<and>
          (d' = sh_world sh \<longrightarrow> vr_Verdict rep = VerdictPass)"
    using verified_run [OF f(1) bounds tally_codec fresh r [unfolded write_deps_def] ls] m(2) unfolding one by auto
  have "order_of expected [?key]"
    using e(2) by (simp add: order_of_def)
  with e(3) [OF ok, of "[?key]" "[?key]" write_options 0] e(3) [OF fresh(1), of "[?key]" "[?key]" write_options 0] show ?thesis
    using r m e(1) fresh(2)
    by (intro exI [of _ f] exI [of _ sh] exI [of _ wk] exI [of _ expected] exI [of _ "[?key]"]) auto
qed

end
